(* ===== verification/Prelude.thy ===== *)
theory Prelude
  imports Main "HOL-Library.Word" "HOL-Library.Monad_Syntax" "HOL-Library.AList"
begin

text \<open>
  The shared base of the development: the machine types of the Go sources as words, byte
  slices with their run-time bounds checks, network byte order (package
  \<^verbatim>\<open>encoding/binary\<close>) and in-place buffers.

  Conventions. A Go \<^verbatim>\<open>[]byte\<close> is a \<open>byte list\<close>. A run-time panic is the value
  \<^term>\<open>None\<close> of the option monad, so a function of type \<open>\<dots> \<Rightarrow> 'a option\<close> returns
  \<^term>\<open>None\<close> exactly where the source would panic and a theorem that the result is
  \<^term>\<open>Some y\<close> says that it does not. An error return is \<^term>\<open>Inl e\<close> of a sum type.
\<close>

unbundle bit_operations_syntax

section \<open>Machine types\<close>

type_synonym u8 = "8 word"
type_synonym u16 = "16 word"
type_synonym u32 = "32 word"
type_synonym u64 = "64 word"
type_synonym byte = "8 word"
type_synonym bytes = "8 word list"

named_theorems buf_simps \<open>rewriting with slices, buffers and byte order\<close>

section \<open>Slices and buffers\<close>

text \<open>
  \<open>slice b i j\<close> is the Go expression \<^verbatim>\<open>b[i:j]\<close>. It panics when the bounds are out of
  order or beyond the length. (Go compares with the capacity, which is never smaller than
  the length, so a slice that does not panic here does not panic in Go.)
\<close>

definition slice :: "'a list \<Rightarrow> nat \<Rightarrow> nat \<Rightarrow> 'a list option" where
  "slice b i j = (if i \<le> j \<and> j \<le> length b then Some (take (j - i) (drop i b)) else None)"

text \<open>\<open>at b i\<close> is \<^verbatim>\<open>b[i]\<close>.\<close>

definition at :: "'a list \<Rightarrow> nat \<Rightarrow> 'a option" where
  "at b i = (if i < length b then Some (b ! i) else None)"

text \<open>
  \<open>copy_into b i xs\<close> is \<^verbatim>\<open>copy(b[i:], xs)\<close>: it copies as many elements as fit, and it
  panics when \<^verbatim>\<open>i\<close> is beyond the buffer. \<open>store b i j xs\<close> writes \<open>xs\<close> through the slice
  \<^verbatim>\<open>b[i:j]\<close>, as the \<^verbatim>\<open>binary.BigEndian.PutUintN\<close> functions do.
\<close>

definition copy_into :: "'a list \<Rightarrow> nat \<Rightarrow> 'a list \<Rightarrow> 'a list option" where
  "copy_into b i xs =
     (if i \<le> length b
      then Some (take i b @ take (length b - i) xs @ drop (i + length xs) b)
      else None)"

definition store :: "'a list \<Rightarrow> nat \<Rightarrow> nat \<Rightarrow> 'a list \<Rightarrow> 'a list option" where
  "store b i j xs =
     (if i \<le> j \<and> j \<le> length b \<and> length xs \<le> j - i
      then Some (take i b @ xs @ drop (i + length xs) b)
      else None)"

lemma slice_append [buf_simps]:
  "length xs = i \<Longrightarrow> length ys = j - i \<Longrightarrow> i \<le> j \<Longrightarrow> slice (xs @ ys @ zs) i j = Some ys"
  by (simp add: slice_def)

lemma slice_Some: "slice b i j = Some s \<Longrightarrow> length s = j - i \<and> i \<le> j \<and> j \<le> length b"
  by (auto simp: slice_def split: if_splits)

lemma slice_total: "i \<le> j \<Longrightarrow> j \<le> length b \<Longrightarrow> slice b i j = Some (take (j - i) (drop i b))"
  by (simp add: slice_def)

lemma copy_into_append [buf_simps]:
  "length xs = i \<Longrightarrow> length ys = length vs \<Longrightarrow> copy_into (xs @ ys @ zs) i vs = Some (xs @ vs @ zs)"
  by (simp add: copy_into_def)

lemma store_append [buf_simps]:
  "length xs = i \<Longrightarrow> length ys = length vs \<Longrightarrow> j = i + length vs
    \<Longrightarrow> store (xs @ ys @ zs) i j vs = Some (xs @ vs @ zs)"
  by (simp add: store_def)

section \<open>Network byte order\<close>

text \<open>
  \<open>put_be n v\<close> are the \<open>n\<close> low bytes of \<open>v\<close>, the most significant first; \<open>get_be\<close> reads
  a byte string as a big-endian number. The functions of Go's \<^verbatim>\<open>binary.BigEndian\<close> are
  the instances below; the readers panic on a short slice.
\<close>

primrec put_be :: "nat \<Rightarrow> 'a::len word \<Rightarrow> bytes" where
  "put_be 0 v = []"
| "put_be (Suc n) v = put_be n (drop_bit 8 v) @ [ucast v]"

definition get_be :: "bytes \<Rightarrow> 'a::len word" where
  "get_be b = foldl (\<lambda>acc x. push_bit 8 acc OR ucast x) 0 b"

definition PutUint16 :: "u16 \<Rightarrow> bytes" where
  "PutUint16 v = put_be 2 v"

definition PutUint32 :: "u32 \<Rightarrow> bytes" where
  "PutUint32 v = put_be 4 v"

definition PutUint64 :: "u64 \<Rightarrow> bytes" where
  "PutUint64 v = put_be 8 v"

definition Uint16 :: "bytes \<Rightarrow> u16 option" where
  "Uint16 b = (if length b < 2 then None else Some (get_be (take 2 b)))"

definition Uint32 :: "bytes \<Rightarrow> u32 option" where
  "Uint32 b = (if length b < 4 then None else Some (get_be (take 4 b)))"

definition Uint64 :: "bytes \<Rightarrow> u64 option" where
  "Uint64 b = (if length b < 8 then None else Some (get_be (take 8 b)))"

lemma length_put_be [simp]: "length (put_be n v) = n"
  by (induction n arbitrary: v) auto

lemma get_be_Nil [simp]: "get_be [] = 0"
  by (simp add: get_be_def)

lemma get_be_snoc: "get_be (b @ [x]) = push_bit 8 (get_be b) OR ucast x"
  by (simp add: get_be_def)

lemma get_be_put_be: "get_be (put_be n v) = take_bit (8 * n) (v :: 'a::len word)"
proof (induction n arbitrary: v)
  case 0
  then show ?case by simp
next
  case (Suc n)
  show ?case
    by (rule bit_word_eqI) (auto simp: Suc.IH get_be_snoc bit_simps)
qed

lemma bit_get_be_bound: "bit (get_be b :: 'a::len word) k \<Longrightarrow> k < 8 * length b"
proof (induction b arbitrary: k rule: rev_induct)
  case Nil
  then show ?case by simp
next
  case (snoc x b)
  show ?case
  proof (cases "k < 8")
    case False
    with snoc.prems have "bit (get_be b :: 'a word) (k - 8)"
      by (auto simp: get_be_snoc bit_simps dest: bit_imp_le_length)
    with snoc.IH have "k - 8 < 8 * length b" .
    then show ?thesis by simp
  qed simp
qed

lemma put_be_get_be:
  "8 * length b \<le> LENGTH('a) \<Longrightarrow> put_be (length b) (get_be b :: 'a::len word) = b"
proof (induction b rule: rev_induct)
  case Nil
  then show ?case by simp
next
  case (snoc x b)
  let ?v = "get_be b :: 'a word"
  have high: "drop_bit 8 (get_be (b @ [x])) = ?v"
  proof (rule bit_word_eqI)
    fix k
    assume "k < LENGTH('a)"
    then show "bit (drop_bit 8 (get_be (b @ [x])) :: 'a word) k \<longleftrightarrow> bit ?v k"
      using snoc.prems bit_get_be_bound [of b k, where 'a = 'a]
      by (auto simp: get_be_snoc bit_simps dest: bit_imp_le_length)
  qed
  have low: "ucast (get_be (b @ [x]) :: 'a word) = x"
    using snoc.prems by (intro bit_word_eqI) (auto simp: get_be_snoc bit_simps)
  from snoc.prems have "put_be (length b) ?v = b"
    by (intro snoc.IH) simp
  with high low show ?case by simp
qed

lemma length_Put [simp]:
  "length (PutUint16 v) = 2" "length (PutUint32 w) = 4" "length (PutUint64 x) = 8"
  by (simp_all add: PutUint16_def PutUint32_def PutUint64_def)

lemma Uint16_Put [simp]: "Uint16 (PutUint16 v) = Some v"
  by (simp add: Uint16_def PutUint16_def get_be_put_be take_bit_word_eq_self)

lemma Uint32_Put [simp]: "Uint32 (PutUint32 v) = Some v"
  by (simp add: Uint32_def PutUint32_def get_be_put_be take_bit_word_eq_self)

lemma Uint64_Put [simp]: "Uint64 (PutUint64 v) = Some v"
  by (simp add: Uint64_def PutUint64_def get_be_put_be take_bit_word_eq_self)

lemma Put_Uint16: "length b = 2 \<Longrightarrow> Uint16 b = Some v \<Longrightarrow> PutUint16 v = b"
  using put_be_get_be [of b, where 'a = 16] by (simp add: Uint16_def PutUint16_def)

lemma Put_Uint32: "length b = 4 \<Longrightarrow> Uint32 b = Some v \<Longrightarrow> PutUint32 v = b"
  using put_be_get_be [of b, where 'a = 32] by (simp add: Uint32_def PutUint32_def)

lemma Put_Uint64: "length b = 8 \<Longrightarrow> Uint64 b = Some v \<Longrightarrow> PutUint64 v = b"
  using put_be_get_be [of b, where 'a = 64] by (simp add: Uint64_def PutUint64_def)

lemma Uint16_total: "2 \<le> length b \<Longrightarrow> \<exists>v. Uint16 b = Some v"
  by (simp add: Uint16_def)

lemma Uint32_total: "4 \<le> length b \<Longrightarrow> \<exists>v. Uint32 b = Some v"
  by (simp add: Uint32_def)

lemma Uint64_total: "8 \<le> length b \<Longrightarrow> \<exists>v. Uint64 b = Some v"
  by (simp add: Uint64_def)

lemma Uint64_8: "length raw = 8 \<Longrightarrow> \<exists>t. Uint64 raw = Some t"
  using Uint64_total [of raw] by simp

end
