(* ===== verification/GoStd.thy ===== *)
theory GoStd
  imports Prelude
begin

text \<open>
  What the sources use of the Go language and its standard library: strings as byte
  sequences (packages \<^verbatim>\<open>strings\<close> and \<^verbatim>\<open>unicode/utf8\<close>), instants and durations
  (package \<^verbatim>\<open>time\<close>), maps, buffered channels and readers.
\<close>

section \<open>Strings\<close>

text \<open>
  A Go string is a byte sequence, and so is a HOL \<open>string\<close> (a \<open>char\<close> is one of 256
  values). The conversions \<^verbatim>\<open>[]byte(s)\<close> and \<^verbatim>\<open>string(b)\<close> are inverse to each other.
\<close>

definition bytes_of :: "string \<Rightarrow> bytes" where
  "bytes_of s = map (\<lambda>c. word_of_nat (of_char c)) s"

definition string_of :: "bytes \<Rightarrow> string" where
  "string_of b = map (\<lambda>w. char_of (unat w)) b"

lemma length_bytes_of [simp]: "length (bytes_of s) = length s"
  by (simp add: bytes_of_def)

lemma length_string_of [simp]: "length (string_of b) = length b"
  by (simp add: string_of_def)

lemma string_of_eq_Nil [simp]: "string_of b = [] \<longleftrightarrow> b = []"
  by (simp add: string_of_def)

lemma bytes_of_append [simp]: "bytes_of (s @ t) = bytes_of s @ bytes_of t"
  by (simp add: bytes_of_def)

lemma of_char_less_256: "(of_char c :: nat) < 256"
  using of_char_mod_256 [of c] by (metis mod_less_divisor zero_less_numeral)

lemma unat_byte_of_char: "unat (word_of_nat (of_char c) :: byte) = of_char c"
  by (simp add: unat_of_nat of_char_less_256)

lemma string_of_bytes_of [simp]: "string_of (bytes_of s) = s"
  by (simp add: string_of_def bytes_of_def comp_def unat_byte_of_char)

lemma bytes_of_string_of [simp]: "bytes_of (string_of b) = b"
proof -
  have "word_of_nat (of_char (char_of (unat w) :: char)) = w" for w :: byte
    using unsigned_less [of w, where ?'a = nat] by (simp add: of_char_of)
  then show ?thesis by (simp add: string_of_def bytes_of_def comp_def)
qed

text \<open>
  \<^verbatim>\<open>utf8.Valid\<close>: the byte sequence is a concatenation of well-formed UTF-8 encodings
  (no overlong forms, no surrogates, nothing above U+10FFFF).
\<close>

definition cont_byte :: "byte \<Rightarrow> bool" where
  "cont_byte b \<longleftrightarrow> 0x80 \<le> b \<and> b \<le> 0xBF"

fun utf8_valid :: "bytes \<Rightarrow> bool" where
  "utf8_valid [] = True"
| "utf8_valid (a # r) =
     (if a < 0x80 then utf8_valid r
      else if a < 0xC2 then False
      else if a < 0xE0 then
        (case r of b # r' \<Rightarrow> cont_byte b \<and> utf8_valid r' | [] \<Rightarrow> False)
      else if a < 0xF0 then
        (case r of b # c # r' \<Rightarrow>
           (if a = 0xE0 then 0xA0 \<le> b \<and> b \<le> 0xBF
            else if a = 0xED then 0x80 \<le> b \<and> b \<le> 0x9F
            else cont_byte b) \<and> cont_byte c \<and> utf8_valid r'
         | _ \<Rightarrow> False)
      else if a < 0xF5 then
        (case r of b # c # d # r' \<Rightarrow>
           (if a = 0xF0 then 0x90 \<le> b \<and> b \<le> 0xBF
            else if a = 0xF4 then 0x80 \<le> b \<and> b \<le> 0x8F
            else cont_byte b) \<and> cont_byte c \<and> cont_byte d \<and> utf8_valid r'
         | _ \<Rightarrow> False)
      else False)"

text \<open>
  \<^verbatim>\<open>strings.ToUpper\<close> maps an ASCII string byte by byte. On a string with a byte
  above 0x7F it applies the Unicode case tables rune by rune; those tables are data of the
  Go distribution, so that branch is the argument \<open>uni\<close> of the model. Nothing is assumed of
  it.
\<close>

definition ascii_upper :: "char \<Rightarrow> char" where
  "ascii_upper c = (if 97 \<le> (of_char c :: nat) \<and> (of_char c :: nat) \<le> 122
                    then char_of ((of_char c :: nat) - 32) else c)"

definition is_ascii :: "string \<Rightarrow> bool" where
  "is_ascii s = list_all (\<lambda>c. (of_char c :: nat) < 128) s"

definition ToUpper :: "(string \<Rightarrow> string) \<Rightarrow> string \<Rightarrow> string" where
  "ToUpper uni s = (if is_ascii s then map ascii_upper s else uni s)"

text \<open>
  \<^verbatim>\<open>strings.TrimSpace\<close> removes leading and trailing white space as \<^verbatim>\<open>unicode.IsSpace\<close>
  defines it. The encodings of the white-space runes are listed in \<open>space_runes\<close>.
\<close>

definition space_runes :: "nat list list" where
  "space_runes = map (\<lambda>b. [b]) [9, 10, 11, 12, 13, 32] @
     [[0xC2, 0x85], [0xC2, 0xA0], [0xE1, 0x9A, 0x80]] @
     map (\<lambda>b. [0xE2, 0x80, b]) ([0x80..<0x8B] @ [0xA8, 0xA9, 0xAF]) @
     [[0xE2, 0x81, 0x9F], [0xE3, 0x80, 0x80]]"

definition space_prefix :: "nat list \<Rightarrow> nat option" where
  "space_prefix s = map_option length (find (\<lambda>r. take (length r) s = r) space_runes)"

definition space_suffix :: "nat list \<Rightarrow> nat option" where
  "space_suffix s = map_option length (find (\<lambda>r. take (length r) s = rev r) space_runes)"

fun trim_with :: "(nat list \<Rightarrow> nat option) \<Rightarrow> nat \<Rightarrow> nat list \<Rightarrow> nat list" where
  "trim_with f 0 s = s"
| "trim_with f (Suc n) s = (case f s of None \<Rightarrow> s | Some k \<Rightarrow> trim_with f n (drop k s))"

definition TrimSpace :: "string \<Rightarrow> string" where
  "TrimSpace s =
     (let c = map of_char s;
          l = trim_with space_prefix (length c) c;
          r = rev (trim_with space_suffix (length l) (rev l))
      in map char_of r)"

lemma space_prefix_ascii:
  "a < 128 \<Longrightarrow> a \<noteq> 32 \<Longrightarrow> a \<notin> {9..13} \<Longrightarrow> space_prefix (a # s) = None"
  by (auto simp: space_prefix_def find_None_iff space_runes_def upt_rec)

lemma space_suffix_ascii:
  "a < 128 \<Longrightarrow> a \<noteq> 32 \<Longrightarrow> a \<notin> {9..13} \<Longrightarrow> space_suffix (a # s) = None"
  by (auto simp: space_suffix_def find_None_iff space_runes_def upt_rec)

lemma space_suffix_space: "space_suffix (32 # s) = Some 1"
  by (simp add: space_suffix_def space_runes_def)

lemma trim_with_spaces:
  "k \<le> n \<Longrightarrow> trim_with space_suffix n (replicate k 32 @ s) = trim_with space_suffix (n - k) s"
proof (induction k arbitrary: n)
  case 0
  then show ?case by simp
next
  case (Suc k)
  then show ?case by (cases n) (auto simp: space_suffix_space)
qed

text \<open>A left-aligned ASCII text without white space is what trimming its padding returns.\<close>

lemma TrimSpace_padded:
  assumes "s \<noteq> []"
    and "\<And>c. c \<in> set s \<Longrightarrow> (of_char c :: nat) < 128 \<and> of_char c \<noteq> (32::nat) \<and> of_char c \<notin> {9..13::nat}"
  shows "TrimSpace (s @ replicate k CHR '' '') = s"
proof -
  let ?c = "map of_char s :: nat list"
  from assms(1) obtain a t where s: "s = a # t" by (cases s) auto
  have front: "trim_with space_prefix m (?c @ r) = ?c @ r" for m r
    using assms(2) [of a] by (cases m) (simp_all add: s space_prefix_ascii)
  from assms(1) obtain b u where rs: "rev s = b # u" by (cases "rev s") auto
  then have "b \<in> set s" by (metis list.set_intros(1) set_rev)
  then have rear: "trim_with space_suffix m (rev ?c) = rev ?c" for m
    using assms(2) [of b] by (cases m) (simp_all add: rev_map rs space_suffix_ascii)
  have "trim_with space_suffix (length s + k) (replicate k 32 @ rev ?c) = rev ?c"
    using trim_with_spaces [of k "length s + k"] rear by simp
  then show ?thesis
    by (simp add: TrimSpace_def Let_def front comp_def)
qed

text \<open>\<^verbatim>\<open>fmt.Sprintf("%d", n)\<close> of an unsigned number.\<close>

fun decimal :: "nat \<Rightarrow> string" where
  "decimal n = (if n < 10 then [char_of (48 + n)] else decimal (n div 10) @ [char_of (48 + n mod 10)])"

declare decimal.simps [simp del]

text \<open>\<^verbatim>\<open>strings.HasPrefix\<close>, and the position of a byte in a string.\<close>

definition HasPrefix :: "string \<Rightarrow> string \<Rightarrow> bool" where
  "HasPrefix s p = (take (length p) s = p)"

definition has_char :: "string \<Rightarrow> char \<Rightarrow> bool" where
  "has_char s c = (c \<in> set s)"

text \<open>
  \<^verbatim>\<open>net.SplitHostPort\<close>, with \<^term>\<open>None\<close> for each of its errors, and \<^verbatim>\<open>net.JoinHostPort\<close>.
\<close>

definition before_last :: "char \<Rightarrow> string \<Rightarrow> string" where
  "before_last c s = rev (drop 1 (dropWhile (\<lambda>x. x \<noteq> c) (rev s)))"

definition SplitHostPort :: "string \<Rightarrow> (string \<times> string) option" where
  "SplitHostPort s =
     (if \<not> has_char s (CHR '':'') then None
      else let host = before_last (CHR '':'') s; port = drop (length host + 1) s in
        if hd s = CHR ''['' then
          (if \<not> has_char s (CHR '']'') then None
           else let inner = takeWhile (\<lambda>x. x \<noteq> CHR '']'') s in
             if length inner + 1 \<noteq> length host \<or> has_char (drop 1 s) (CHR ''['') \<or>
                has_char (drop (length inner + 1) s) (CHR '']'')
             then None else Some (drop 1 inner, port))
        else if has_char host (CHR '':'') \<or> has_char s (CHR ''['') \<or> has_char s (CHR '']'') then None
        else Some (host, port))"

definition JoinHostPort :: "string \<Rightarrow> string \<Rightarrow> string" where
  "JoinHostPort host port = (if has_char host (CHR '':'') then ''['' @ host @ '']:'' @ port else host @ '':'' @ port)"

section \<open>Instants and durations\<close>

text \<open>
  An instant (\<^verbatim>\<open>time.Time\<close>) is an \<open>int\<close> of nanoseconds since Go's zero instant, so
  \<^verbatim>\<open>IsZero\<close> is equality with 0. A \<^verbatim>\<open>time.Duration\<close> is a signed 64-bit count of
  nanoseconds: \<^verbatim>\<open>Sub\<close> saturates at its bounds, and duration arithmetic wraps.
\<close>

type_synonym time = int
type_synonym duration = int

definition max_duration :: duration where
  "max_duration = 2 ^ 63 - 1"

definition min_duration :: duration where
  "min_duration = - (2 ^ 63)"

definition wrap64 :: "int \<Rightarrow> int" where
  "wrap64 x = (x + 2 ^ 63) mod 2 ^ 64 - 2 ^ 63"

definition Sub :: "time \<Rightarrow> time \<Rightarrow> duration" where
  "Sub t u = max min_duration (min max_duration (t - u))"

definition IsZero :: "time \<Rightarrow> bool" where
  "IsZero t \<longleftrightarrow> t = 0"

definition Millisecond :: duration where
  "Millisecond = 1000000"

definition Second :: duration where
  "Second = 1000000000"

lemma Sub_gt_iff: "d < max_duration \<Longrightarrow> min_duration \<le> d \<Longrightarrow> Sub t u > d \<longleftrightarrow> t - u > d"
  by (auto simp: Sub_def max_duration_def min_duration_def)

lemma Sub_nonneg: "u \<le> t \<Longrightarrow> 0 \<le> Sub t u"
  by (auto simp: Sub_def max_duration_def min_duration_def)

lemma Sub_le_max: "Sub t u \<le> max_duration"
  by (auto simp: Sub_def max_duration_def min_duration_def)

lemma wrap64_id: "min_duration \<le> x \<Longrightarrow> x \<le> max_duration \<Longrightarrow> wrap64 x = x"
  by (simp add: wrap64_def min_duration_def max_duration_def)

section \<open>Maps\<close>

text \<open>
  A Go map is an association list with distinct keys, so that its length and the iteration
  with \<^verbatim>\<open>range\<close> are computable: \<^verbatim>\<open>m[k]\<close> is \<^term>\<open>map_of m k\<close>, \<^verbatim>\<open>m[k] = v\<close> is
  \<^term>\<open>AList.update k v m\<close>, \<^verbatim>\<open>delete(m, k)\<close> is \<^term>\<open>AList.delete k m\<close> and
  \<^verbatim>\<open>len(m)\<close> is \<^term>\<open>length m\<close>. Go leaves the order of an iteration open; here it is the
  order of the list, and the theorems hold for every list, hence for every order.
\<close>

type_synonym ('k, 'v) gomap = "('k \<times> 'v) list"

definition wf_map :: "('k, 'v) gomap \<Rightarrow> bool" where
  "wf_map m = distinct (map fst m)"

named_theorems map_simps \<open>lookups, sizes and well-formedness of maps\<close>

lemma wf_map_Nil [simp]: "wf_map []"
  by (simp add: wf_map_def)

lemma wf_map_update [simp, intro]: "wf_map m \<Longrightarrow> wf_map (AList.update k v m)"
  by (simp add: wf_map_def distinct_update)

lemma wf_map_delete [simp, intro]: "wf_map m \<Longrightarrow> wf_map (AList.delete k m)"
  by (simp add: wf_map_def distinct_delete)

lemma wf_map_filter [simp, intro]: "wf_map m \<Longrightarrow> wf_map (filter P m)"
  by (simp add: wf_map_def distinct_map_filter)

lemma map_of_update [map_simps]: "map_of (AList.update k v m) k' = (if k' = k then Some v else map_of m k')"
  by (simp add: update_conv)

lemma map_of_delete [map_simps]: "map_of (AList.delete k m) k' = (if k' = k then None else map_of m k')"
  by (simp add: delete_conv)

lemma length_update [map_simps]:
  "length (AList.update k v m) = (if map_of m k = None then Suc (length m) else length m)"
  by (induction m) (auto split: if_splits)

lemma map_of_filter_wf:
  "wf_map m \<Longrightarrow> map_of (filter (\<lambda>(k, v). P k v) m) k
     = (case map_of m k of None \<Rightarrow> None | Some v \<Rightarrow> if P k v then Some v else None)"
proof (induction m)
  case Nil
  then show ?case by simp
next
  case (Cons kv m)
  obtain k' v' where kv: "kv = (k', v')" by force
  with Cons.prems have wf: "wf_map m" and nin: "map_of m k' = None"
    by (auto simp: wf_map_def map_of_eq_None_iff)
  with Cons.IH kv show ?case by (auto split: option.splits)
qed

lemma set_wf_map: "wf_map m \<Longrightarrow> (k, v) \<in> set m \<longleftrightarrow> map_of m k = Some v"
  by (simp add: wf_map_def)

text \<open>
  \<^verbatim>\<open>for k, v := range m { body }\<close> where the body may delete entries of the map it iterates,
  which is part of the state \<open>s\<close>: a key that is gone when its turn comes is skipped. Go may
  or may not visit entries that the body adds; this loop does not. \<^term>\<open>None\<close> is a panic of the
  body.
\<close>

fun range_loop :: "('s \<Rightarrow> ('k, 'v) gomap) \<Rightarrow> ('k \<Rightarrow> 'v \<Rightarrow> 's \<Rightarrow> 's option) \<Rightarrow> 'k list \<Rightarrow> 's \<Rightarrow> 's option" where
  "range_loop m body [] s = Some s"
| "range_loop m body (k # ks) s = do {
     s \<leftarrow> (case map_of (m s) k of None \<Rightarrow> Some s | Some v \<Rightarrow> body k v s);
     range_loop m body ks s
   }"

text \<open>
  The rule for such a loop: a body that returns and keeps \<open>P\<close> makes a loop that returns and
  keeps \<open>P\<close>.
\<close>

lemma range_loop_keeps:
  assumes "\<And>k v s. P s \<Longrightarrow> map_of (m s) k = Some v \<Longrightarrow> \<exists>s'. body k v s = Some s' \<and> P s'"
  shows "P s \<Longrightarrow> \<exists>s'. range_loop m body ks s = Some s' \<and> P s'"
proof (induction ks arbitrary: s)
  case Nil
  then show ?case by simp
next
  case (Cons k ks)
  show ?case
  proof (cases "map_of (m s) k")
    case None
    with Cons show ?thesis by simp
  next
    case (Some v)
    with assms [OF Cons.prems Some] Cons.IH show ?thesis by auto
  qed
qed

section \<open>Buffered channels\<close>

text \<open>
  A buffered channel is its capacity and its queued items, the oldest first. The sources
  send with \<^verbatim>\<open>select { case c <- x: ... default: ... }\<close>, which never blocks: \<open>try_send\<close> says
  whether the item entered the channel. \<open>try_recv\<close> is the receiving counterpart.
\<close>

record 'a chan =
  ch_cap :: nat
  ch_items :: "'a list"

definition make_chan :: "nat \<Rightarrow> 'a chan" where
  "make_chan n = \<lparr>ch_cap = n, ch_items = []\<rparr>"

definition try_send :: "'a chan \<Rightarrow> 'a \<Rightarrow> bool \<times> 'a chan" where
  "try_send c x =
     (if length (ch_items c) < ch_cap c then (True, c\<lparr>ch_items := ch_items c @ [x]\<rparr>) else (False, c))"

definition try_recv :: "'a chan \<Rightarrow> ('a \<times> 'a chan) option" where
  "try_recv c = (case ch_items c of [] \<Rightarrow> None | x # xs \<Rightarrow> Some (x, c\<lparr>ch_items := xs\<rparr>))"

definition wf_chan :: "'a chan \<Rightarrow> bool" where
  "wf_chan c \<longleftrightarrow> length (ch_items c) \<le> ch_cap c"

text \<open>
  What a component may rely on in a bounded queue, whatever its representation: a send into
  a queue with room appends, a send into a full one is refused and changes nothing, and a
  receive takes the oldest item. That accepted items come out once and in order, for any
  interleaving of senders and receivers, follows for every such queue.
\<close>

locale bounded_queue =
  fixes items :: "'q \<Rightarrow> 'a list"
    and cap :: "'q \<Rightarrow> nat"
    and send :: "'q \<Rightarrow> 'a \<Rightarrow> bool \<times> 'q"
    and recv :: "'q \<Rightarrow> ('a \<times> 'q) option"
  assumes send_accepts: "fst (send q x) \<longleftrightarrow> length (items q) < cap q"
    and send_items: "items (snd (send q x)) = (if length (items q) < cap q then items q @ [x] else items q)"
    and send_cap: "cap (snd (send q x)) = cap q"
    and recv_empty: "recv q = None \<longleftrightarrow> items q = []"
    and recv_items: "recv q = Some (x, q') \<Longrightarrow> items q = x # items q'"
    and recv_cap: "recv q = Some (x, q') \<Longrightarrow> cap q' = cap q"
begin

lemma recv_bound: "length (items q) \<le> cap q \<Longrightarrow> recv q = Some (x, q') \<Longrightarrow> length (items q') \<le> cap q'"
  using recv_items [of q x q'] recv_cap [of q x q'] by simp

text \<open>One use of the queue: a send (\<^term>\<open>Some x\<close>) or a receive (\<^term>\<open>None\<close>); the log is what was
  accepted and what was received.\<close>

fun use :: "'q \<times> 'a list \<times> 'a list \<Rightarrow> 'a option \<Rightarrow> 'q \<times> 'a list \<times> 'a list" where
  "use (q, ins, outs) (Some x) = (let (b, q') = send q x in (q', if b then ins @ [x] else ins, outs))"
| "use (q, ins, outs) None = (case recv q of None \<Rightarrow> (q, ins, outs) | Some (x, q') \<Rightarrow> (q', ins, outs @ [x]))"

fun fifo :: "'q \<times> 'a list \<times> 'a list \<Rightarrow> bool" where
  "fifo (q, ins, outs) \<longleftrightarrow> ins = outs @ items q \<and> length (items q) \<le> cap q"

lemma fifo_use: "fifo s \<Longrightarrow> fifo (use s e)"
proof (cases s)
  case (fields q ins outs)
  assume "fifo s"
  then show ?thesis
  proof (cases e)
    case None
    with \<open>fifo s\<close> fields show ?thesis
      by (auto simp: recv_empty dest: recv_items recv_bound split: option.splits)
  next
    case (Some x)
    with \<open>fifo s\<close> fields send_accepts [of q x] send_items [of q x] send_cap [of q x] show ?thesis
      by (auto split: prod.splits)
  qed
qed

lemma fifo_foldl: "fifo s \<Longrightarrow> fifo (foldl use s es)"
  by (induction es arbitrary: s) (simp_all add: fifo_use)

end

interpretation channel: bounded_queue ch_items ch_cap try_send try_recv
  by unfold_locales (auto simp: try_send_def try_recv_def split: list.splits)

lemma wf_chan_send [simp]: "wf_chan c \<Longrightarrow> wf_chan (snd (try_send c x))"
  by (simp add: wf_chan_def channel.send_items channel.send_cap)

lemma wf_chan_recv: "wf_chan c \<Longrightarrow> try_recv c = Some (x, c') \<Longrightarrow> wf_chan c'"
  unfolding wf_chan_def by (rule channel.recv_bound)

section \<open>Readers\<close>

text \<open>
  An \<^verbatim>\<open>io.Reader\<close> is the list of bytes that it still delivers before it reports the end
  of its input. \<^verbatim>\<open>io.ReadFull\<close> of a buffer of \<open>n\<close> bytes returns the number of bytes read
  and, when there were fewer than \<open>n\<close>, an error.
\<close>

definition ReadFull :: "nat \<Rightarrow> bytes \<Rightarrow> (nat + bytes) \<times> bytes" where
  "ReadFull n src = (if length src < n then (Inl (length src), []) else (Inr (take n src), drop n src))"

lemma ReadFull_append: "length b = n \<Longrightarrow> ReadFull n (b @ rest) = (Inr b, rest)"
  by (simp add: ReadFull_def)

end
