(* ===== verification/Wire.thy ===== *)
theory Wire
  imports GoStd
begin

text \<open>
  The wire vocabulary of \<^verbatim>\<open>pkg/wire/wire.go\<close>: protocol constants, the base header and
  the extension types, and the packet types of \<^verbatim>\<open>pkg/wire/codec.go\<close>. Packet types,
  extension types, error codes and flags are the integers of the source at their width,
  because a datagram can hold any value there.
\<close>

section \<open>Constants\<close>

definition Magic :: bytes where
  "Magic = bytes_of ''OPRF''"

abbreviation (input) Version1 :: u8 where "Version1 \<equiv> 1"
abbreviation (input) BaseHeaderSize :: nat where "BaseHeaderSize \<equiv> 32"
abbreviation (input) MaxDatagramSize :: nat where "MaxDatagramSize \<equiv> 1200"
abbreviation (input) CallsignSize :: nat where "CallsignSize \<equiv> 10"

abbreviation (input) FlagResponse :: u16 where "FlagResponse \<equiv> 1"
abbreviation (input) FlagRetry :: u16 where "FlagRetry \<equiv> 2"
abbreviation (input) FlagReservedMask :: u16 where "FlagReservedMask \<equiv> 0xfffc"

type_synonym PacketType = u8

abbreviation (input) PacketHello :: PacketType where "PacketHello \<equiv> 0x01"
abbreviation (input) PacketChallenge :: PacketType where "PacketChallenge \<equiv> 0x02"
abbreviation (input) PacketAuthenticate :: PacketType where "PacketAuthenticate \<equiv> 0x03"
abbreviation (input) PacketWelcome :: PacketType where "PacketWelcome \<equiv> 0x04"
abbreviation (input) PacketKeepalive :: PacketType where "PacketKeepalive \<equiv> 0x05"
abbreviation (input) PacketDisconnect :: PacketType where "PacketDisconnect \<equiv> 0x06"
abbreviation (input) PacketError :: PacketType where "PacketError \<equiv> 0x07"
abbreviation (input) PacketStreamRequest :: PacketType where "PacketStreamRequest \<equiv> 0x20"
abbreviation (input) PacketStreamGrant :: PacketType where "PacketStreamGrant \<equiv> 0x21"
abbreviation (input) PacketStreamBusy :: PacketType where "PacketStreamBusy \<equiv> 0x22"
abbreviation (input) PacketStreamStart :: PacketType where "PacketStreamStart \<equiv> 0x23"
abbreviation (input) PacketStreamEnd :: PacketType where "PacketStreamEnd \<equiv> 0x24"
abbreviation (input) PacketStreamRevoke :: PacketType where "PacketStreamRevoke \<equiv> 0x25"
abbreviation (input) PacketAudio :: PacketType where "PacketAudio \<equiv> 0x40"
abbreviation (input) PacketData :: PacketType where "PacketData \<equiv> 0x41"

type_synonym TLVType = u16

abbreviation (input) TLVCriticalMask :: TLVType where "TLVCriticalMask \<equiv> 0x8000"
abbreviation (input) TLVTransactionID :: TLVType where "TLVTransactionID \<equiv> 1"
abbreviation (input) TLVNodeCallsign :: TLVType where "TLVNodeCallsign \<equiv> 2"
abbreviation (input) TLVSourceCallsign :: TLVType where "TLVSourceCallsign \<equiv> 3"
abbreviation (input) TLVReflectorID :: TLVType where "TLVReflectorID \<equiv> 4"
abbreviation (input) TLVDisplayName :: TLVType where "TLVDisplayName \<equiv> 5"
abbreviation (input) TLVClientNonce :: TLVType where "TLVClientNonce \<equiv> 6"
abbreviation (input) TLVServerNonce :: TLVType where "TLVServerNonce \<equiv> 7"
abbreviation (input) TLVAuthenticationTag :: TLVType where "TLVAuthenticationTag \<equiv> 8"
abbreviation (input) TLVDataType :: TLVType where "TLVDataType \<equiv> 9"
abbreviation (input) TLVErrorCode :: TLVType where "TLVErrorCode \<equiv> 10"
abbreviation (input) TLVErrorText :: TLVType where "TLVErrorText \<equiv> 11"
abbreviation (input) TLVTransmitTimeLimit :: TLVType where "TLVTransmitTimeLimit \<equiv> 12"
abbreviation (input) TLVEndReason :: TLVType where "TLVEndReason \<equiv> 13"

abbreviation (input) ErrorMalformedPacket :: u16 where "ErrorMalformedPacket \<equiv> 1"
abbreviation (input) ErrorUnsupportedVersion :: u16 where "ErrorUnsupportedVersion \<equiv> 2"
abbreviation (input) ErrorAuthenticationFailed :: u16 where "ErrorAuthenticationFailed \<equiv> 3"
abbreviation (input) ErrorInvalidSession :: u16 where "ErrorInvalidSession \<equiv> 4"
abbreviation (input) ErrorInvalidStream :: u16 where "ErrorInvalidStream \<equiv> 5"
abbreviation (input) ErrorLimitExceeded :: u16 where "ErrorLimitExceeded \<equiv> 6"
abbreviation (input) ErrorUnsupportedType :: u16 where "ErrorUnsupportedType \<equiv> 7"
abbreviation (input) ErrorInternal :: u16 where "ErrorInternal \<equiv> 8"

abbreviation (input) EndReasonNormal :: u16 where "EndReasonNormal \<equiv> 0"
abbreviation (input) EndReasonOwnerDisconnect :: u16 where "EndReasonOwnerDisconnect \<equiv> 1"
abbreviation (input) EndReasonGrantTimeout :: u16 where "EndReasonGrantTimeout \<equiv> 2"
abbreviation (input) EndReasonMediaInactivity :: u16 where "EndReasonMediaInactivity \<equiv> 3"
abbreviation (input) EndReasonTransmitTimeLimit :: u16 where "EndReasonTransmitTimeLimit \<equiv> 4"
abbreviation (input) EndReasonServerShutdown :: u16 where "EndReasonServerShutdown \<equiv> 5"

section \<open>Packets\<close>

record Header =
  hVersion :: u8
  hType :: PacketType
  hFlags :: u16
  hHeaderLength :: u16
  hPayloadLength :: u16
  hSessionID :: u64
  hStreamID :: u32
  hSequence :: u32
  hTimestamp :: u32

record TLV =
  tType :: TLVType
  tValue :: bytes

record Packet =
  pHeader :: Header
  pExtensions :: "TLV list"
  pPayload :: bytes

text \<open>The zero value \<^verbatim>\<open>wire.Header{}\<close>; composite literals are updates of it.\<close>

definition zeroHeader :: Header where
  "zeroHeader = \<lparr>hVersion = 0, hType = 0, hFlags = 0, hHeaderLength = 0, hPayloadLength = 0,
     hSessionID = 0, hStreamID = 0, hSequence = 0, hTimestamp = 0\<rparr>"

definition zeroPacket :: Packet where
  "zeroPacket = \<lparr>pHeader = zeroHeader, pExtensions = [], pPayload = []\<rparr>"

text \<open>The type number of an extension without its critical bit, \<^verbatim>\<open>t &^ TLVCriticalMask\<close>.\<close>

definition baseTLV :: "TLVType \<Rightarrow> TLVType" where
  "baseTLV t = t AND NOT TLVCriticalMask"

definition tlv :: "TLVType \<Rightarrow> bytes \<Rightarrow> TLV" where
  "tlv t v = \<lparr>tType = t, tValue = v\<rparr>"

lemma tlv_sel [simp]: "tType (tlv t v) = t" "tValue (tlv t v) = v"
  by (simp_all add: tlv_def)

lemma tlv_eta [simp]: "tlv (tType t) (tValue t) = t"
  by (simp add: tlv_def)

lemma length_Magic [simp]: "length Magic = 4"
  by (simp add: Magic_def)

end
