(* ===== verification/Systems.thy ===== *)
theory Systems
  imports Prelude
begin

text \<open>
  The two contracts that every stateful component of the program is proved against.

  A component with a step function (one call of the source is one step) is an instance of
  \<open>machine\<close>: an invariant that holds at the start and that every step keeps. The locale
  gives runs, reachable states and the induction once. \<open>simulation\<close> extends it with an
  abstraction function into an abstract transition relation: what the component does is,
  seen through the abstraction, a run of the specification. \<open>framing\<close> is the contract of
  a self-delimiting encoding: reading back one written item returns the item and exactly
  the bytes that follow it, from which the round trip of whole streams follows.
\<close>

section \<open>Runs of a step function\<close>

fun run :: "('s \<Rightarrow> 'e \<Rightarrow> 's) \<Rightarrow> 's \<Rightarrow> 'e list \<Rightarrow> 's" where
  "run step s [] = s"
| "run step s (e # es) = run step (step s e) es"

lemma run_append: "run step s (es @ fs) = run step (run step s es) fs"
  by (induction es arbitrary: s) auto

locale machine =
  fixes init :: "'s \<Rightarrow> bool"
    and step :: "'s \<Rightarrow> 'e \<Rightarrow> 's"
    and inv :: "'s \<Rightarrow> bool"
  assumes inv_init: "init s \<Longrightarrow> inv s"
    and inv_step: "inv s \<Longrightarrow> inv (step s e)"
begin

lemma inv_run: "inv s \<Longrightarrow> inv (run step s es)"
  by (induction es arbitrary: s) (auto intro: inv_step)

lemma inv_reachable: "init s \<Longrightarrow> inv (run step s es)"
  by (rule inv_run) (rule inv_init)

text \<open>A predicate that no step falsifies under the invariant is stable along every run.\<close>

lemma stable_run:
  assumes "\<And>s e. inv s \<Longrightarrow> P s \<Longrightarrow> P (step s e)"
  shows "inv s \<Longrightarrow> P s \<Longrightarrow> P (run step s es)"
proof (induction es arbitrary: s)
  case Nil
  then show ?case by simp
next
  case (Cons e es)
  from Cons.prems have "inv (step s e)" and "P (step s e)"
    by (auto intro: inv_step assms)
  then show ?case by (simp add: Cons.IH)
qed

end

text \<open>
  The runs of an abstract specification, a relation labelled with the same events: the
  specification says which abstract states an event may lead to.
\<close>

inductive spec_run :: "('a \<Rightarrow> 'e \<Rightarrow> 'a \<Rightarrow> bool) \<Rightarrow> 'a \<Rightarrow> 'e list \<Rightarrow> 'a \<Rightarrow> bool"
  for spec_step :: "'a \<Rightarrow> 'e \<Rightarrow> 'a \<Rightarrow> bool" where
  spec_done: "spec_run spec_step a [] a"
| spec_next: "spec_step a e b \<Longrightarrow> spec_run spec_step b es c \<Longrightarrow> spec_run spec_step a (e # es) c"

inductive_cases spec_run_ConsE: "spec_run spec_step a (e # es) c"

locale simulation = machine +
  fixes abs :: "'s \<Rightarrow> 'a"
    and spec_step :: "'a \<Rightarrow> 'e \<Rightarrow> 'a \<Rightarrow> bool"
  assumes abs_step: "inv s \<Longrightarrow> spec_step (abs s) e (abs (step s e))"
begin

lemma abs_run: "inv s \<Longrightarrow> spec_run spec_step (abs s) es (abs (run step s es))"
  by (induction es arbitrary: s) (auto intro: spec_run.intros abs_step inv_step)

lemma abs_reachable: "init s \<Longrightarrow> spec_run spec_step (abs s) es (abs (run step s es))"
  by (blast intro: abs_run inv_init)

end

section \<open>Self-delimiting encodings\<close>

fun read_stream :: "nat \<Rightarrow> ('b list \<Rightarrow> ('x \<times> 'b list) option) \<Rightarrow> 'b list \<Rightarrow> 'x list \<times> 'b list" where
  "read_stream 0 rd s = ([], s)"
| "read_stream (Suc n) rd s =
     (case rd s of
        None \<Rightarrow> ([], s)
      | Some (x, s') \<Rightarrow> (let (xs, r) = read_stream n rd s' in (x # xs, r)))"

locale framing =
  fixes wr :: "'x \<Rightarrow> 'b list option"
    and rd :: "'b list \<Rightarrow> ('x \<times> 'b list) option"
  assumes rd_wr: "wr x = Some bs \<Longrightarrow> rd (bs @ rest) = Some (x, rest)"
    and rd_nonempty: "rd [] = None"
begin

lemma wr_nonempty: "wr x = Some bs \<Longrightarrow> bs \<noteq> []"
  using rd_wr [of x bs "[]"] rd_nonempty by auto

lemma wr_inj: "wr x = Some bs \<Longrightarrow> wr y = Some bs \<Longrightarrow> x = y"
  using rd_wr [of x bs "[]"] rd_wr [of y bs "[]"] by simp

text \<open>No encoding is a proper prefix of another, so a stream of items parses in one way.\<close>

lemma wr_prefix_free: "wr x = Some bs \<Longrightarrow> wr y = Some (bs @ cs) \<Longrightarrow> x = y \<and> cs = []"
  using rd_wr [of x bs cs] rd_wr [of y "bs @ cs" "[]"] by simp

lemma read_stream_concat:
  "map wr xs = map Some bss \<Longrightarrow> rd rest = None \<Longrightarrow> length xs \<le> n
    \<Longrightarrow> read_stream n rd (concat bss @ rest) = (xs, rest)"
proof (induction xs arbitrary: bss n)
  case Nil
  then show ?case by (cases n) auto
next
  case (Cons x xs)
  from Cons.prems(1) obtain b bs where b: "bss = b # bs" "wr x = Some b" "map wr xs = map Some bs"
    by auto
  from Cons.prems(3) obtain m where m: "n = Suc m" "length xs \<le> m"
    by (cases n) auto
  have "rd (b @ concat bs @ rest) = Some (x, concat bs @ rest)"
    using b(2) by (rule rd_wr)
  moreover have "read_stream m rd (concat bs @ rest) = (xs, rest)"
    using b(3) Cons.prems(2) m(2) by (rule Cons.IH)
  ultimately show ?case by (simp add: b(1) m(1))
qed

end

section \<open>Canonical codecs\<close>

text \<open>
  The contract of a codec without malleability: decoding inverts encoding up to the derived
  fields that encoding fills in (\<open>norm\<close>), and a datagram that decodes is the one encoding of
  what it decodes to. A client may then compare encodings instead of packets.
\<close>

locale canonical_codec =
  fixes enc :: "'p \<Rightarrow> 'd option"
    and dec :: "'d \<Rightarrow> 'p option"
    and norm :: "'p \<Rightarrow> 'p"
  assumes dec_enc: "enc p = Some d \<Longrightarrow> dec d = Some (norm p)"
    and enc_dec: "dec d = Some p \<Longrightarrow> enc p = Some d"
begin

lemma dec_inj: "dec d = Some p \<Longrightarrow> dec d' = Some p \<Longrightarrow> d = d'"
  using enc_dec [of d p] enc_dec [of d' p] by simp

lemma dec_normal: "dec d = Some p \<Longrightarrow> norm p = p"
  using enc_dec [of d p] dec_enc [of p d] by simp

lemma enc_norm: "enc p = Some d \<Longrightarrow> enc (norm p) = Some d"
  by (rule enc_dec) (rule dec_enc)

lemma enc_eq_iff: "enc p = Some d \<Longrightarrow> enc q = Some d' \<Longrightarrow> d = d' \<longleftrightarrow> norm p = norm q"
  using enc_norm [of p d] enc_norm [of q d'] dec_enc [of p d] dec_enc [of q d'] by auto

lemma dec_range: "(\<exists>p. dec d = Some p) \<longleftrightarrow> (\<exists>p. enc p = Some d)"
  using dec_enc enc_dec by blast

end

end
