(* ===== verification/Codec.thy ===== *)
theory Codec
  imports Wire Systems
begin

text \<open>
  \<^verbatim>\<open>pkg/wire/codec.go\<close>: the structural encoder and decoder of datagrams. The decoder is
  written over bounds-checked slices, so that "no input makes the parser panic" is a
  theorem about it; the encoder writes into a zeroed buffer as the source does, and is
  proved equal to the concatenation of the fields in wire order.
\<close>

section \<open>Errors\<close>

text \<open>The errors wrap \<^verbatim>\<open>ErrMalformedPacket\<close> with the text that the argument names.\<close>

datatype malformed =
    DatagramLength nat
  | BadMagic
  | BadHeaderLength nat
  | BadPayloadLength nat
  | ReservedFlags
  | IncompleteTLV
  | InvalidTLVLength
  | DuplicateTLV TLVType
  | UnknownCriticalTLV TLVType
  | NonzeroPadding
  | InvalidValue TLVType

datatype wire_error = ErrMalformedPacket malformed | ErrUnsupportedVersion

type_synonym 'a fallible = "(wire_error + 'a) option"

abbreviation ok :: "'a \<Rightarrow> 'a fallible" where
  "ok x \<equiv> Some (Inr x)"

abbreviation malformed :: "malformed \<Rightarrow> 'a fallible" where
  "malformed m \<equiv> Some (Inl (ErrMalformedPacket m))"

lemma bind_fallible_ok:
  "(m \<bind> (\<lambda>r. case r of Inl e \<Rightarrow> Some (Inl e) | Inr y \<Rightarrow> f y)) = ok x \<longleftrightarrow> (\<exists>y. m = ok y \<and> f y = ok x)"
proof (cases m)
  case (Some r)
  then show ?thesis by (cases r) auto
qed simp

section \<open>Extensions\<close>

definition alignedTLVSize :: "nat \<Rightarrow> nat" where
  "alignedTLVSize valueLength = nat (int (4 + valueLength + 3) AND NOT 3)"

definition knownTLV :: "TLVType \<Rightarrow> bool" where
  "knownTLV typeID \<longleftrightarrow> TLVTransactionID \<le> typeID \<and> typeID \<le> TLVEndReason"

definition identifier_char :: "byte \<Rightarrow> bool" where
  "identifier_char c \<longleftrightarrow> 0x41 \<le> c \<and> c \<le> 0x5A \<or> 0x30 \<le> c \<and> c \<le> 0x39 \<or> c = 0x2F \<or> c = 0x2D"

text \<open>
  The scanning loop of \<^verbatim>\<open>validPaddedIdentifier\<close>: \<^term>\<open>None\<close> is its early
  \<^verbatim>\<open>return false\<close>, otherwise the result is \<^verbatim>\<open>contentLength\<close> after the loop.
\<close>

fun scan_identifier :: "nat \<Rightarrow> nat \<Rightarrow> bytes \<Rightarrow> nat option" where
  "scan_identifier sz i [] = Some sz"
| "scan_identifier sz i (c # cs) =
     (if c = 0x20 then Some i
      else if \<not> identifier_char c then None
      else scan_identifier sz (Suc i) cs)"

definition validPaddedIdentifier :: "bytes \<Rightarrow> nat \<Rightarrow> bool" where
  "validPaddedIdentifier value sz =
     (if length value \<noteq> sz then False
      else case scan_identifier sz 0 value of
             None \<Rightarrow> False
           | Some contentLength \<Rightarrow>
               if contentLength = 0 then False
               else list_all (\<lambda>c. c = 0x20) (drop contentLength value))"

definition validateTLVValue :: "TLVType \<Rightarrow> bytes \<Rightarrow> unit fallible" where
  "validateTLVValue typeID value =
     (let invalid = malformed (InvalidValue typeID); n = length value in
      if typeID = TLVTransactionID then (if n \<noteq> 8 then invalid else ok ())
      else if typeID = TLVNodeCallsign \<or> typeID = TLVSourceCallsign then
        (if \<not> validPaddedIdentifier value CallsignSize then invalid else ok ())
      else if typeID = TLVReflectorID then
        (if \<not> validPaddedIdentifier value 16 then invalid else ok ())
      else if typeID = TLVDisplayName then
        (if n < 1 \<or> n > 64 \<or> \<not> utf8_valid value then invalid else ok ())
      else if typeID = TLVClientNonce \<or> typeID = TLVServerNonce \<or> typeID = TLVAuthenticationTag then
        (if n \<noteq> 32 then invalid else ok ())
      else if typeID = TLVDataType then
        (if n \<noteq> 2 then invalid
         else do { v \<leftarrow> Uint16 value; if v = 0 then invalid else ok () })
      else if typeID = TLVErrorCode then
        (if n \<noteq> 2 then invalid
         else do { code \<leftarrow> Uint16 value;
                   if code < ErrorMalformedPacket \<or> code > ErrorInternal then invalid else ok () })
      else if typeID = TLVErrorText then
        (if n < 1 \<or> n > 128 \<or> \<not> utf8_valid value then invalid else ok ())
      else if typeID = TLVTransmitTimeLimit then
        (if n \<noteq> 4 then invalid
         else do { v \<leftarrow> Uint32 value; if v = 0 then invalid else ok () })
      else if typeID = TLVEndReason then
        (if n \<noteq> 2 then invalid
         else do { v \<leftarrow> Uint16 value; if v > EndReasonServerShutdown then invalid else ok () })
      else ok ())"

text \<open>
  The loop of \<^verbatim>\<open>validateExtensions\<close>, with its local variables \<^verbatim>\<open>seen\<close> and \<^verbatim>\<open>total\<close> as
  arguments.
\<close>

fun validateExtensions_loop :: "TLVType list \<Rightarrow> nat \<Rightarrow> TLV list \<Rightarrow> nat fallible" where
  "validateExtensions_loop seen tot [] = ok tot"
| "validateExtensions_loop seen tot (extension # rest) =
     (let baseType = baseTLV (tType extension); value = tValue extension in
      if length value > 65535 then malformed InvalidTLVLength
      else if baseType \<in> set seen then malformed (DuplicateTLV (tType extension))
      else if tType extension AND TLVCriticalMask \<noteq> 0 \<and> \<not> knownTLV baseType
      then malformed (UnknownCriticalTLV (tType extension))
      else do {
        r \<leftarrow> validateTLVValue baseType value;
        case r of
          Inl e \<Rightarrow> Some (Inl e)
        | Inr _ \<Rightarrow> validateExtensions_loop (baseType # seen) (tot + alignedTLVSize (length value)) rest
      })"

definition validateExtensions :: "TLV list \<Rightarrow> nat fallible" where
  "validateExtensions extensions = validateExtensions_loop [] 0 extensions"

section \<open>Encoding\<close>

fun encodeTLVs :: "bytes \<Rightarrow> nat \<Rightarrow> TLV list \<Rightarrow> bytes option" where
  "encodeTLVs data offset [] = Some data"
| "encodeTLVs data offset (extension # rest) = do {
     data \<leftarrow> store data offset (offset + 2) (PutUint16 (tType extension));
     data \<leftarrow> store data (offset + 2) (offset + 4) (PutUint16 (word_of_nat (length (tValue extension))));
     data \<leftarrow> copy_into data (offset + 4) (tValue extension);
     encodeTLVs data (offset + alignedTLVSize (length (tValue extension))) rest
   }"

definition Encode :: "Packet \<Rightarrow> bytes fallible" where
  "Encode packet = do {
     r \<leftarrow> validateExtensions (pExtensions packet);
     case r of
       Inl e \<Rightarrow> Some (Inl e)
     | Inr extensionLength \<Rightarrow>
         let headerLength = BaseHeaderSize + extensionLength;
             totalLength = headerLength + length (pPayload packet);
             h = pHeader packet in
         if totalLength > MaxDatagramSize \<or> length (pPayload packet) > 65535
         then malformed (DatagramLength totalLength)
         else if hVersion h \<noteq> Version1 then Some (Inl ErrUnsupportedVersion)
         else if hFlags h AND FlagReservedMask \<noteq> 0 then malformed ReservedFlags
         else do {
           data \<leftarrow> store (replicate totalLength 0) 0 4 Magic;
           data \<leftarrow> store data 4 5 [hVersion h];
           data \<leftarrow> store data 5 6 [hType h];
           data \<leftarrow> store data 6 8 (PutUint16 (hFlags h));
           data \<leftarrow> store data 8 10 (PutUint16 (word_of_nat headerLength));
           data \<leftarrow> store data 10 12 (PutUint16 (word_of_nat (length (pPayload packet))));
           data \<leftarrow> store data 12 20 (PutUint64 (hSessionID h));
           data \<leftarrow> store data 20 24 (PutUint32 (hStreamID h));
           data \<leftarrow> store data 24 28 (PutUint32 (hSequence h));
           data \<leftarrow> store data 28 32 (PutUint32 (hTimestamp h));
           data \<leftarrow> encodeTLVs data BaseHeaderSize (pExtensions packet);
           data \<leftarrow> copy_into data headerLength (pPayload packet);
           ok data
         }
   }"

section \<open>Decoding\<close>

lemma alignedTLVSize_eq: "alignedTLVSize n = 4 * ((n + 7) div 4)"
proof -
  have "int m AND NOT 3 = int (4 * (m div 4))" for m
  proof -
    have le2: "2 \<le> k \<Longrightarrow> Suc (Suc (k - 2)) = k" for k :: nat
      by simp
    have "int m AND NOT 3 = int m AND NOT (mask 2)"
      by (simp add: mask_eq_exp_minus_1)
    also have "\<dots> = push_bit 2 (drop_bit 2 (int m))"
      by (rule bit_eqI) (auto simp: bit_simps le2 not_less)
    also have "\<dots> = int (4 * (m div 4))"
      by (simp add: push_bit_eq_mult drop_bit_eq_div zdiv_int)
    finally show ?thesis .
  qed
  then show ?thesis
    unfolding alignedTLVSize_def by (simp only: nat_int) (simp add: add.commute)
qed

lemma alignedTLVSize_pos [simp]: "0 < alignedTLVSize n"
  by (simp add: alignedTLVSize_eq)

lemma alignedTLVSize_bounds: "4 + n \<le> alignedTLVSize n" "alignedTLVSize n \<le> n + 7"
  by (simp_all add: alignedTLVSize_eq)

text \<open>The extension loop of \<^verbatim>\<open>Decode\<close>; it ends because every extension takes at least 4 bytes.\<close>

function decodeTLVs :: "bytes \<Rightarrow> nat \<Rightarrow> nat \<Rightarrow> TLVType list \<Rightarrow> TLV list \<Rightarrow> TLV list fallible" where
  "decodeTLVs data headerLength offset seen extensions =
     (if offset < headerLength then
        if headerLength - offset < 4 then malformed IncompleteTLV
        else do {
          tb \<leftarrow> slice data offset (offset + 2);
          typeID \<leftarrow> Uint16 tb;
          lb \<leftarrow> slice data (offset + 2) (offset + 4);
          vl \<leftarrow> Uint16 lb;
          let baseType = baseTLV typeID;
              valueLength = unat vl;
              tlvSize = alignedTLVSize valueLength in
          if tlvSize > headerLength - offset then malformed InvalidTLVLength
          else if baseType \<in> set seen then malformed (DuplicateTLV typeID)
          else if typeID AND TLVCriticalMask \<noteq> 0 \<and> \<not> knownTLV baseType
          then malformed (UnknownCriticalTLV typeID)
          else do {
            padding \<leftarrow> slice data (offset + 4 + valueLength) (offset + tlvSize);
            if \<not> list_all (\<lambda>x. x = 0) padding then malformed NonzeroPadding
            else do {
              value \<leftarrow> slice data (offset + 4) (offset + 4 + valueLength);
              r \<leftarrow> validateTLVValue baseType value;
              case r of
                Inl e \<Rightarrow> Some (Inl e)
              | Inr _ \<Rightarrow> decodeTLVs data headerLength (offset + tlvSize) (baseType # seen)
                           (extensions @ [tlv typeID value])
            }
          }
        }
      else ok extensions)"
  by pat_completeness auto
termination
  by (relation "measure (\<lambda>(data, headerLength, offset, seen, extensions). headerLength - offset)")
     (auto intro: diff_less_mono2)

declare decodeTLVs.simps [simp del]

definition Decode :: "bytes \<Rightarrow> Packet fallible" where
  "Decode data =
     (if length data < BaseHeaderSize \<or> length data > MaxDatagramSize
      then malformed (DatagramLength (length data))
      else do {
        magic \<leftarrow> slice data 0 4;
        if magic \<noteq> Magic then malformed BadMagic
        else do {
          version \<leftarrow> at data 4;
          if version \<noteq> Version1 then Some (Inl ErrUnsupportedVersion)
          else do {
            s \<leftarrow> slice data 8 10;   hl \<leftarrow> Uint16 s;
            s \<leftarrow> slice data 10 12;  pl \<leftarrow> Uint16 s;
            let headerLength = unat hl; payloadLength = unat pl in
            if headerLength < BaseHeaderSize \<or> headerLength mod 4 \<noteq> 0 \<or> headerLength > length data
            then malformed (BadHeaderLength headerLength)
            else if headerLength + payloadLength \<noteq> length data
            then malformed (BadPayloadLength payloadLength)
            else do {
              s \<leftarrow> slice data 6 8;  flags \<leftarrow> Uint16 s;
              if flags AND FlagReservedMask \<noteq> 0 then malformed ReservedFlags
              else do {
                typ \<leftarrow> at data 5;
                s \<leftarrow> slice data 12 20;  session \<leftarrow> Uint64 s;
                s \<leftarrow> slice data 20 24;  stream \<leftarrow> Uint32 s;
                s \<leftarrow> slice data 24 28;  sequence \<leftarrow> Uint32 s;
                s \<leftarrow> slice data 28 32;  timestamp \<leftarrow> Uint32 s;
                let header = \<lparr>hVersion = version, hType = typ, hFlags = flags,
                      hHeaderLength = word_of_nat headerLength,
                      hPayloadLength = word_of_nat payloadLength,
                      hSessionID = session, hStreamID = stream,
                      hSequence = sequence, hTimestamp = timestamp\<rparr> in
                do {
                  r \<leftarrow> decodeTLVs data headerLength BaseHeaderSize [] [];
                  case r of
                    Inl e \<Rightarrow> Some (Inl e)
                  | Inr extensions \<Rightarrow> do {
                      payload \<leftarrow> slice data headerLength (length data);
                      ok \<lparr>pHeader = header, pExtensions = extensions, pPayload = payload\<rparr>
                    }
                }
              }
            }
          }
        }
      })"

section \<open>The wire layout\<close>

text \<open>
  The reference layout of a datagram: the fields one after the other in network byte order.
  The encoder is proved to produce exactly this.
\<close>

definition tlvSizeOf :: "TLV \<Rightarrow> nat" where
  "tlvSizeOf t = alignedTLVSize (length (tValue t))"

definition tlv_bytes :: "TLV \<Rightarrow> bytes" where
  "tlv_bytes t = PutUint16 (tType t) @ PutUint16 (word_of_nat (length (tValue t))) @ tValue t @
     replicate (tlvSizeOf t - (4 + length (tValue t))) 0"

definition header_bytes :: "Header \<Rightarrow> nat \<Rightarrow> nat \<Rightarrow> bytes" where
  "header_bytes h headerLength payloadLength =
     Magic @ [hVersion h] @ [hType h] @ PutUint16 (hFlags h) @
     PutUint16 (word_of_nat headerLength) @ PutUint16 (word_of_nat payloadLength) @
     PutUint64 (hSessionID h) @ PutUint32 (hStreamID h) @ PutUint32 (hSequence h) @
     PutUint32 (hTimestamp h)"

definition headerLengthOf :: "Packet \<Rightarrow> nat" where
  "headerLengthOf p = BaseHeaderSize + sum_list (map tlvSizeOf (pExtensions p))"

definition layout :: "Packet \<Rightarrow> bytes" where
  "layout p = header_bytes (pHeader p) (headerLengthOf p) (length (pPayload p)) @
     concat (map tlv_bytes (pExtensions p)) @ pPayload p"

lemma length_tlv_bytes [simp]: "length (tlv_bytes t) = tlvSizeOf t"
  using alignedTLVSize_bounds(1) [of "length (tValue t)"] by (simp add: tlv_bytes_def tlvSizeOf_def)

lemma length_tlvs_bytes [simp]: "length (concat (map tlv_bytes ts)) = sum_list (map tlvSizeOf ts)"
  by (induction ts) auto

lemma length_header_bytes [simp]: "length (header_bytes h a b) = BaseHeaderSize"
  by (simp add: header_bytes_def)

lemma tlvSizeOf_pos [simp]: "0 < tlvSizeOf t"
  by (simp add: tlvSizeOf_def)

lemma length_layout: "length (layout p) = headerLengthOf p + length (pPayload p)"
  by (simp add: layout_def headerLengthOf_def)

lemma headerLengthOf_mod: "headerLengthOf p mod 4 = 0"
proof -
  have "sum_list (map tlvSizeOf ts) mod 4 = 0" for ts
    by (induction ts) (auto simp: tlvSizeOf_def alignedTLVSize_eq mod_add_eq)
  then have "sum_list (map tlvSizeOf (pExtensions p)) mod 4 = 0" .
  then show ?thesis unfolding headerLengthOf_def by presburger
qed

section \<open>Well-formed packets\<close>

definition wf_tlv :: "TLV \<Rightarrow> bool" where
  "wf_tlv t \<longleftrightarrow> length (tValue t) \<le> 65535 \<and>
     (tType t AND TLVCriticalMask \<noteq> 0 \<longrightarrow> knownTLV (baseTLV (tType t))) \<and>
     validateTLVValue (baseTLV (tType t)) (tValue t) = ok ()"

definition bases :: "TLV list \<Rightarrow> TLVType list" where
  "bases ts = map (\<lambda>t. baseTLV (tType t)) ts"

definition wf_packet :: "Packet \<Rightarrow> bool" where
  "wf_packet p \<longleftrightarrow> (\<forall>t \<in> set (pExtensions p). wf_tlv t) \<and> distinct (bases (pExtensions p)) \<and>
     headerLengthOf p + length (pPayload p) \<le> MaxDatagramSize \<and>
     hVersion (pHeader p) = Version1 \<and> hFlags (pHeader p) AND FlagReservedMask = 0"

text \<open>The value check never panics, because every read of an integer is guarded by a length test.\<close>

definition ok_or_invalid :: "TLVType \<Rightarrow> unit fallible \<Rightarrow> bool" where
  "ok_or_invalid ty r \<longleftrightarrow> r = ok () \<or> r = malformed (InvalidValue ty)"

lemma ok_or_invalid_intros:
  "ok_or_invalid ty (ok ())"
  "ok_or_invalid ty (malformed (InvalidValue ty))"
  "(c \<Longrightarrow> ok_or_invalid ty a) \<Longrightarrow> (\<not> c \<Longrightarrow> ok_or_invalid ty b) \<Longrightarrow> ok_or_invalid ty (if c then a else b)"
  by (auto simp: ok_or_invalid_def)

lemma ok_or_invalid_reads:
  "\<not> length v \<noteq> 2 \<Longrightarrow> (\<And>x. ok_or_invalid ty (f x)) \<Longrightarrow> ok_or_invalid ty (Uint16 v \<bind> f)"
  "\<not> length v \<noteq> 4 \<Longrightarrow> (\<And>y. ok_or_invalid ty (g y)) \<Longrightarrow> ok_or_invalid ty (Uint32 v \<bind> g)"
  by (auto simp: Uint16_def Uint32_def)

lemma validateTLVValue_ok_or_invalid: "ok_or_invalid ty (validateTLVValue ty v)"
  unfolding validateTLVValue_def Let_def
  by (intro ok_or_invalid_intros ok_or_invalid_reads; assumption)

lemma validateTLVValue_cases:
  obtains "validateTLVValue ty v = ok ()"
  | "validateTLVValue ty v = malformed (InvalidValue ty)"
  using validateTLVValue_ok_or_invalid by (auto simp: ok_or_invalid_def)

lemma validateExtensions_loop_ok:
  "validateExtensions_loop seen tot ts = ok n \<longleftrightarrow>
     (\<forall>t \<in> set ts. wf_tlv t) \<and> distinct (bases ts) \<and> set (bases ts) \<inter> set seen = {} \<and>
     n = tot + sum_list (map tlvSizeOf ts)"
proof (induction ts arbitrary: seen tot)
  case Nil
  then show ?case by (auto simp: bases_def)
next
  case (Cons t ts)
  then show ?case
    by (cases rule: validateTLVValue_cases [of "baseTLV (tType t)" "tValue t"])
       (auto simp: wf_tlv_def bases_def Let_def tlvSizeOf_def)
qed

lemma validateExtensions_loop_total: "validateExtensions_loop seen tot ts \<noteq> None"
proof (induction ts arbitrary: seen tot)
  case Nil
  then show ?case by simp
next
  case (Cons t ts)
  then show ?case
    by (cases rule: validateTLVValue_cases [of "baseTLV (tType t)" "tValue t"])
       (auto simp: Let_def)
qed

lemma validateExtensions_ok:
  "validateExtensions ts = ok n \<longleftrightarrow>
     (\<forall>t \<in> set ts. wf_tlv t) \<and> distinct (bases ts) \<and> n = sum_list (map tlvSizeOf ts)"
  by (simp add: validateExtensions_def validateExtensions_loop_ok)

section \<open>The encoder produces the layout\<close>

lemma encodeTLVs_step:
  assumes "length pre = offset"
  shows "encodeTLVs (pre @ replicate (tlvSizeOf t) 0 @ post) offset (t # ts) =
    encodeTLVs (pre @ tlv_bytes t @ post) (offset + tlvSizeOf t) ts"
proof -
  let ?n = "length (tValue t)"
  let ?pad = "tlvSizeOf t - (4 + ?n)"
  let ?ty = "PutUint16 (tType t)" and ?len = "PutUint16 (word_of_nat ?n)"
  have "tlvSizeOf t = 2 + (2 + (?n + ?pad))"
    using alignedTLVSize_bounds(1) [of ?n] by (simp add: tlvSizeOf_def)
  then have zeros: "replicate (tlvSizeOf t) (0::byte) =
      replicate 2 0 @ replicate 2 0 @ replicate ?n 0 @ replicate ?pad 0"
    by (metis replicate_add)
  have s1: "store (pre @ replicate 2 0 @ r) offset (offset + 2) ?ty = Some (pre @ ?ty @ r)" for r
    using assms by (intro store_append) auto
  have s2: "store (pre @ ?ty @ replicate 2 0 @ r) (offset + 2) (offset + 4) ?len
      = Some (pre @ ?ty @ ?len @ r)" for r
    using assms store_append [of "pre @ ?ty" "offset + 2" "replicate 2 0" ?len "offset + 4" r]
    by simp
  have s3: "copy_into (pre @ ?ty @ ?len @ replicate ?n 0 @ r) (offset + 4) (tValue t)
      = Some (pre @ ?ty @ ?len @ tValue t @ r)" for r
    using assms copy_into_append [of "pre @ ?ty @ ?len" "offset + 4" "replicate ?n 0" "tValue t" r]
    by simp
  show ?thesis
    by (simp only: zeros append_assoc encodeTLVs.simps s1 s2 s3 Option.bind.simps)
       (simp add: tlv_bytes_def tlvSizeOf_def)
qed

lemma encodeTLVs_layout:
  "length pre = offset \<Longrightarrow>
    encodeTLVs (pre @ replicate (sum_list (map tlvSizeOf ts)) 0 @ post) offset ts
      = Some (pre @ concat (map tlv_bytes ts) @ post)"
proof (induction ts arbitrary: pre offset)
  case Nil
  then show ?case by simp
next
  case (Cons t ts)
  have "encodeTLVs (pre @ replicate (tlvSizeOf t) 0 @
          (replicate (sum_list (map tlvSizeOf ts)) 0 @ post)) offset (t # ts) =
        encodeTLVs ((pre @ tlv_bytes t) @ replicate (sum_list (map tlvSizeOf ts)) 0 @ post)
          (offset + tlvSizeOf t) ts"
    using encodeTLVs_step [OF Cons.prems] by simp
  also have "\<dots> = Some ((pre @ tlv_bytes t) @ concat (map tlv_bytes ts) @ post)"
    using Cons.prems by (intro Cons.IH) simp
  finally show ?case by (simp add: replicate_add)
qed

text \<open>The ten stores of the header write \<^const>\<open>header_bytes\<close> over the first 32 bytes.\<close>

lemma store_zeros:
  "length acc = i \<Longrightarrow> j = i + length vs \<Longrightarrow> length vs \<le> n \<Longrightarrow>
    store (acc @ replicate n 0 @ r) i j vs = Some ((acc @ vs) @ replicate (n - length vs) 0 @ r)"
  by (simp add: store_def)

definition header_stores :: "Header \<Rightarrow> nat \<Rightarrow> nat \<Rightarrow> bytes \<Rightarrow> bytes option" where
  "header_stores h headerLength payloadLength data = do {
     data \<leftarrow> store data 0 4 Magic;
     data \<leftarrow> store data 4 5 [hVersion h];
     data \<leftarrow> store data 5 6 [hType h];
     data \<leftarrow> store data 6 8 (PutUint16 (hFlags h));
     data \<leftarrow> store data 8 10 (PutUint16 (word_of_nat headerLength));
     data \<leftarrow> store data 10 12 (PutUint16 (word_of_nat payloadLength));
     data \<leftarrow> store data 12 20 (PutUint64 (hSessionID h));
     data \<leftarrow> store data 20 24 (PutUint32 (hStreamID h));
     data \<leftarrow> store data 24 28 (PutUint32 (hSequence h));
     store data 28 32 (PutUint32 (hTimestamp h))
   }"

lemma header_stores_layout:
  "header_stores h a b (replicate 32 0 @ r) = Some (header_bytes h a b @ r)"
proof -
  have "store (replicate 32 0 @ r) 0 4 Magic = Some (Magic @ replicate 28 0 @ r)"
    using store_zeros [of "[]" 0 4 Magic 32 r] by simp
  then show ?thesis
    unfolding header_stores_def
    by (simp add: store_zeros del: append_assoc) (simp add: header_bytes_def)
qed

lemma Encode_stores:
  "validateExtensions (pExtensions p) = ok n \<Longrightarrow>
   Encode p =
     (let headerLength = BaseHeaderSize + n; totalLength = headerLength + length (pPayload p) in
      if totalLength > MaxDatagramSize \<or> length (pPayload p) > 65535
      then malformed (DatagramLength totalLength)
      else if hVersion (pHeader p) \<noteq> Version1 then Some (Inl ErrUnsupportedVersion)
      else if hFlags (pHeader p) AND FlagReservedMask \<noteq> 0 then malformed ReservedFlags
      else do {
        data \<leftarrow> header_stores (pHeader p) headerLength (length (pPayload p)) (replicate totalLength 0);
        data \<leftarrow> encodeTLVs data BaseHeaderSize (pExtensions p);
        data \<leftarrow> copy_into data headerLength (pPayload p);
        ok data
      })"
  by (simp add: Encode_def header_stores_def Let_def)

lemma Encode_wf: "wf_packet p \<Longrightarrow> Encode p = ok (layout p)"
proof -
  assume wf: "wf_packet p"
  let ?h = "pHeader p" and ?ts = "pExtensions p" and ?pay = "pPayload p"
  let ?n = "sum_list (map tlvSizeOf ?ts)"
  let ?hb = "header_bytes ?h (32 + ?n) (length ?pay)"
  have v: "validateExtensions ?ts = ok ?n"
    using wf by (simp add: wf_packet_def validateExtensions_ok)
  have zeros: "replicate (32 + ?n + length ?pay) 0
      = replicate 32 0 @ (replicate ?n 0 @ replicate (length ?pay) (0::byte))"
    by (metis append.assoc replicate_add)
  have 1: "header_stores ?h (32 + ?n) (length ?pay) (replicate (32 + ?n + length ?pay) 0)
      = Some (?hb @ replicate ?n 0 @ replicate (length ?pay) 0)"
    unfolding zeros by (rule header_stores_layout)
  have 2: "encodeTLVs (?hb @ replicate ?n 0 @ replicate (length ?pay) 0) 32 ?ts
      = Some (?hb @ concat (map tlv_bytes ?ts) @ replicate (length ?pay) 0)"
    by (rule encodeTLVs_layout) simp
  have 3: "copy_into (?hb @ concat (map tlv_bytes ?ts) @ replicate (length ?pay) 0) (32 + ?n) ?pay
      = Some (?hb @ concat (map tlv_bytes ?ts) @ ?pay)"
    using copy_into_append [of "?hb @ concat (map tlv_bytes ?ts)" "32 + ?n" "replicate (length ?pay) 0" ?pay "[]"]
    by simp
  show ?thesis
    using wf by (simp add: Encode_stores [OF v] Let_def 1 2 3 wf_packet_def headerLengthOf_def layout_def)
qed

lemma Encode_ok_iff: "Encode p = ok d \<longleftrightarrow> wf_packet p \<and> d = layout p"
proof
  assume enc: "Encode p = ok d"
  have "validateExtensions (pExtensions p) \<noteq> None"
    by (simp add: validateExtensions_def validateExtensions_loop_total)
  with enc obtain n where v: "validateExtensions (pExtensions p) = ok n"
    by (auto simp: Encode_def split: sum.splits option.splits)
  with enc have "wf_packet p"
    by (auto simp: Encode_stores [OF v] Let_def wf_packet_def headerLengthOf_def validateExtensions_ok
        split: if_splits)
  with enc Encode_wf [of p] show "wf_packet p \<and> d = layout p" by auto
qed (auto simp: Encode_wf)

lemma Encode_total: "Encode p \<noteq> None"
proof -
  have "validateExtensions (pExtensions p) \<noteq> None"
    by (simp add: validateExtensions_def validateExtensions_loop_total)
  then consider e where "validateExtensions (pExtensions p) = Some (Inl e)"
    | n where "validateExtensions (pExtensions p) = ok n"
    by (metis option.exhaust old.sum.exhaust)
  then show ?thesis
  proof cases
    case 1
    then show ?thesis by (simp add: Encode_def)
  next
    case (2 n)
    show ?thesis
    proof (cases "wf_packet p")
      case True
      then show ?thesis by (simp add: Encode_wf)
    next
      case False
      with 2 show ?thesis
        by (auto simp: Encode_stores [OF 2] Let_def wf_packet_def headerLengthOf_def validateExtensions_ok)
    qed
  qed
qed

section \<open>The decoder inverts the encoder\<close>

lemma decodeTLVs_step:
  assumes "length pre = offset" "offset + tlvSizeOf t \<le> headerLength" "wf_tlv t"
    and "baseTLV (tType t) \<notin> set seen"
    and data: "data = pre @ tlv_bytes t @ post"
  shows "decodeTLVs data headerLength offset seen acc =
    decodeTLVs data headerLength (offset + tlvSizeOf t) (baseTLV (tType t) # seen) (acc @ [t])"
proof -
  let ?ty = "PutUint16 (tType t)" and ?n = "length (tValue t)"
  let ?len = "PutUint16 (word_of_nat ?n)" and ?pad = "replicate (tlvSizeOf t - (4 + ?n)) (0::byte)"
  have split: "data = pre @ ?ty @ ?len @ tValue t @ ?pad @ post"
    by (simp add: data tlv_bytes_def)
  have n: "unat (word_of_nat ?n :: u16) = ?n"
    using assms(3) by (simp add: wf_tlv_def unat_of_nat)
  have size: "4 + ?n \<le> tlvSizeOf t"
    using alignedTLVSize_bounds(1) [of ?n] by (simp add: tlvSizeOf_def)
  have s1: "slice data offset (offset + 2) = Some ?ty"
    unfolding split using assms(1) by (intro slice_append) auto
  have s2: "slice data (offset + 2) (offset + 4) = Some ?len"
    unfolding split using assms(1)
      slice_append [of "pre @ ?ty" "offset + 2" ?len "offset + 4" "tValue t @ ?pad @ post"] by simp
  have s3: "slice data (offset + 4) (offset + 4 + ?n) = Some (tValue t)"
    unfolding split using assms(1)
      slice_append [of "pre @ ?ty @ ?len" "offset + 4" "tValue t" "offset + 4 + ?n" "?pad @ post"] by simp
  have s4: "slice data (offset + 4 + ?n) (offset + tlvSizeOf t) = Some ?pad"
    unfolding split using assms(1) size
      slice_append [of "pre @ ?ty @ ?len @ tValue t" "offset + 4 + ?n" ?pad "offset + tlvSizeOf t" post]
    by simp
  show ?thesis
    using assms(2-4) size s3
    by (subst decodeTLVs.simps)
       (auto simp: s1 s2 s4 n tlvSizeOf_def [symmetric] wf_tlv_def Let_def list_all_iff
          simp del: add_2_eq_Suc add_2_eq_Suc')
qed

lemma decodeTLVs_layout:
  "length pre = offset \<Longrightarrow> headerLength = offset + sum_list (map tlvSizeOf ts) \<Longrightarrow>
    (\<forall>t \<in> set ts. wf_tlv t) \<Longrightarrow> distinct (bases ts) \<Longrightarrow> set (bases ts) \<inter> set seen = {} \<Longrightarrow>
    decodeTLVs (pre @ concat (map tlv_bytes ts) @ post) headerLength offset seen acc = ok (acc @ ts)"
proof (induction ts arbitrary: pre offset seen acc)
  case Nil
  then show ?case by (simp add: decodeTLVs.simps)
next
  case (Cons t ts)
  let ?rest = "concat (map tlv_bytes ts) @ post"
  have "decodeTLVs (pre @ tlv_bytes t @ ?rest) headerLength offset seen acc =
      decodeTLVs (pre @ tlv_bytes t @ ?rest) headerLength (offset + tlvSizeOf t)
        (baseTLV (tType t) # seen) (acc @ [t])"
    using Cons.prems by (intro decodeTLVs_step) (auto simp: bases_def)
  also have "\<dots> = decodeTLVs ((pre @ tlv_bytes t) @ ?rest) headerLength (offset + tlvSizeOf t)
        (baseTLV (tType t) # seen) (acc @ [t])"
    by simp
  also have "\<dots> = ok ((acc @ [t]) @ ts)"
    using Cons.prems by (intro Cons.IH) (auto simp: bases_def)
  finally show ?case by simp
qed

lemma slice_layout:
  "slice (a @ b @ c) i j = Some b" if "length a = i" "i + length b = j"
  using that by (simp add: slice_def)

text \<open>What \<^const>\<open>Decode\<close> sees of a datagram that starts with the bytes of a header.\<close>

lemma header_slices:
  defines "H \<equiv> \<lambda>h a b r. header_bytes h a b @ r"
  shows "slice (H h a b r) 0 4 = Some Magic"
    "at (H h a b r) 4 = Some (hVersion h)" "at (H h a b r) 5 = Some (hType h)"
    "slice (H h a b r) 6 8 = Some (PutUint16 (hFlags h))"
    "slice (H h a b r) 8 10 = Some (PutUint16 (word_of_nat a))"
    "slice (H h a b r) 10 12 = Some (PutUint16 (word_of_nat b))"
    "slice (H h a b r) 12 20 = Some (PutUint64 (hSessionID h))"
    "slice (H h a b r) 20 24 = Some (PutUint32 (hStreamID h))"
    "slice (H h a b r) 24 28 = Some (PutUint32 (hSequence h))"
    "slice (H h a b r) 28 32 = Some (PutUint32 (hTimestamp h))"
  by (simp_all add: H_def header_bytes_def slice_def at_def nth_append)

lemma Decode_layout:
  assumes "wf_packet p"
  shows "Decode (layout p) = ok (p\<lparr>pHeader := (pHeader p)\<lparr>
    hHeaderLength := word_of_nat (headerLengthOf p), hPayloadLength := word_of_nat (length (pPayload p))\<rparr>\<rparr>)"
proof -
  let ?h = "pHeader p" and ?ts = "pExtensions p" and ?pay = "pPayload p"
  let ?hl = "headerLengthOf p"
  let ?body = "concat (map tlv_bytes ?ts) @ ?pay"
  have lay: "layout p = header_bytes ?h ?hl (length ?pay) @ ?body"
    by (simp add: layout_def)
  have len: "length (layout p) = ?hl + length ?pay" "?hl + length ?pay \<le> 1200" "32 \<le> ?hl"
    using assms by (auto simp: length_layout wf_packet_def headerLengthOf_def)
  have un: "unat (word_of_nat ?hl :: u16) = ?hl" "unat (word_of_nat (length ?pay) :: u16) = length ?pay"
    using len by (simp_all add: unat_of_nat)
  have tlvs: "decodeTLVs (layout p) ?hl 32 [] [] = ok ?ts"
    using assms decodeTLVs_layout [of "header_bytes ?h ?hl (length ?pay)" 32 ?hl ?ts "[]" ?pay "[]"]
    by (simp add: lay wf_packet_def headerLengthOf_def)
  have pay: "slice (layout p) ?hl (length (layout p)) = Some ?pay"
    unfolding len(1) using slice_layout [of "header_bytes ?h ?hl (length ?pay) @ concat (map tlv_bytes ?ts)" ?hl ?pay _ "[]"]
    by (simp add: lay headerLengthOf_def)
  show ?thesis
    using assms len headerLengthOf_mod [of p] tlvs pay
    unfolding Decode_def lay
    by (simp add: header_slices un wf_packet_def Let_def)
qed

section \<open>Every accepted datagram is canonical\<close>

lemma take_split4:
  "take (a + b + c + d) xs =
     take a xs @ take b (drop a xs) @ take c (drop (a + b) xs) @ take d (drop (a + b + c) xs)"
  by (simp add: take_add ac_simps)

text \<open>
  One round of the extension loop, inverted: if the loop accepts, the bytes at the offset are
  the encoding of one well-formed extension and the loop continues behind it.
\<close>

lemma decodeTLVs_unfold:
  assumes "decodeTLVs data hl off seen acc = ok res" "off < hl" "hl \<le> length data"
  obtains t where "wf_tlv t" "baseTLV (tType t) \<notin> set seen" "off + tlvSizeOf t \<le> hl"
    "take (tlvSizeOf t) (drop off data) = tlv_bytes t"
    "decodeTLVs data hl (off + tlvSizeOf t) (baseTLV (tType t) # seen) (acc @ [t]) = ok res"
proof -
  have four: "off + 4 \<le> hl"
    using assms(1,2) by (subst (asm) decodeTLVs.simps) (simp split: if_splits)
  define tb where "tb = take 2 (drop off data)"
  define lb where "lb = take 2 (drop (off + 2) data)"
  have len: "length tb = 2" "length lb = 2"
    using four assms(3) by (simp_all add: tb_def lb_def)
  have s1: "slice data off (off + 2) = Some tb" "slice data (off + 2) (off + 4) = Some lb"
    using four assms(3) by (simp_all add: slice_def tb_def lb_def)
  from len obtain ty vl where rd: "Uint16 tb = Some ty" "Uint16 lb = Some vl"
    using Uint16_total [of tb] Uint16_total [of lb] by auto
  let ?n = "unat vl"
  let ?sz = "alignedTLVSize ?n"
  note step = assms(1) [unfolded decodeTLVs.simps [of data hl off seen acc] s1 rd Option.bind.simps Let_def]
  have size: "off + ?sz \<le> hl" and fresh: "baseTLV ty \<notin> set seen"
    and crit: "ty AND TLVCriticalMask \<noteq> 0 \<longrightarrow> knownTLV (baseTLV ty)"
    using step assms(2) four by (auto split: if_splits)
  have bound: "4 + ?n \<le> ?sz" by (rule alignedTLVSize_bounds)
  define pad where "pad = take (?sz - (4 + ?n)) (drop (off + 4 + ?n) data)"
  define v where "v = take ?n (drop (off + 4) data)"
  have s2: "slice data (off + 4 + ?n) (off + ?sz) = Some pad" "slice data (off + 4) (off + 4 + ?n) = Some v"
    using size bound assms(3) by (simp_all add: slice_def pad_def v_def)
  have lenv: "length v = ?n"
    using size bound assms(3) by (simp add: v_def)
  have more: "list_all (\<lambda>x. x = 0) pad \<and> validateTLVValue (baseTLV ty) v = ok () \<and>
      decodeTLVs data hl (off + ?sz) (baseTLV ty # seen) (acc @ [tlv ty v]) = ok res"
    using step assms(2) four size fresh crit s2
    by (cases rule: validateTLVValue_cases [of "baseTLV ty" v]) (auto split: if_splits)
  have padz: "pad = replicate (?sz - (4 + ?n)) 0"
    using more size bound assms(3)
    by (intro replicate_eqI) (auto simp: list_all_iff pad_def)
  have w: "word_of_nat ?n = vl" by simp
  have bytes: "tlv_bytes (tlv ty v) = tb @ lb @ v @ pad"
    using Put_Uint16 [OF len(1) rd(1)] Put_Uint16 [OF len(2) rd(2)] padz lenv w
    by (simp add: tlv_bytes_def tlvSizeOf_def)
  have "take ?sz (drop off data) = tb @ lb @ v @ pad"
    using take_split4 [of 2 2 ?n "?sz - (4 + ?n)" "drop off data"] bound
    by (simp add: tb_def lb_def v_def pad_def add.commute add.left_commute)
  then show thesis
    using that [of "tlv ty v"] more size fresh crit lenv bytes
      unsigned_less [of vl, where ?'a = nat]
    by (simp add: wf_tlv_def tlvSizeOf_def)
qed

lemma decodeTLVs_canonical:
  assumes "decodeTLVs data hl off seen acc = ok res" "off \<le> hl" "hl \<le> length data"
  shows "\<exists>ts. res = acc @ ts \<and> take (hl - off) (drop off data) = concat (map tlv_bytes ts) \<and>
    (\<forall>t \<in> set ts. wf_tlv t) \<and> distinct (bases ts) \<and> set (bases ts) \<inter> set seen = {}"
  using assms
proof (induction "hl - off" arbitrary: off seen acc rule: less_induct)
  case less
  show ?case
  proof (cases "off < hl")
    case False
    with less.prems show ?thesis
      by (subst (asm) decodeTLVs.simps) (auto simp: bases_def intro!: exI [of _ "[]"])
  next
    case True
    obtain t where t: "wf_tlv t" "baseTLV (tType t) \<notin> set seen" "off + tlvSizeOf t \<le> hl"
      "take (tlvSizeOf t) (drop off data) = tlv_bytes t"
      "decodeTLVs data hl (off + tlvSizeOf t) (baseTLV (tType t) # seen) (acc @ [t]) = ok res"
      using decodeTLVs_unfold [OF less.prems(1) True less.prems(3)] by blast
    have "hl - (off + tlvSizeOf t) < hl - off"
      using True tlvSizeOf_pos [of t] by linarith
    from less.hyps [OF this t(5) t(3) less.prems(3)] obtain ts where
      ts: "res = (acc @ [t]) @ ts"
        "take (hl - (off + tlvSizeOf t)) (drop (off + tlvSizeOf t) data) = concat (map tlv_bytes ts)"
        "\<forall>t \<in> set ts. wf_tlv t" "distinct (bases ts)"
        "set (bases ts) \<inter> set (baseTLV (tType t) # seen) = {}"
      by blast
    have "hl - off = tlvSizeOf t + (hl - (off + tlvSizeOf t))"
      using t(3) by simp
    then have "take (hl - off) (drop off data) =
        take (tlvSizeOf t) (drop off data) @ take (hl - (off + tlvSizeOf t)) (drop (off + tlvSizeOf t) data)"
      by (metis add.commute drop_drop take_add)
    with t ts show ?thesis
      by (intro exI [of _ "t # ts"]) (auto simp: bases_def)
  qed
qed

lemma decodeTLVs_total:
  "off \<le> hl \<Longrightarrow> hl \<le> length data \<Longrightarrow> decodeTLVs data hl off seen acc \<noteq> None"
proof (induction "hl - off" arbitrary: off seen acc rule: less_induct)
  case less
  show ?case
  proof (cases "off < hl \<and> off + 4 \<le> hl")
    case False
    with less.prems show ?thesis
      by (subst decodeTLVs.simps) auto
  next
    case True
    then obtain tb lb where s: "slice data off (off + 2) = Some tb" "slice data (off + 2) (off + 4) = Some lb"
      and "length tb = 2" "length lb = 2"
      using less.prems by (auto simp: slice_def)
    then obtain ty vl where rd: "Uint16 tb = Some ty" "Uint16 lb = Some vl"
      using Uint16_total [of tb] Uint16_total [of lb] by auto
    let ?sz = "alignedTLVSize (unat vl)"
    have bound: "4 + unat vl \<le> ?sz" by (rule alignedTLVSize_bounds)
    have rec: "decodeTLVs data hl (off + ?sz) seen' acc' \<noteq> None" if "off + ?sz \<le> hl" for seen' acc'
      using less.prems that True by (intro less.hyps) (auto intro: diff_less_mono2)
    have sl: "off + ?sz \<le> hl \<Longrightarrow> \<exists>pad v. slice data (off + 4 + unat vl) (off + ?sz) = Some pad \<and>
        slice data (off + 4) (off + 4 + unat vl) = Some v"
      using less.prems bound by (simp add: slice_def)
    show ?thesis
    proof (cases "off + ?sz \<le> hl")
      case False
      with True show ?thesis
        by (subst decodeTLVs.simps) (auto simp: s rd Let_def simp del: add_2_eq_Suc')
    next
      case fits: True
      with sl obtain pad v where pv: "slice data (off + 4 + unat vl) (off + ?sz) = Some pad"
        "slice data (off + 4) (off + 4 + unat vl) = Some v" by blast
      show ?thesis
        using True fits rec [OF fits]
        by (cases rule: validateTLVValue_cases [of "baseTLV ty" v]; subst decodeTLVs.simps)
           (auto simp: s rd pv Let_def simp del: add_2_eq_Suc')
    qed
  qed
qed

lemma take_header:
  "take 32 d = take 4 d @ take 1 (drop 4 d) @ take 1 (drop 5 d) @ take 2 (drop 6 d) @
     take 2 (drop 8 d) @ take 2 (drop 10 d) @ take 8 (drop 12 d) @ take 4 (drop 20 d) @
     take 4 (drop 24 d) @ take 4 (drop 28 d)"
proof -
  have "take (4 + (1 + (1 + (2 + (2 + (2 + (8 + (4 + (4 + 4))))))))) d =
     take 4 d @ take 1 (drop 4 d) @ take 1 (drop 5 d) @ take 2 (drop 6 d) @
     take 2 (drop 8 d) @ take 2 (drop 10 d) @ take 8 (drop 12 d) @ take 4 (drop 20 d) @
     take 4 (drop 24 d) @ take 4 (drop 28 d)"
    unfolding take_add drop_drop by simp
  then show ?thesis by simp
qed

text \<open>
  The header fields as the decoder reads them, and \<^const>\<open>Decode\<close> with its reads carried
  out: on a datagram of admissible length none of them is out of range.
\<close>

definition read_header :: "bytes \<Rightarrow> Header" where
  "read_header d = \<lparr>hVersion = d ! 4, hType = d ! 5, hFlags = get_be (take 2 (drop 6 d)),
     hHeaderLength = get_be (take 2 (drop 8 d)), hPayloadLength = get_be (take 2 (drop 10 d)),
     hSessionID = get_be (take 8 (drop 12 d)), hStreamID = get_be (take 4 (drop 20 d)),
     hSequence = get_be (take 4 (drop 24 d)), hTimestamp = get_be (take 4 (drop 28 d))\<rparr>"

lemma Decode_reads:
  assumes "32 \<le> length d" "length d \<le> 1200"
  shows "Decode d =
    (let h = read_header d; hl = unat (hHeaderLength h); pl = unat (hPayloadLength h) in
     if take 4 d \<noteq> Magic then malformed BadMagic
     else if hVersion h \<noteq> Version1 then Some (Inl ErrUnsupportedVersion)
     else if hl < 32 \<or> hl mod 4 \<noteq> 0 \<or> hl > length d then malformed (BadHeaderLength hl)
     else if hl + pl \<noteq> length d then malformed (BadPayloadLength pl)
     else if hFlags h AND FlagReservedMask \<noteq> 0 then malformed ReservedFlags
     else decodeTLVs d hl 32 [] [] \<bind> (\<lambda>r. case r of
         Inl e \<Rightarrow> Some (Inl e)
       | Inr ext \<Rightarrow> ok \<lparr>pHeader = h, pExtensions = ext, pPayload = drop hl d\<rparr>))"
  using assms
  by (simp add: Decode_def slice_def at_def Uint16_def Uint32_def Uint64_def read_header_def Let_def
      cong: if_cong)

lemma header_bytes_read:
  assumes "32 \<le> length d" "take 4 d = Magic"
  shows "header_bytes (read_header d) (unat (hHeaderLength (read_header d)))
    (unat (hPayloadLength (read_header d))) = take 32 d"
proof -
  let ?h = "read_header d"
  have b1: "take (Suc 0) (drop 4 d) = [d ! 4]" "take (Suc 0) (drop 5 d) = [d ! 5]"
    using assms(1) by (simp_all add: take_Suc_conv_app_nth hd_drop_conv_nth)
  have "PutUint16 (hFlags ?h) = take 2 (drop 6 d)" "PutUint16 (hHeaderLength ?h) = take 2 (drop 8 d)"
    "PutUint16 (hPayloadLength ?h) = take 2 (drop 10 d)" "PutUint64 (hSessionID ?h) = take 8 (drop 12 d)"
    "PutUint32 (hStreamID ?h) = take 4 (drop 20 d)" "PutUint32 (hSequence ?h) = take 4 (drop 24 d)"
    "PutUint32 (hTimestamp ?h) = take 4 (drop 28 d)"
    using assms(1) by (auto simp: read_header_def Uint16_def Uint32_def Uint64_def
      intro!: Put_Uint16 Put_Uint32 Put_Uint64)
  then show ?thesis
    by (subst take_header) (simp add: header_bytes_def assms(2) b1 read_header_def)
qed

lemma Decode_length: "Decode d = ok p \<Longrightarrow> 32 \<le> length d \<and> length d \<le> 1200"
  by (auto simp: Decode_def split: if_splits)

lemma Decode_okE:
  assumes "Decode d = ok p"
  obtains "pHeader p = read_header d" "take 4 d = Magic"
    "hVersion (pHeader p) = Version1" "hFlags (pHeader p) AND FlagReservedMask = 0"
    "32 \<le> unat (hHeaderLength (pHeader p))"
    "unat (hHeaderLength (pHeader p)) + unat (hPayloadLength (pHeader p)) = length d"
    "decodeTLVs d (unat (hHeaderLength (pHeader p))) 32 [] [] = ok (pExtensions p)"
    "pPayload p = drop (unat (hHeaderLength (pHeader p))) d"
  using assms Decode_length [OF assms]
  by (auto simp: Decode_reads Let_def bind_fallible_ok split: if_splits)

lemma Decode_total: "Decode d \<noteq> None"
proof (cases "32 \<le> length d \<and> length d \<le> 1200")
  case True
  then show ?thesis
    using decodeTLVs_total [of 32 "unat (hHeaderLength (read_header d))" d "[]" "[]"]
    by (auto simp: Decode_reads Let_def split: sum.splits)
next
  case False
  then show ?thesis by (auto simp: Decode_def)
qed

lemma Decode_canonical:
  assumes "Decode d = ok p"
  shows "wf_packet p \<and> layout p = d \<and> unat (hHeaderLength (pHeader p)) = headerLengthOf p \<and>
    unat (hPayloadLength (pHeader p)) = length (pPayload p)"
  using assms
proof (rule Decode_okE)
  let ?hl = "unat (hHeaderLength (pHeader p))" and ?pl = "unat (hPayloadLength (pHeader p))"
  assume h: "pHeader p = read_header d" and magic: "take 4 d = Magic"
    and ver: "hVersion (pHeader p) = Version1" "hFlags (pHeader p) AND FlagReservedMask = 0"
    and hl: "32 \<le> ?hl" "?hl + ?pl = length d"
    and tlvs: "decodeTLVs d ?hl 32 [] [] = ok (pExtensions p)" and pay: "pPayload p = drop ?hl d"
  have len: "32 \<le> length d" "length d \<le> 1200"
    using Decode_length [OF assms] by auto
  have hb: "header_bytes (pHeader p) ?hl ?pl = take 32 d"
    using header_bytes_read [OF len(1) magic] h by simp
  from hl have "?hl \<le> length d" by simp
  from decodeTLVs_canonical [OF tlvs hl(1) this]
  have ext: "take (?hl - 32) (drop 32 d) = concat (map tlv_bytes (pExtensions p))"
    "\<forall>t \<in> set (pExtensions p). wf_tlv t" "distinct (bases (pExtensions p))"
    by auto
  have "length (take (?hl - 32) (drop 32 d)) = ?hl - 32"
    using hl by simp
  with ext(1) hl(1) have hlen: "?hl = headerLengthOf p"
    by (simp add: headerLengthOf_def)
  have plen: "?pl = length (pPayload p)"
    using pay hl by simp
  have "take ?hl d = take 32 d @ take (?hl - 32) (drop 32 d)"
    using hl(1) by (metis le_add_diff_inverse take_add)
  then have "d = take 32 d @ take (?hl - 32) (drop 32 d) @ drop ?hl d"
    by (metis append.assoc append_take_drop_id)
  with hb ext(1) pay hlen plen have "layout p = d"
    by (simp add: layout_def)
  moreover have "wf_packet p"
    using ext ver hlen plen hl(2) len by (simp add: wf_packet_def)
  ultimately show ?thesis using hlen plen by blast
qed

lemma Encode_cases:
  obtains d where "Encode p = ok d" | err where "Encode p = Some (Inl err)"
  using Encode_total [of p] by (metis option.exhaust old.sum.exhaust)

lemma Decode_cases:
  obtains p where "Decode d = ok p" "wf_packet p" | err where "Decode d = Some (Inl err)"
  using Decode_total [of d] Decode_canonical by (metis option.exhaust old.sum.exhaust)

section \<open>The codec contract\<close>

definition accepted :: "'a fallible \<Rightarrow> 'a option" where
  "accepted r = (case r of Some (Inr x) \<Rightarrow> Some x | _ \<Rightarrow> None)"

lemma accepted_Some [simp]: "accepted r = Some x \<longleftrightarrow> r = ok x"
  by (auto simp: accepted_def split: option.splits sum.splits)

text \<open>The packet as \<^const>\<open>Decode\<close> returns it: both length fields are filled in.\<close>

definition with_lengths :: "Packet \<Rightarrow> Packet" where
  "with_lengths p = p\<lparr>pHeader := (pHeader p)\<lparr>hHeaderLength := word_of_nat (headerLengthOf p),
     hPayloadLength := word_of_nat (length (pPayload p))\<rparr>\<rparr>"

interpretation wire: canonical_codec "\<lambda>p. accepted (Encode p)" "\<lambda>d. accepted (Decode d)" with_lengths
proof unfold_locales
  fix p d
  assume "accepted (Encode p) = Some d"
  then have "wf_packet p" and "d = layout p"
    by (simp_all add: Encode_ok_iff)
  then show "accepted (Decode d) = Some (with_lengths p)"
    by (simp add: Decode_layout with_lengths_def)
next
  fix d p
  assume "accepted (Decode d) = Some p"
  then show "accepted (Encode p) = Some d"
    using Decode_canonical [of d p] by (simp add: Encode_ok_iff)
qed

end
