(* ===== verification/Helpers.thy ===== *)
theory Helpers
  imports Codec
begin

text \<open>
  \<^verbatim>\<open>pkg/wire/helpers.go\<close>: lookup of an extension, constructors of integer-valued
  extensions, and the padded callsign and reflector identifiers.
\<close>

section \<open>Extensions of a packet\<close>

text \<open>The two results of \<^verbatim>\<open>Find\<close>, the value and the flag, as an option.\<close>

fun find_tlv :: "TLV list \<Rightarrow> TLVType \<Rightarrow> bytes option" where
  "find_tlv [] typ = None"
| "find_tlv (t # ts) typ = (if baseTLV (tType t) = typ then Some (tValue t) else find_tlv ts typ)"

definition Find :: "Packet \<Rightarrow> TLVType \<Rightarrow> bytes option" where
  "Find p typ = find_tlv (pExtensions p) typ"

text \<open>A packet marked as a retry, as the client sends it again (\<^verbatim>\<open>pkg/client/udp.go\<close>, \<^verbatim>\<open>request\<close>).\<close>

definition with_retry :: "Packet \<Rightarrow> Packet" where
  "with_retry p = p\<lparr>pHeader := (pHeader p)\<lparr>hFlags := hFlags (pHeader p) OR FlagRetry\<rparr>\<rparr>"

definition Uint64TLV :: "TLVType \<Rightarrow> u64 \<Rightarrow> TLV" where
  "Uint64TLV typ value = tlv typ (PutUint64 value)"

definition Uint32TLV :: "TLVType \<Rightarrow> u32 \<Rightarrow> TLV" where
  "Uint32TLV typ value = tlv typ (PutUint32 value)"

definition Uint16TLV :: "TLVType \<Rightarrow> u16 \<Rightarrow> TLV" where
  "Uint16TLV typ value = tlv typ (PutUint16 value)"

section \<open>Identifiers\<close>

datatype identifier_error = IdentifierLength | IdentifierCharacter

definition padded_identifier :: "nat \<Rightarrow> (string \<Rightarrow> string) \<Rightarrow> string \<Rightarrow> identifier_error + bytes" where
  "padded_identifier sz uni v =
     (let value = ToUpper uni v in
      if length value < 1 \<or> length value > sz then Inl IdentifierLength
      else let data = bytes_of (value @ replicate (sz - length value) CHR '' '') in
           if \<not> validPaddedIdentifier data sz then Inl IdentifierCharacter
           else Inr data)"

definition Callsign :: "(string \<Rightarrow> string) \<Rightarrow> string \<Rightarrow> identifier_error + bytes" where
  "Callsign uni value = padded_identifier CallsignSize uni value"

definition ReflectorID :: "(string \<Rightarrow> string) \<Rightarrow> string \<Rightarrow> identifier_error + bytes" where
  "ReflectorID uni value = padded_identifier 16 uni value"

section \<open>Correctness\<close>

lemma find_tlv_Some: "find_tlv ts typ = Some v \<Longrightarrow> \<exists>t \<in> set ts. baseTLV (tType t) = typ \<and> tValue t = v"
  by (induction ts) (auto split: if_splits)

lemma find_tlv_None_iff: "find_tlv ts typ = None \<longleftrightarrow> typ \<notin> set (bases ts)"
  by (induction ts) (auto simp: bases_def)

text \<open>A value found in a packet that passed the codec has the form its type requires.\<close>

lemma Find_valid: "wf_packet p \<Longrightarrow> Find p typ = Some v \<Longrightarrow> validateTLVValue typ v = ok ()"
  by (auto simp: Find_def wf_packet_def wf_tlv_def dest!: find_tlv_Some)

lemma Find_TransactionID_length: "wf_packet p \<Longrightarrow> Find p TLVTransactionID = Some v \<Longrightarrow> length v = 8"
  using Find_valid [of p TLVTransactionID v] by (simp add: validateTLVValue_def Let_def split: if_splits)

lemma transaction_value:
  "wf_packet p \<Longrightarrow> Find p TLVTransactionID = Some raw \<Longrightarrow> \<exists>t. Uint64 raw = Some t"
  using Find_valid [of p TLVTransactionID raw] Uint64_8
  by (auto simp: validateTLVValue_def Let_def split: if_splits)

text \<open>The scan accepts exactly a nonempty run of permitted characters padded with spaces.\<close>

lemma scan_identifier_Some:
  "length v + i = sz \<Longrightarrow> scan_identifier sz i v = Some n \<Longrightarrow>
    i \<le> n \<and> n \<le> sz \<and> list_all identifier_char (take (n - i) v) \<and> (n < sz \<longrightarrow> v ! (n - i) = 0x20)"
proof (induction v arbitrary: i)
  case Nil
  then show ?case by simp
next
  case (Cons c v)
  show ?case
  proof (cases "c = 0x20")
    case True
    with Cons.prems show ?thesis by auto
  next
    case False
    with Cons.prems have c: "identifier_char c" and r: "scan_identifier sz (Suc i) v = Some n"
      by (auto split: if_splits)
    from Cons.IH [OF _ r] Cons.prems(1)
    have "Suc i \<le> n \<and> n \<le> sz \<and> list_all identifier_char (take (n - Suc i) v) \<and>
        (n < sz \<longrightarrow> v ! (n - Suc i) = 0x20)" by simp
    moreover from this have "n - i = Suc (n - Suc i)" by arith
    ultimately show ?thesis using c by simp
  qed
qed

lemma scan_identifier_padded:
  "list_all identifier_char s \<Longrightarrow> length s + k + i = sz \<Longrightarrow>
    scan_identifier sz i (s @ replicate k 0x20) = Some (i + length s)"
proof (induction s arbitrary: i)
  case Nil
  then show ?case by (cases k) auto
next
  case (Cons c s)
  then have "c \<noteq> 0x20" by (auto simp: identifier_char_def)
  with Cons show ?case by simp
qed

lemma validPaddedIdentifier_iff:
  "validPaddedIdentifier v sz \<longleftrightarrow>
     (\<exists>s. s \<noteq> [] \<and> length s \<le> sz \<and> list_all identifier_char s \<and> v = s @ replicate (sz - length s) 0x20)"
proof
  assume v: "validPaddedIdentifier v sz"
  then obtain n where len: "length v = sz" and n: "scan_identifier sz 0 v = Some n" "n \<noteq> 0"
    and sp: "list_all (\<lambda>c. c = 0x20) (drop n v)"
    by (auto simp: validPaddedIdentifier_def split: if_splits option.splits)
  from scan_identifier_Some [OF _ n(1)] len have c: "n \<le> sz" "list_all identifier_char (take n v)"
    by auto
  have "drop n v = replicate (sz - n) 0x20"
    using sp len by (intro replicate_eqI) (auto simp: list_all_iff)
  then have "v = take n v @ replicate (sz - n) 0x20"
    by (metis append_take_drop_id)
  with c len n(2) show "\<exists>s. s \<noteq> [] \<and> length s \<le> sz \<and> list_all identifier_char s \<and>
      v = s @ replicate (sz - length s) 0x20"
    by (intro exI [of _ "take n v"]) auto
next
  assume "\<exists>s. s \<noteq> [] \<and> length s \<le> sz \<and> list_all identifier_char s \<and> v = s @ replicate (sz - length s) 0x20"
  then show "validPaddedIdentifier v sz"
    by (auto simp: validPaddedIdentifier_def scan_identifier_padded list_all_iff)
qed

lemma identifier_char_of:
  assumes "identifier_char (word_of_nat (of_char c))"
  shows "(of_char c :: nat) < 128 \<and> of_char c \<noteq> (32::nat) \<and> of_char c \<notin> {9..13::nat} \<and> ascii_upper c = c"
proof -
  let ?n = "of_char c :: nat"
  have lt: "?n < 256" by (rule of_char_less_256)
  then have "(a::byte) \<le> word_of_nat ?n \<longleftrightarrow> unat a \<le> ?n" "word_of_nat ?n \<le> a \<longleftrightarrow> ?n \<le> unat a"
    "word_of_nat ?n = a \<longleftrightarrow> ?n = unat a" for a
    by (auto simp: word_le_nat_alt unat_of_nat word_unat_eq_iff)
  with assms have "0x41 \<le> ?n \<and> ?n \<le> 0x5A \<or> 0x30 \<le> ?n \<and> ?n \<le> 0x39 \<or> ?n = 0x2F \<or> ?n = 0x2D"
    by (simp add: identifier_char_def)
  then show ?thesis by (auto simp: ascii_upper_def)
qed

lemma char_of_space: "char_of (32 :: nat) = CHR '' ''"
  using char_of_char [of "CHR '' ''", where 'a = nat] by simp

lemma bytes_of_spaces [simp]: "bytes_of (replicate k CHR '' '') = replicate k 0x20"
  by (simp add: bytes_of_def)

lemma padded_identifier_valid: "padded_identifier sz uni v = Inr d \<Longrightarrow> validPaddedIdentifier d sz"
  by (auto simp: padded_identifier_def Let_def split: if_splits)

text \<open>
  The unpadded text of a valid identifier, as \<^verbatim>\<open>strings.TrimSpace(string(d))\<close> computes it,
  encodes back to the same bytes. The server stores callsigns trimmed and encodes them again
  whenever it sends them.
\<close>

lemma padded_identifier_roundtrip:
  assumes "validPaddedIdentifier d sz"
  shows "padded_identifier sz uni (TrimSpace (string_of d)) = Inr d"
proof -
  from assms obtain s where s: "s \<noteq> []" "length s \<le> sz" "list_all identifier_char s"
    and d: "d = s @ replicate (sz - length s) 0x20"
    by (auto simp: validPaddedIdentifier_iff)
  let ?t = "string_of s"
  have chars: "(of_char c :: nat) < 128 \<and> of_char c \<noteq> (32::nat) \<and> of_char c \<notin> {9..13::nat} \<and> ascii_upper c = c"
    if "c \<in> set ?t" for c
  proof (rule identifier_char_of)
    have "word_of_nat (of_char c) \<in> set (bytes_of ?t)"
      using that unfolding bytes_of_def by simp
    with s(3) show "identifier_char (word_of_nat (of_char c))"
      by (simp add: list_all_iff)
  qed
  have "string_of d = ?t @ replicate (sz - length s) CHR '' ''"
    by (simp add: d string_of_def char_of_space)
  moreover have "?t \<noteq> []"
    using s(1) by (simp add: string_of_def)
  ultimately have trim: "TrimSpace (string_of d) = ?t"
    using chars by (simp add: TrimSpace_padded)
  have "is_ascii ?t" "map ascii_upper ?t = ?t"
    using chars by (auto simp: is_ascii_def list_all_iff intro: map_idI)
  then have up: "ToUpper uni ?t = ?t"
    by (simp add: ToUpper_def)
  show ?thesis
    using assms s(1,2) unfolding trim padded_identifier_def up
    by (simp add: Let_def d Suc_le_eq)
qed

end
