(* ===== verification/Validate.thy ===== *)
theory Validate
  imports Helpers
begin

text \<open>
  \<^verbatim>\<open>pkg/wire/validate.go\<close>: the stateless packet rules. The rule table and the checks of
  \<^verbatim>\<open>Validate\<close> are translated as they stand, with their string-valued rules and bit sets;
  the packet matrix of \<^verbatim>\<open>docs/protocol-v1.md\<close> (sections 3.1, 6 and 6.1) is stated row
  by row, and the two are proved to accept the same packets.
\<close>

section \<open>Contexts, reasons and rules\<close>

type_synonym Direction = u8

abbreviation (input) ClientToServer :: Direction where "ClientToServer \<equiv> 1"
abbreviation (input) ServerToClient :: Direction where "ServerToClient \<equiv> 2"

type_synonym AdmissionPhase = u8

abbreviation (input) PreAdmission :: AdmissionPhase where "PreAdmission \<equiv> 1"
abbreviation (input) Connected :: AdmissionPhase where "Connected \<equiv> 2"
abbreviation (input) Ready :: AdmissionPhase where "Ready \<equiv> 3"

record ValidationContext =
  cDirection :: Direction
  cPhase :: AdmissionPhase

datatype Reason =
    ReasonMalformed
  | ReasonUnsupportedVersion
  | ReasonInvalidSession
  | ReasonInvalidStream
  | ReasonUnsupportedType
  | ReasonLimitExceeded
  | ReasonTransactionConflict

record ValidationError =
  veReason :: Reason
  veField :: string

definition invalid :: "Reason \<Rightarrow> string \<Rightarrow> ValidationError option" where
  "invalid reason field = Some \<lparr>veReason = reason, veField = field\<rparr>"

record packetRule =
  rDirections :: u8
  rPhases :: u8
  rRequest :: bool
  rResponse :: bool
  rSession :: string
  rStream :: string
  rSequence :: string
  rPayload :: string
  rRequestRequired :: "TLVType list"
  rResponseRequired :: "TLVType list"
  rOptional :: "TLVType list"

abbreviation (input) dirC :: u8 where "dirC \<equiv> 1"
abbreviation (input) dirS :: u8 where "dirS \<equiv> 2"
abbreviation (input) phasePre :: u8 where "phasePre \<equiv> 1"
abbreviation (input) phaseConnected :: u8 where "phaseConnected \<equiv> 2"
abbreviation (input) phaseReady :: u8 where "phaseReady \<equiv> 4"

definition rule :: "u8 \<Rightarrow> u8 \<Rightarrow> bool \<Rightarrow> bool \<Rightarrow> string \<Rightarrow> string \<Rightarrow> string \<Rightarrow> string \<Rightarrow>
    TLVType list \<Rightarrow> TLVType list \<Rightarrow> TLVType list \<Rightarrow> packetRule" where
  "rule d ph rq rs se st sq pl rr sr op = \<lparr>rDirections = d, rPhases = ph, rRequest = rq,
     rResponse = rs, rSession = se, rStream = st, rSequence = sq, rPayload = pl,
     rRequestRequired = rr, rResponseRequired = sr, rOptional = op\<rparr>"

definition rules :: "PacketType \<Rightarrow> packetRule option" where
  "rules = map_of [
     (PacketHello, rule dirC phasePre True False ''zero'' ''zero'' ''zero'' ''empty''
        [TLVTransactionID, TLVNodeCallsign, TLVClientNonce] [] []),
     (PacketChallenge, rule dirS phasePre False True ''zero'' ''zero'' ''zero'' ''empty''
        [] [TLVTransactionID, TLVServerNonce, TLVReflectorID, TLVDisplayName] []),
     (PacketAuthenticate, rule dirC phasePre True False ''zero'' ''zero'' ''zero'' ''empty''
        [TLVTransactionID, TLVClientNonce, TLVServerNonce] [] [TLVAuthenticationTag]),
     (PacketWelcome, rule dirS (phasePre OR phaseConnected) False True ''nonzero'' ''zero'' ''zero'' ''empty''
        [] [TLVTransactionID, TLVReflectorID, TLVDisplayName] []),
     (PacketKeepalive, rule (dirC OR dirS) (phaseConnected OR phaseReady) True True
        ''nonzero'' ''zero'' ''zero'' ''empty'' [TLVTransactionID] [TLVTransactionID] []),
     (PacketDisconnect, rule (dirC OR dirS) (phaseConnected OR phaseReady) True True
        ''nonzero'' ''zero'' ''zero'' ''empty'' [TLVTransactionID] [TLVTransactionID] []),
     (PacketError, rule (dirC OR dirS) (phasePre OR phaseConnected OR phaseReady) False True
        ''any'' ''any'' ''zero'' ''empty'' [] [TLVErrorCode] [TLVTransactionID, TLVErrorText]),
     (PacketStreamRequest, rule dirC phaseReady True False ''nonzero'' ''nonzero'' ''zero'' ''empty''
        [TLVTransactionID, TLVSourceCallsign] [] []),
     (PacketStreamGrant, rule dirS phaseReady False True ''nonzero'' ''nonzero'' ''zero'' ''empty''
        [] [TLVTransactionID, TLVTransmitTimeLimit] []),
     (PacketStreamBusy, rule dirS phaseReady False True ''nonzero'' ''nonzero'' ''zero'' ''empty''
        [] [TLVTransactionID] []),
     (PacketStreamStart, rule (dirC OR dirS) phaseReady True True ''nonzero'' ''nonzero'' ''zero'' ''empty''
        [TLVTransactionID, TLVNodeCallsign, TLVSourceCallsign, TLVTransmitTimeLimit] [TLVTransactionID] []),
     (PacketStreamEnd, rule (dirC OR dirS) phaseReady True True ''nonzero'' ''nonzero'' ''any'' ''empty''
        [TLVTransactionID] [TLVTransactionID, TLVEndReason] []),
     (PacketStreamRevoke, rule (dirC OR dirS) phaseReady True True ''nonzero'' ''nonzero'' ''any'' ''empty''
        [TLVTransactionID, TLVEndReason] [TLVTransactionID] []),
     (PacketAudio, rule (dirC OR dirS) phaseReady True False ''nonzero'' ''nonzero'' ''any'' ''nonempty''
        [] [] []),
     (PacketData, rule (dirC OR dirS) phaseReady True False ''nonzero'' ''nonzero'' ''any'' ''nonempty''
        [TLVDataType] [] [])]"

section \<open>Validation\<close>

text \<open>\<^verbatim>\<open>checkNumber\<close> returns an error; the callers only test it against \<^verbatim>\<open>nil\<close>.\<close>

definition checkNumber :: "string \<Rightarrow> u64 \<Rightarrow> string option" where
  "checkNumber r value =
     (if r = ''zero'' \<and> value \<noteq> 0 then Some ''nonzero''
      else if r = ''nonzero'' \<and> value = 0 then Some ''zero''
      else None)"

definition Validate :: "Packet \<Rightarrow> ValidationContext \<Rightarrow> ValidationError option" where
  "Validate p c =
     (let h = pHeader p in
      if hVersion h \<noteq> Version1 then invalid ReasonUnsupportedVersion ''version''
      else case rules (hType h) of
        None \<Rightarrow> invalid ReasonUnsupportedType ''type''
      | Some r \<Rightarrow>
        if cDirection c \<noteq> ClientToServer \<and> cDirection c \<noteq> ServerToClient
        then invalid ReasonMalformed ''direction''
        else let direction = (if cDirection c = ClientToServer then dirC else dirS) in
        if cPhase c \<noteq> PreAdmission \<and> cPhase c \<noteq> Connected \<and> cPhase c \<noteq> Ready
        then invalid ReasonMalformed ''phase''
        else let phase = (if cPhase c = PreAdmission then phasePre
                          else if cPhase c = Connected then phaseConnected else phaseReady) in
        if rDirections r AND direction = 0 then invalid ReasonUnsupportedType ''direction''
        else if rPhases r AND phase = 0 then invalid ReasonInvalidSession ''phase''
        else let response = (hFlags h AND FlagResponse \<noteq> 0) in
        if hFlags h AND FlagReservedMask \<noteq> 0 \<or> response \<and> hFlags h AND FlagRetry \<noteq> 0 \<or>
           response \<and> \<not> rResponse r \<or> \<not> response \<and> \<not> rRequest r
        then invalid ReasonMalformed ''flags''
        else if (hType h = PacketAudio \<or> hType h = PacketData) \<and> hFlags h \<noteq> 0
        then invalid ReasonMalformed ''flags''
        else if (hType h = PacketStreamStart \<or> hType h = PacketStreamRevoke) \<and>
                ((direction = dirC) \<noteq> response)
        then invalid ReasonMalformed ''flags''
        else if hType h = PacketStreamEnd \<and> ((direction = dirS) \<noteq> response)
        then invalid ReasonMalformed ''flags''
        else if checkNumber (rSession r) (hSessionID h) \<noteq> None
        then invalid ReasonInvalidSession ''session_id''
        else if checkNumber (rStream r) (ucast (hStreamID h)) \<noteq> None
        then invalid ReasonInvalidStream ''stream_id''
        else if rSequence r = ''zero'' \<and> (hSequence h \<noteq> 0 \<or> hTimestamp h \<noteq> 0)
        then invalid ReasonMalformed ''sequence''
        else if rPayload r = ''empty'' \<and> length (pPayload p) \<noteq> 0 \<or>
                rPayload r = ''nonempty'' \<and> length (pPayload p) = 0
        then invalid ReasonMalformed ''payload''
        else let required = (if response then rResponseRequired r else rRequestRequired r);
                 allowed = required @ rOptional r;
                 present = bases (pExtensions p) in
        if list_ex (\<lambda>base. knownTLV base \<and> base \<notin> set allowed) present
        then invalid ReasonMalformed ''extensions''
        else if list_ex (\<lambda>typ. typ \<notin> set present) required
        then invalid ReasonMalformed ''extensions''
        else None)"

section \<open>The packet matrix of the protocol document\<close>

text \<open>
  One row per line of the table in section 6.1, with the directions of the table in section 6.
  \<open>wFlags\<close> are the permitted values of the flag field: \<^verbatim>\<open>RETRY on a retry only\<close> is 0 or \<^verbatim>\<open>RETRY\<close>.
  \<open>BySession\<close> is \<^verbatim>\<open>Session, or zero before admission\<close>. The document has no column for the admission
  phase; \<open>wPhases\<close> reads it off the procedures of sections 7 and 9: the packets of the handshake come before
  admission, those that carry the number of a session after it, and those about streams once the
  session is confirmed.
\<close>

datatype field_rule = Zero | Nonzero | BySession | Unrestricted

record row =
  wType :: PacketType
  wDirections :: "Direction list"
  wPhases :: "AdmissionPhase list"
  wFlags :: "u16 list"
  wSession :: field_rule
  wStream :: field_rule
  wSequence :: field_rule
  wRequired :: "TLVType list"
  wOptional :: "TLVType list"
  wHasPayload :: bool

definition row :: "PacketType \<Rightarrow> Direction list \<Rightarrow> AdmissionPhase list \<Rightarrow> u16 list \<Rightarrow> field_rule \<Rightarrow>
    field_rule \<Rightarrow> field_rule \<Rightarrow> TLVType list \<Rightarrow> TLVType list \<Rightarrow> bool \<Rightarrow> row" where
  "row ty ds ph fl se st sq rq op pl = \<lparr>wType = ty, wDirections = ds, wPhases = ph, wFlags = fl,
     wSession = se, wStream = st, wSequence = sq, wRequired = rq, wOptional = op, wHasPayload = pl\<rparr>"

abbreviation (input) both :: "Direction list" where "both \<equiv> [ClientToServer, ServerToClient]"
abbreviation (input) admitted :: "AdmissionPhase list" where "admitted \<equiv> [Connected, Ready]"
abbreviation (input) retryable :: "u16 list" where "retryable \<equiv> [0, FlagRetry]"
abbreviation (input) responding :: "u16 list" where "responding \<equiv> [FlagResponse]"

definition packet_matrix :: "row list" where
  "packet_matrix = [
     row PacketHello [ClientToServer] [PreAdmission] retryable Zero Zero Zero
       [TLVTransactionID, TLVNodeCallsign, TLVClientNonce] [] False,
     row PacketChallenge [ServerToClient] [PreAdmission] responding Zero Zero Zero
       [TLVTransactionID, TLVServerNonce, TLVReflectorID, TLVDisplayName] [] False,
     row PacketAuthenticate [ClientToServer] [PreAdmission] retryable Zero Zero Zero
       [TLVTransactionID, TLVClientNonce, TLVServerNonce] [TLVAuthenticationTag] False,
     row PacketWelcome [ServerToClient] [PreAdmission] responding Nonzero Zero Zero
       [TLVTransactionID, TLVReflectorID, TLVDisplayName] [] False,
     row PacketKeepalive both admitted retryable Nonzero Zero Zero [TLVTransactionID] [] False,
     row PacketKeepalive both admitted responding Nonzero Zero Zero [TLVTransactionID] [] False,
     row PacketDisconnect both admitted retryable Nonzero Zero Zero [TLVTransactionID] [] False,
     row PacketDisconnect both admitted responding Nonzero Zero Zero [TLVTransactionID] [] False,
     row PacketError both [PreAdmission, Connected, Ready] responding BySession Unrestricted Zero
       [TLVErrorCode] [TLVTransactionID, TLVErrorText] False,
     row PacketStreamRequest [ClientToServer] [Ready] retryable Nonzero Nonzero Zero
       [TLVTransactionID, TLVSourceCallsign] [] False,
     row PacketStreamGrant [ServerToClient] [Ready] responding Nonzero Nonzero Zero
       [TLVTransactionID, TLVTransmitTimeLimit] [] False,
     row PacketStreamBusy [ServerToClient] [Ready] responding Nonzero Nonzero Zero
       [TLVTransactionID] [] False,
     row PacketStreamStart [ServerToClient] [Ready] retryable Nonzero Nonzero Zero
       [TLVTransactionID, TLVNodeCallsign, TLVSourceCallsign, TLVTransmitTimeLimit] [] False,
     row PacketStreamStart [ClientToServer] [Ready] responding Nonzero Nonzero Zero
       [TLVTransactionID] [] False,
     row PacketStreamEnd [ClientToServer] [Ready] retryable Nonzero Nonzero Unrestricted
       [TLVTransactionID] [] False,
     row PacketStreamEnd [ServerToClient] [Ready] responding Nonzero Nonzero Unrestricted
       [TLVTransactionID, TLVEndReason] [] False,
     row PacketStreamRevoke [ServerToClient] [Ready] retryable Nonzero Nonzero Unrestricted
       [TLVTransactionID, TLVEndReason] [] False,
     row PacketStreamRevoke [ClientToServer] [Ready] responding Nonzero Nonzero Unrestricted
       [TLVTransactionID] [] False,
     row PacketAudio both [Ready] [0] Nonzero Nonzero Unrestricted [] [] True,
     row PacketData both [Ready] [0] Nonzero Nonzero Unrestricted [TLVDataType] [] True]"

text \<open>\<open>pre\<close> is whether the packet comes before admission, \<open>z\<close> whether the field is zero.\<close>

fun field_ok :: "bool \<Rightarrow> field_rule \<Rightarrow> bool \<Rightarrow> bool" where
  "field_ok pre Zero z = z"
| "field_ok pre Nonzero z = (\<not> z)"
| "field_ok pre BySession z = (z = pre)"
| "field_ok pre Unrestricted z = True"

definition extensions_ok :: "TLVType list \<Rightarrow> TLVType list \<Rightarrow> TLVType list \<Rightarrow> bool" where
  "extensions_ok required optional present \<longleftrightarrow>
     set required \<subseteq> set present \<and>
     (\<forall>base \<in> set present. knownTLV base \<longrightarrow> base \<in> set required \<union> set optional)"

definition conforms :: "row \<Rightarrow> Packet \<Rightarrow> ValidationContext \<Rightarrow> bool" where
  "conforms w p c \<longleftrightarrow>
     hType (pHeader p) = wType w \<and> cDirection c \<in> set (wDirections w) \<and>
     cPhase c \<in> set (wPhases w) \<and> hFlags (pHeader p) \<in> set (wFlags w) \<and>
     field_ok (cPhase c = PreAdmission) (wSession w) (hSessionID (pHeader p) = 0) \<and>
     field_ok (cPhase c = PreAdmission) (wStream w) (hStreamID (pHeader p) = 0) \<and>
     field_ok (cPhase c = PreAdmission) (wSequence w) (hSequence (pHeader p) = 0 \<and> hTimestamp (pHeader p) = 0) \<and>
     (pPayload p \<noteq> []) = wHasPayload w \<and>
     extensions_ok (wRequired w) (wOptional w) (bases (pExtensions p))"

text \<open>A packet of version 1 that a row of the document allows.\<close>

definition documented :: "Packet \<Rightarrow> ValidationContext \<Rightarrow> bool" where
  "documented p c \<longleftrightarrow> hVersion (pHeader p) = Version1 \<and> list_ex (\<lambda>w. conforms w p c) packet_matrix"

text \<open>
  What the code accepts beyond the document: an \<^verbatim>\<open>ERROR\<close> whose session does not fit the phase (zero after
  admission, nonzero before it), and a \<^verbatim>\<open>WELCOME\<close> that repeats one after admission.
\<close>

definition tolerated :: "Packet \<Rightarrow> ValidationContext \<Rightarrow> bool" where
  "tolerated p c \<longleftrightarrow> hVersion (pHeader p) = Version1 \<and>
     (conforms (row PacketError both [PreAdmission, Connected, Ready] responding Unrestricted Unrestricted Zero
        [TLVErrorCode] [TLVTransactionID, TLVErrorText] False) p c \<and>
        (hSessionID (pHeader p) = 0) \<noteq> (cPhase c = PreAdmission) \<or>
      conforms (row PacketWelcome [ServerToClient] [Connected] responding Nonzero Zero Zero
        [TLVTransactionID, TLVReflectorID, TLVDisplayName] [] False) p c)"

section \<open>Validation decides the matrix\<close>

lemma flags_cases:
  assumes "f AND FlagReservedMask = (0 :: u16)"
  shows "f \<in> {0, 1, 2, 3}"
proof -
  have "(3 OR FlagReservedMask :: u16) = - 1"
    by simp
  then have "f = f AND (3 OR FlagReservedMask)"
    by (metis and.right_neutral)
  also have "\<dots> = f AND 3"
    using assms by (simp only: bit.conj_disj_distrib or.right_neutral)
  finally have "f \<le> 3"
    by (metis word_and_le1)
  then have "unat f \<le> 3"
    by (simp add: word_le_nat_alt)
  then have "unat f \<in> {0, 1, 2, 3}" by auto
  then show ?thesis
    by (auto simp: word_unat_eq_iff)
qed

text \<open>The rule that a packet is checked against, as a predicate.\<close>

definition rule_ok :: "packetRule \<Rightarrow> Packet \<Rightarrow> ValidationContext \<Rightarrow> bool" where
  "rule_ok r p c \<longleftrightarrow>
     (let h = pHeader p; f = hFlags h; resp = (f = FlagResponse);
          toServer = (cDirection c = ClientToServer) in
      (cDirection c = ClientToServer \<or> cDirection c = ServerToClient) \<and>
      (cPhase c = PreAdmission \<or> cPhase c = Connected \<or> cPhase c = Ready) \<and>
      rDirections r AND (if toServer then dirC else dirS) \<noteq> 0 \<and>
      rPhases r AND (if cPhase c = PreAdmission then phasePre
        else if cPhase c = Connected then phaseConnected else phaseReady) \<noteq> 0 \<and>
      (f = FlagResponse \<and> rResponse r \<or> (f = 0 \<or> f = FlagRetry) \<and> rRequest r) \<and>
      (hType h = PacketAudio \<or> hType h = PacketData \<longrightarrow> f = 0) \<and>
      (hType h = PacketStreamStart \<or> hType h = PacketStreamRevoke \<longrightarrow> toServer = resp) \<and>
      (hType h = PacketStreamEnd \<longrightarrow> toServer \<noteq> resp) \<and>
      checkNumber (rSession r) (hSessionID h) = None \<and>
      checkNumber (rStream r) (ucast (hStreamID h)) = None \<and>
      (rSequence r = ''zero'' \<longrightarrow> hSequence h = 0 \<and> hTimestamp h = 0) \<and>
      (rPayload r = ''empty'' \<longrightarrow> pPayload p = []) \<and>
      (rPayload r = ''nonempty'' \<longrightarrow> pPayload p \<noteq> []) \<and>
      extensions_ok (if resp then rResponseRequired r else rRequestRequired r) (rOptional r)
        (bases (pExtensions p)))"

lemma flags_condition:
  "\<not> (f AND FlagReservedMask \<noteq> 0 \<or> f AND FlagResponse \<noteq> 0 \<and> f AND FlagRetry \<noteq> 0 \<or>
      f AND FlagResponse \<noteq> 0 \<and> \<not> rs \<or> \<not> f AND FlagResponse \<noteq> 0 \<and> \<not> rq)
   \<longleftrightarrow> (f = FlagResponse \<and> rs \<or> (f = 0 \<or> f = FlagRetry) \<and> rq)" for f :: u16
proof (cases "f AND FlagReservedMask = 0")
  case True
  from flags_cases [OF True] show ?thesis by auto
next
  case False
  then show ?thesis by auto
qed

lemma if_Some_None: "(if b then Some x else y) = None \<longleftrightarrow> \<not> b \<and> y = None"
  by simp

lemma list_ex_conditions:
  "\<not> list_ex (\<lambda>base. knownTLV base \<and> base \<notin> set (rq @ op)) present \<and>
   \<not> list_ex (\<lambda>typ. typ \<notin> set present) rq \<longleftrightarrow> extensions_ok rq op present"
  by (auto simp: extensions_ok_def list_ex_iff)

lemma Validate_None_iff:
  "Validate p c = None \<longleftrightarrow>
     hVersion (pHeader p) = Version1 \<and> (\<exists>r. rules (hType (pHeader p)) = Some r \<and> rule_ok r p c)"
proof (cases "rules (hType (pHeader p))")
  case None
  then show ?thesis by (simp add: Validate_def invalid_def Let_def)
next
  case (Some r)
  let ?h = "pHeader p"
  let ?f = "hFlags ?h"
  have resp: "?f AND FlagResponse \<noteq> 0 \<longleftrightarrow> ?f = FlagResponse"
    if "?f = FlagResponse \<and> rs \<or> (?f = 0 \<or> ?f = FlagRetry) \<and> rq" for rs rq
    using that by auto
  have one: "(\<exists>r'. Some r = Some r' \<and> rule_ok r' p c) = rule_ok r p c"
    by simp
  have payload: "(\<not> (e \<and> xs \<noteq> [] \<or> ne \<and> xs = []) \<and> Q) = ((e \<longrightarrow> xs = []) \<and> (ne \<longrightarrow> xs \<noteq> []) \<and> Q)"
    for e ne Q and xs :: bytes
    by auto
  show ?thesis
  proof (cases "?f = FlagResponse \<and> rResponse r \<or> (?f = 0 \<or> ?f = FlagRetry) \<and> rRequest r")
    case False
    then show ?thesis
      unfolding Some one
      unfolding Validate_def rule_ok_def Let_def Some option.case invalid_def if_Some_None flags_condition
      by (simp only: simp_thms)
  next
    case True
    have ext: "(\<not> list_ex (\<lambda>base. knownTLV base \<and> base \<notin> set (rq @ op)) present \<and>
        \<not> list_ex (\<lambda>typ. typ \<notin> set present) rq \<and> None = None) = extensions_ok rq op present"
      for rq op present by (simp only: list_ex_conditions simp_thms)
    have dir: "((if d then 1 else 2 :: u8) = 1) = d" "((if d then 1 else 2 :: u8) = 2) = (\<not> d)" for d
      by simp_all
    show ?thesis
      unfolding Some one
      unfolding Validate_def rule_ok_def Let_def Some option.case invalid_def if_Some_None
        length_0_conv payload flags_condition ext
      unfolding resp [OF True] dir
      by (intro arg_cong2 [where f = "(\<and>)"] refl; auto)
  qed
qed

lemma stream_zero: "(ucast (s :: u32) :: u64) = 0 \<longleftrightarrow> s = 0"
  using unsigned_less [of s, where ?'a = nat]
  by (simp add: word_unat_eq_iff unsigned_ucast_eq take_bit_nat_eq_self)

definition packet_types :: "PacketType list" where
  "packet_types = [PacketHello, PacketChallenge, PacketAuthenticate, PacketWelcome,
     PacketKeepalive, PacketDisconnect, PacketError, PacketStreamRequest, PacketStreamGrant,
     PacketStreamBusy, PacketStreamStart, PacketStreamEnd, PacketStreamRevoke, PacketAudio, PacketData]"

lemma rules_Some_types: "rules ty = Some r \<Longrightarrow> ty \<in> set packet_types"
  unfolding rules_def packet_types_def by (drule map_of_SomeD) auto

lemma matrix_types: "w \<in> set packet_matrix \<Longrightarrow> wType w \<in> set packet_types"
  by (auto simp: packet_matrix_def row_def packet_types_def)

lemma rule_masks:
  "1 AND (if b then 1 else 2) \<noteq> (0::u8) \<longleftrightarrow> b"
  "2 AND (if b then 1 else 2) \<noteq> (0::u8) \<longleftrightarrow> \<not> b"
  "3 AND (if b then 1 else 2) \<noteq> (0::u8)"
  "1 AND (if b then 1 else if b' then 2 else 4) \<noteq> (0::u8) \<longleftrightarrow> b"
  "3 AND (if b then 1 else if b' then 2 else 4) \<noteq> (0::u8) \<longleftrightarrow> b \<or> b'"
  "4 AND (if b then 1 else if b' then 2 else 4) \<noteq> (0::u8) \<longleftrightarrow> \<not> b \<and> \<not> b'"
  "6 AND (if b then 1 else if b' then 2 else 4) \<noteq> (0::u8) \<longleftrightarrow> \<not> b"
  "7 AND (if b then 1 else if b' then 2 else 4) \<noteq> (0::u8)"
  by simp_all

lemmas matrix_defs = documented_def tolerated_def rules_def rule_ok_def rule_def packet_matrix_def conforms_def row_def Let_def
  checkNumber_def stream_zero rule_masks

text \<open>Packet type by packet type, the rule and the rows of the matrix say the same.\<close>

lemma rules_matrix:
  "(\<exists>r. rules (hType (pHeader p)) = Some r \<and> rule_ok r p c) \<and> hVersion (pHeader p) = Version1 \<longleftrightarrow>
    documented p c \<or> tolerated p c"
proof (cases "hType (pHeader p) \<in> set packet_types")
  case False
  then have "rules (hType (pHeader p)) = None" using rules_Some_types by (cases "rules (hType (pHeader p))") auto
  moreover have "\<not> documented p c"
    using False matrix_types unfolding documented_def list_ex_iff conforms_def by metis
  moreover have "\<not> tolerated p c"
    using False unfolding tolerated_def conforms_def row_def packet_types_def by auto
  ultimately show ?thesis by simp
next
  case True
  then consider "hType (pHeader p) = PacketHello" | "hType (pHeader p) = PacketChallenge"
    | "hType (pHeader p) = PacketAuthenticate" | "hType (pHeader p) = PacketWelcome"
    | "hType (pHeader p) = PacketKeepalive" | "hType (pHeader p) = PacketDisconnect"
    | "hType (pHeader p) = PacketError" | "hType (pHeader p) = PacketStreamRequest"
    | "hType (pHeader p) = PacketStreamGrant" | "hType (pHeader p) = PacketStreamBusy"
    | "hType (pHeader p) = PacketStreamStart" | "hType (pHeader p) = PacketStreamEnd"
    | "hType (pHeader p) = PacketStreamRevoke" | "hType (pHeader p) = PacketAudio"
    | "hType (pHeader p) = PacketData"
    unfolding packet_types_def by auto
  then show ?thesis
    by cases (simp add: matrix_defs; force)+
qed

lemma documented_not_tolerated: "\<not> (documented p c \<and> tolerated p c)"
  by (auto simp: documented_def tolerated_def packet_matrix_def conforms_def row_def)

end
