(* ===== verification/WireProps.thy ===== *)
theory WireProps
  imports Validate Helpers
begin

text \<open>
  The theorems about the wire format: the codec round trips, its canonicity, the absence of
  panics, the conformance of the validation table to the documented packet matrix, and the
  round trip of identifiers.
\<close>

text \<open>A keepalive request of session 5 with transaction 9, and its datagram.\<close>

abbreviation (input) demo_packet :: Packet where
  "demo_packet \<equiv> \<lparr>pHeader = zeroHeader\<lparr>hVersion := 1, hType := PacketKeepalive, hSessionID := 5\<rparr>,
     pExtensions = [Uint64TLV TLVTransactionID 9], pPayload = []\<rparr>"

lemmas demo_simps = wf_packet_def wf_tlv_def validateTLVValue_def Uint64TLV_def tlv_def
  knownTLV_def baseTLV_def bases_def headerLengthOf_def tlvSizeOf_def alignedTLVSize_eq zeroHeader_def

text \<open>
  C1. Decoding inverts encoding: whatever the encoder accepts, the decoder accepts its
  datagram and returns the packet, with the two length fields filled in.
\<close>

theorem decode_encode:
  assumes "Encode p = ok d"
  shows "Decode d = ok (with_lengths p)"
  using wire.dec_enc [of p d] assms by simp

theorem decode_encode_witness:
  "Decode (layout demo_packet) = ok (with_lengths demo_packet)"
proof (rule decode_encode)
  have "wf_packet demo_packet" by (simp add: demo_simps)
  then show "Encode demo_packet = ok (layout demo_packet)" by (simp only: Encode_ok_iff)
qed

text \<open>
  C2. The wire format is canonical: a datagram that decodes is the one encoding of what it
  decodes to, so that no two datagrams carry the same packet.
\<close>

theorem encode_decode:
  assumes "Decode d = ok p"
  shows "Encode p = ok d"
  using wire.enc_dec [of d p] assms by simp

theorem encode_decode_witness:
  "Encode (with_lengths demo_packet) = ok (layout demo_packet)"
proof (rule encode_decode)
  show "Decode (layout demo_packet) = ok (with_lengths demo_packet)" by code_simp
qed

text \<open>
  The codec never panics: on every datagram and on every packet both functions return,
  with a value or an error, and every slice they take is in bounds.
\<close>

theorem codec_never_panics: "Decode d \<noteq> None \<and> Encode p \<noteq> None"
  by (simp add: Decode_total Encode_total)

text \<open>
  The encoder writes exactly the reference layout, the fields in network order without
  gap or overlap, and accepts exactly the well-formed packets; a datagram it produces has
  between 32 and 1200 bytes.
\<close>

theorem encode_is_layout:
  "(Encode p = ok d) = (wf_packet p \<and> d = layout p \<and> 32 \<le> length d \<and> length d \<le> 1200)"
  by (auto simp: Encode_ok_iff length_layout wf_packet_def headerLengthOf_def)

text \<open>
  Fingerprints separate packets: the encodings of two packets, which the server compares
  to recognise a repeated request, are equal only if the packets agree in everything but the
  length fields.
\<close>

theorem fingerprint_injective:
  assumes "Encode p = ok d" and "Encode q = ok d'"
  shows "d = d' \<longleftrightarrow> with_lengths p = with_lengths q"
  using wire.enc_eq_iff [of p d q d'] assms by simp

theorem fingerprint_injective_witness:
  "layout demo_packet \<noteq> layout (demo_packet\<lparr>pExtensions := [Uint64TLV TLVTransactionID 10]\<rparr>)"
proof -
  let ?q = "demo_packet\<lparr>pExtensions := [Uint64TLV TLVTransactionID 10]\<rparr>"
  have w: "wf_packet demo_packet" "wf_packet ?q" by (simp_all add: demo_simps)
  from w(1) have p: "Encode demo_packet = ok (layout demo_packet)" by (simp only: Encode_ok_iff)
  from w(2) have q: "Encode ?q = ok (layout ?q)" by (simp only: Encode_ok_iff)
  have "with_lengths demo_packet \<noteq> with_lengths ?q" by code_simp
  with fingerprint_injective [OF p q] show ?thesis by simp
qed


text \<open>
  Callsigns survive the server: the callsign of a decoded packet, trimmed to text as
  the server stores it, encodes back to the same ten bytes.
\<close>

theorem callsign_roundtrip:
  assumes "Decode d = ok p" and "Find p typ = Some v" and "typ \<in> {TLVNodeCallsign, TLVSourceCallsign}"
  shows "Callsign uni (TrimSpace (string_of v)) = Inr v"
proof -
  from Decode_canonical [OF assms(1)] have "wf_packet p" by simp
  from Find_valid [OF this assms(2)] assms(3) have "validPaddedIdentifier v CallsignSize"
    by (auto simp: validateTLVValue_def Let_def split: if_splits)
  then show ?thesis unfolding Callsign_def by (rule padded_identifier_roundtrip)
qed

theorem callsign_roundtrip_witness:
  "Callsign (\<lambda>s. s) (TrimSpace (string_of (bytes_of ''N0CALL    ''))) = Inr (bytes_of ''N0CALL    '')"
proof -
  let ?p = "demo_packet\<lparr>pExtensions := [tlv TLVNodeCallsign (bytes_of ''N0CALL    '')]\<rparr>"
  have d: "Decode (layout ?p) = ok (with_lengths ?p)" by code_simp
  have f: "Find (with_lengths ?p) TLVNodeCallsign = Some (bytes_of ''N0CALL    '')" by code_simp
  show ?thesis by (rule callsign_roundtrip [OF d f]) simp
qed

end
