(* ===== verification/Engine.thy ===== *)
theory Engine
  imports GoStd Systems "HOL-Library.Multiset"
begin

text \<open>
  \<^verbatim>\<open>pkg/server/engine.go\<close>: the policy engine of the reflector. It owns the sessions, the
  floor (who may transmit) and a cache of completed transactions. Each exported method is
  one definition; the mutex of the source makes every method atomic, so a method is a
  function on the engine's state.

  The injected clock is a function from the number of a reading to the instant it returns:
  a method that reads the clock twice gets two readings. Nothing is assumed of the readings
  unless a lemma says so.
\<close>

section \<open>State\<close>

record Limits =
  MaxClients :: int
  MaxCompletedTransactions :: int
  SessionTimeout :: duration
  GrantTimeout :: duration
  MediaTimeout :: duration
  TransmitTimeLimit :: duration

definition Limits_defaults :: "Limits \<Rightarrow> Limits" where
  "Limits_defaults l =
     \<lparr>MaxClients = (if MaxClients l = 0 then 100 else MaxClients l),
      MaxCompletedTransactions =
        (if MaxCompletedTransactions l = 0 then 1024 else MaxCompletedTransactions l),
      SessionTimeout = (if SessionTimeout l = 0 then 30 * Second else SessionTimeout l),
      GrantTimeout = (if GrantTimeout l = 0 then 2 * Second else GrantTimeout l),
      MediaTimeout = (if MediaTimeout l = 0 then Second else MediaTimeout l),
      TransmitTimeLimit = (if TransmitTimeLimit l = 0 then 180 * Second else TransmitTimeLimit l)\<rparr>"

record session =
  sAddress :: string
  sCallsign :: string
  sReady :: bool
  sLast :: time

datatype FloorResult = FloorGranted | FloorBusy | FloorRejected

datatype EndReason =
    EndNormal
  | EndOwnerDisconnect
  | EndGrantTimeout
  | EndMediaInactivity
  | EndTransmitTimeLimit
  | EndServerShutdown

datatype engine_error = ErrInvalidSession | ErrAddressMismatch | ErrInvalidStream

record FloorSnapshot =
  fsActive :: bool
  fsSessionID :: u64
  fsStreamID :: u32
  fsSourceCallsign :: string
  fsNodeCallsign :: string
  fsStartedAt :: time
  fsLastFrameAt :: time
  fsRemaining :: duration

record Snapshot =
  snReady :: bool
  snSessions :: nat
  snSequenceGaps :: u64
  snFloor :: FloorSnapshot

record Fanout =
  foSessionID :: u64
  foStreamID :: u32
  foSequence :: u32
  foTimestamp :: u32
  foPayload :: bytes

record StreamEnd =
  seSessionID :: u64
  seStreamID :: u32
  seReason :: EndReason
  seSequence :: u32
  seTimestamp :: u32
  seDuration :: duration

record floor =
  fOwner :: u64
  fStream :: u32
  fSource :: string
  fGranted :: time
  fFirstMedia :: time
  fLastMedia :: time
  fPrior :: u32
  fTimestamp :: u32
  fHasPrior :: bool

record TransactionKey =
  kSessionID :: u64
  kType :: u8
  kID :: u64

record transaction =
  tFingerprint :: bytes
  tResult :: bytes
  tAt :: time

datatype TransactionState =
  TransactionStored | TransactionDuplicate | TransactionConflict | TransactionOverloaded

record Engine =
  limits :: Limits
  clock :: "nat \<Rightarrow> time"
  readings :: nat
  sessions :: "(u64, session) gomap"
  floor_of :: "floor option"
  tx :: "(TransactionKey, transaction) gomap"
  gaps :: u64
  draining :: bool

section \<open>Methods\<close>

text \<open>One call of \<^verbatim>\<open>e.now()\<close>.\<close>

definition now :: "Engine \<Rightarrow> time \<times> Engine" where
  "now e = (clock e (readings e), e\<lparr>readings := Suc (readings e)\<rparr>)"

definition NewEngine :: "Limits \<Rightarrow> (nat \<Rightarrow> time) \<Rightarrow> Engine" where
  "NewEngine l c = \<lparr>limits = Limits_defaults l, clock = c, readings = 0, sessions = [],
     floor_of = None, tx = [], gaps = 0, draining = False\<rparr>"

definition AddSession :: "u64 \<Rightarrow> string \<Rightarrow> string \<Rightarrow> bool \<Rightarrow> Engine \<Rightarrow> bool \<times> Engine" where
  "AddSession sid address callsign ready e =
     (if draining e \<or> sid = 0 \<or> map_of (sessions e) sid \<noteq> None \<or>
         int (length (sessions e)) \<ge> MaxClients (limits e)
      then (False, e)
      else let (t, e) = now e in
        (True, e\<lparr>sessions := AList.update sid
           \<lparr>sAddress = address, sCallsign = callsign, sReady = ready, sLast = t\<rparr> (sessions e)\<rparr>))"

definition SetReady :: "u64 \<Rightarrow> Engine \<Rightarrow> bool \<times> Engine" where
  "SetReady sid e =
     (case map_of (sessions e) sid of
        None \<Rightarrow> (False, e)
      | Some s \<Rightarrow> let (t, e) = now e in
          (True, e\<lparr>sessions := AList.update sid (s\<lparr>sReady := True, sLast := t\<rparr>) (sessions e)\<rparr>))"

definition Touch :: "u64 \<Rightarrow> string \<Rightarrow> Engine \<Rightarrow> bool \<times> Engine" where
  "Touch sid address e =
     (case map_of (sessions e) sid of
        None \<Rightarrow> (False, e)
      | Some s \<Rightarrow>
          if sAddress s \<noteq> address then (False, e)
          else let (t, e) = now e in
            (True, e\<lparr>sessions := AList.update sid (s\<lparr>sLast := t\<rparr>) (sessions e)\<rparr>))"

definition RequestFloor :: "u64 \<Rightarrow> u32 \<Rightarrow> string \<Rightarrow> Engine \<Rightarrow> FloorResult \<times> Engine" where
  "RequestFloor sid stream source e =
     (case map_of (sessions e) sid of
        None \<Rightarrow> (FloorRejected, e)
      | Some s \<Rightarrow>
          if draining e \<or> \<not> sReady s \<or> stream = 0 then (FloorRejected, e)
          else let (t, e) = now e;
                   e = e\<lparr>sessions := AList.update sid (s\<lparr>sLast := t\<rparr>) (sessions e)\<rparr> in
            if floor_of e \<noteq> None then (FloorBusy, e)
            else let (g, e) = now e in
              (FloorGranted, e\<lparr>floor_of := Some \<lparr>fOwner = sid, fStream = stream, fSource = source,
                 fGranted = g, fFirstMedia = 0, fLastMedia = 0, fPrior = 0, fTimestamp = 0,
                 fHasPrior = False\<rparr>\<rparr>))"

text \<open>
  The sequence check of \<^verbatim>\<open>Media\<close>: the new value of \<^verbatim>\<open>firstMedia\<close> and the gap to add to the
  counter, or \<^term>\<open>None\<close> where the source returns \<^verbatim>\<open>ErrInvalidStream\<close>. The subtraction wraps
  at 32 bits; a distance of at least 2^31 is a packet from the past.
\<close>

definition check_sequence :: "floor \<Rightarrow> time \<Rightarrow> u32 \<Rightarrow> (time \<times> u64) option" where
  "check_sequence f t sequence =
     (if IsZero (fFirstMedia f) then
        if sequence \<noteq> 0 then None else Some (t, 0)
      else if fHasPrior f then
        let expected = fPrior f + 1; delta = sequence - expected in
        if delta > 0 \<and> delta < push_bit 31 1 then Some (fFirstMedia f, ucast delta)
        else if delta \<ge> push_bit 31 1 then None
        else Some (fFirstMedia f, 0)
      else Some (fFirstMedia f, 0))"

definition fanout :: "u64 \<Rightarrow> u32 \<Rightarrow> u32 \<Rightarrow> u32 \<Rightarrow> bytes \<Rightarrow> (u64, session) gomap \<Rightarrow> Fanout list" where
  "fanout sid stream sequence timestamp payload ss =
     map (\<lambda>(lid, listener). \<lparr>foSessionID = lid, foStreamID = stream, foSequence = sequence,
            foTimestamp = timestamp, foPayload = payload\<rparr>)
       (filter (\<lambda>(lid, listener). lid \<noteq> sid \<and> sReady listener) ss)"

definition Media :: "u64 \<Rightarrow> string \<Rightarrow> u32 \<Rightarrow> u32 \<Rightarrow> u32 \<Rightarrow> bytes \<Rightarrow> Engine \<Rightarrow>
    (engine_error + Fanout list) \<times> Engine" where
  "Media sid address stream sequence timestamp payload e =
     (case map_of (sessions e) sid of
        None \<Rightarrow> (Inl ErrInvalidSession, e)
      | Some s \<Rightarrow>
          if sAddress s \<noteq> address then (Inl ErrAddressMismatch, e)
          else case floor_of e of
            None \<Rightarrow> (Inl ErrInvalidStream, e)
          | Some f \<Rightarrow>
              if draining e \<or> fOwner f \<noteq> sid \<or> fStream f \<noteq> stream then (Inl ErrInvalidStream, e)
              else let (t, e) = now e in
                case check_sequence f t sequence of
                  None \<Rightarrow> (Inl ErrInvalidStream, e)
                | Some (first, gap) \<Rightarrow>
                    let e = e\<lparr>gaps := gaps e + gap,
                              sessions := AList.update sid (s\<lparr>sLast := t\<rparr>) (sessions e),
                              floor_of := Some (f\<lparr>fFirstMedia := first, fPrior := sequence,
                                fTimestamp := timestamp, fHasPrior := True, fLastMedia := t\<rparr>)\<rparr> in
                    (Inr (fanout sid stream sequence timestamp payload (sessions e)), e))"

definition releaseLocked :: "u64 \<Rightarrow> EndReason \<Rightarrow> Engine \<Rightarrow> StreamEnd option \<times> Engine" where
  "releaseLocked sid reason e =
     (case floor_of e of
        None \<Rightarrow> (None, e)
      | Some f \<Rightarrow>
          if fOwner f \<noteq> sid then (None, e)
          else let end = \<lparr>seSessionID = sid, seStreamID = fStream f, seReason = reason,
                          seSequence = 0, seTimestamp = 0, seDuration = 0\<rparr> in
            if \<not> IsZero (fFirstMedia f) then
              let (t, e) = now e in
              (Some (end\<lparr>seSequence := fPrior f + 1, seTimestamp := fTimestamp f,
                 seDuration := Sub t (fFirstMedia f)\<rparr>), e\<lparr>floor_of := None\<rparr>)
            else (Some end, e\<lparr>floor_of := None\<rparr>))"

definition End :: "u64 \<Rightarrow> u32 \<Rightarrow> u32 \<Rightarrow> u32 \<Rightarrow> EndReason \<Rightarrow> Engine \<Rightarrow>
    (engine_error + StreamEnd option) \<times> Engine" where
  "End sid stream sequence timestamp reason e =
     (case floor_of e of
        None \<Rightarrow> (Inl ErrInvalidStream, e)
      | Some f \<Rightarrow>
          if fOwner f \<noteq> sid \<or> fStream f \<noteq> stream then (Inl ErrInvalidStream, e)
          else let (expectedSequence, expectedTimestamp) =
                     (if fHasPrior f then (fPrior f + 1, fTimestamp f) else (0, 0)) in
            if sequence \<noteq> expectedSequence \<or> timestamp \<noteq> expectedTimestamp
            then (Inl ErrInvalidStream, e)
            else let (end, e) = releaseLocked sid reason e in (Inr end, e))"

definition Disconnect :: "u64 \<Rightarrow> Engine \<Rightarrow> StreamEnd option \<times> Engine" where
  "Disconnect sid e = releaseLocked sid EndOwnerDisconnect (e\<lparr>sessions := AList.delete sid (sessions e)\<rparr>)"

text \<open>
  The session loop of \<^verbatim>\<open>Tick\<close>: it visits the sessions, deletes the expired ones and stops
  early with the end of the stream when it has deleted the floor owner.
\<close>

fun tick_sessions :: "time \<Rightarrow> (u64, session) gomap \<Rightarrow> Engine \<Rightarrow> StreamEnd option \<times> Engine" where
  "tick_sessions t [] e = (None, e)"
| "tick_sessions t ((sid, s) # rest) e =
     (if Sub t (sLast s) > SessionTimeout (limits e) then
        let e = e\<lparr>sessions := AList.delete sid (sessions e)\<rparr>;
            (end, e) = releaseLocked sid EndOwnerDisconnect e in
        (case end of
           Some x \<Rightarrow> (Some x, e)
         | None \<Rightarrow> tick_sessions t rest e)
      else tick_sessions t rest e)"

definition tick_floor :: "time \<Rightarrow> Engine \<Rightarrow> StreamEnd option \<times> Engine" where
  "tick_floor t e =
     (case floor_of e of
        None \<Rightarrow> (None, e)
      | Some f \<Rightarrow>
          if IsZero (fFirstMedia f) \<and> Sub t (fGranted f) > GrantTimeout (limits e)
          then releaseLocked (fOwner f) EndGrantTimeout e
          else if \<not> IsZero (fFirstMedia f) \<and> Sub t (fLastMedia f) > MediaTimeout (limits e)
          then releaseLocked (fOwner f) EndMediaInactivity e
          else if \<not> IsZero (fFirstMedia f) \<and> Sub t (fFirstMedia f) > TransmitTimeLimit (limits e)
          then releaseLocked (fOwner f) EndTransmitTimeLimit e
          else (None, e))"

definition Tick :: "Engine \<Rightarrow> StreamEnd option \<times> Engine" where
  "Tick e =
     (let (t, e) = now e; (end, e) = tick_sessions t (sessions e) e in
      case end of
        Some x \<Rightarrow> (Some x, e)
      | None \<Rightarrow> tick_floor t e)"

definition BeginShutdown :: "Engine \<Rightarrow> StreamEnd option \<times> Engine" where
  "BeginShutdown e =
     (if draining e then (None, e)
      else let e = e\<lparr>draining := True\<rparr> in
        case floor_of e of
          None \<Rightarrow> (None, e)
        | Some f \<Rightarrow> releaseLocked (fOwner f) EndServerShutdown e)"

definition zeroFloorSnapshot :: FloorSnapshot where
  "zeroFloorSnapshot = \<lparr>fsActive = False, fsSessionID = 0, fsStreamID = 0, fsSourceCallsign = [],
     fsNodeCallsign = [], fsStartedAt = 0, fsLastFrameAt = 0, fsRemaining = 0\<rparr>"

definition Snapshot :: "Engine \<Rightarrow> Snapshot \<times> Engine" where
  "Snapshot e =
     (let s = \<lparr>snReady = \<not> draining e, snSessions = length (sessions e),
               snSequenceGaps = gaps e, snFloor = zeroFloorSnapshot\<rparr> in
      case floor_of e of
        None \<Rightarrow> (s, e)
      | Some f \<Rightarrow>
          let node = (case map_of (sessions e) (fOwner f) of None \<Rightarrow> [] | Some owner \<Rightarrow> sCallsign owner);
              (remaining, e) =
                (if \<not> IsZero (fFirstMedia f) then
                   let (t, e) = now e;
                       r = wrap64 (TransmitTimeLimit (limits e) - Sub t (fFirstMedia f)) in
                   (if r < 0 then 0 else r, e)
                 else (TransmitTimeLimit (limits e), e)) in
          (s\<lparr>snFloor := \<lparr>fsActive = True, fsSessionID = fOwner f, fsStreamID = fStream f,
              fsSourceCallsign = fSource f, fsNodeCallsign = node, fsStartedAt = fFirstMedia f,
              fsLastFrameAt = fLastMedia f, fsRemaining = remaining\<rparr>\<rparr>, e))"

definition Transaction :: "TransactionKey \<Rightarrow> bytes \<Rightarrow> bytes \<Rightarrow> Engine \<Rightarrow>
    (bytes option \<times> TransactionState) \<times> Engine" where
  "Transaction key fingerprint result e =
     (case map_of (tx e) key of
        Some old \<Rightarrow>
          if tFingerprint old \<noteq> fingerprint then ((None, TransactionConflict), e)
          else ((Some (tResult old), TransactionDuplicate), e)
      | None \<Rightarrow>
          if int (length (tx e)) \<ge> MaxCompletedTransactions (limits e)
          then ((None, TransactionOverloaded), e)
          else let (t, e) = now e in
            ((Some result, TransactionStored),
             e\<lparr>tx := AList.update key \<lparr>tFingerprint = fingerprint, tResult = result, tAt = t\<rparr> (tx e)\<rparr>))"

end
