(* ===== verification/EngineLaws.thy ===== *)
theory EngineLaws
  imports Engine
begin

text \<open>
  The laws of the policy engine: the invariant that every method keeps, the abstract
  machine of the floor that the methods refine, and what each method answers.
\<close>

section \<open>The invariant\<close>

definition floor_ok :: "Engine \<Rightarrow> floor \<Rightarrow> bool" where
  "floor_ok e f \<longleftrightarrow> fStream f \<noteq> 0 \<and> \<not> draining e \<and>
     (case map_of (sessions e) (fOwner f) of None \<Rightarrow> False | Some s \<Rightarrow> sReady s) \<and>
     (\<not> IsZero (fFirstMedia f) \<longrightarrow> fHasPrior f)"

definition engine_inv :: "Engine \<Rightarrow> bool" where
  "engine_inv e \<longleftrightarrow> wf_map (sessions e) \<and> wf_map (tx e) \<and> map_of (sessions e) 0 = None \<and>
     int (length (sessions e)) \<le> max 0 (MaxClients (limits e)) \<and>
     int (length (tx e)) \<le> max 0 (MaxCompletedTransactions (limits e)) \<and>
     (case floor_of e of None \<Rightarrow> True | Some f \<Rightarrow> floor_ok e f)"

lemma length_delete_le: "length (AList.delete k m) \<le> length m"
  by (simp add: AList.delete_eq)

lemma engine_invD:
  assumes "engine_inv e"
  shows "wf_map (sessions e)" and "wf_map (tx e)" and "map_of (sessions e) 0 = None"
    and "floor_of e = Some f \<Longrightarrow> floor_ok e f"
    and "floor_of e = Some f \<Longrightarrow> \<exists>s. map_of (sessions e) (fOwner f) = Some s \<and> sReady s"
    and "floor_of e = Some f \<Longrightarrow> \<not> draining e"
    and "floor_of e = Some f \<Longrightarrow> fOwner f \<noteq> 0"
    and "floor_of e = Some f \<Longrightarrow> fStream f \<noteq> 0"
  using assms by (auto simp: engine_inv_def floor_ok_def split: option.splits)

text \<open>What the methods do to the parts of the state that the invariant reads.\<close>

lemma now_simps [simp]:
  "fst (now e) = clock e (readings e)"
  "snd (now e) = e\<lparr>readings := Suc (readings e)\<rparr>"
  by (simp_all add: now_def)

lemma engine_inv_readings [simp]: "engine_inv (e\<lparr>readings := n\<rparr>) = engine_inv e"
  by (simp add: engine_inv_def floor_ok_def split: option.splits)

lemma engine_inv_gaps [simp]: "engine_inv (e\<lparr>gaps := g\<rparr>) = engine_inv e"
  by (simp add: engine_inv_def floor_ok_def split: option.splits)

text \<open>Writing back a session that stays ready keeps the invariant.\<close>

lemma engine_inv_update_session:
  assumes "engine_inv e" and "map_of (sessions e) sid = Some s" and "sReady s \<longrightarrow> sReady s'"
  shows "engine_inv (e\<lparr>sessions := AList.update sid s' (sessions e)\<rparr>)"
  using assms by (auto simp: engine_inv_def floor_ok_def map_simps split: option.splits if_splits)

lemma engine_inv_floor_None: "engine_inv e \<Longrightarrow> engine_inv (e\<lparr>floor_of := None\<rparr>)"
  by (simp add: engine_inv_def)

lemma engine_inv_floor_Some: "engine_inv e \<Longrightarrow> floor_ok e f \<Longrightarrow> engine_inv (e\<lparr>floor_of := Some f\<rparr>)"
  by (simp add: engine_inv_def floor_ok_def)

text \<open>Releasing the floor after the owner's session is gone restores the invariant.\<close>

definition released :: "u64 \<Rightarrow> EndReason \<Rightarrow> floor \<Rightarrow> time \<Rightarrow> StreamEnd" where
  "released sid reason f t =
     \<lparr>seSessionID = sid, seStreamID = fStream f, seReason = reason,
      seSequence = (if IsZero (fFirstMedia f) then 0 else fPrior f + 1),
      seTimestamp = (if IsZero (fFirstMedia f) then 0 else fTimestamp f),
      seDuration = (if IsZero (fFirstMedia f) then 0 else Sub t (fFirstMedia f))\<rparr>"

lemma releaseLocked_eq:
  "releaseLocked sid reason e =
     (case floor_of e of
        None \<Rightarrow> (None, e)
      | Some f \<Rightarrow> if fOwner f \<noteq> sid then (None, e)
          else (Some (released sid reason f (clock e (readings e))),
                e\<lparr>floor_of := None,
                   readings := readings e + (if IsZero (fFirstMedia f) then 0 else 1)\<rparr>))"
  by (simp add: releaseLocked_def released_def now_def Let_def split: option.splits)

lemma releaseLocked_cases:
  obtains (kept) "fst (releaseLocked sid reason e) = None" "snd (releaseLocked sid reason e) = e"
      "\<And>f. floor_of e = Some f \<Longrightarrow> fOwner f \<noteq> sid"
  | (released) f n where "floor_of e = Some f" "fOwner f = sid"
      "fst (releaseLocked sid reason e) = Some (released sid reason f (clock e (readings e)))"
      "snd (releaseLocked sid reason e) = e\<lparr>floor_of := None, readings := n\<rparr>"
  by (cases "floor_of e") (auto simp: releaseLocked_eq split: if_splits)

lemma engine_inv_release: "engine_inv e \<Longrightarrow> engine_inv (snd (releaseLocked sid reason e))"
  by (auto simp: releaseLocked_eq engine_inv_floor_None split: option.splits)

lemma engine_inv_delete_release:
  assumes "engine_inv e"
  shows "engine_inv (snd (releaseLocked sid reason (e\<lparr>sessions := AList.delete sid (sessions e)\<rparr>)))"
proof -
  let ?ss = "AList.delete sid (sessions e)"
  have "int (length ?ss) \<le> max 0 (MaxClients (limits e))"
    using assms length_delete_le [of sid "sessions e"] by (auto simp: engine_inv_def)
  with assms show ?thesis
    by (auto simp: releaseLocked_eq engine_inv_def floor_ok_def map_simps split: option.splits)
qed

section \<open>Every method keeps the invariant\<close>

lemma NewEngine_inv: "engine_inv (NewEngine l c)"
  by (simp add: NewEngine_def engine_inv_def)

lemma AddSession_inv: "engine_inv e \<Longrightarrow> engine_inv (snd (AddSession sid address callsign ready e))"
  by (auto simp: AddSession_def now_def engine_inv_def floor_ok_def map_simps split: option.splits)

lemma SetReady_inv: "engine_inv e \<Longrightarrow> engine_inv (snd (SetReady sid e))"
  by (auto simp: SetReady_def now_def split: option.splits
      intro!: engine_inv_update_session [of "e\<lparr>readings := n\<rparr>" for n, simplified])

lemma Touch_inv: "engine_inv e \<Longrightarrow> engine_inv (snd (Touch sid address e))"
  by (auto simp: Touch_def now_def split: option.splits
      intro!: engine_inv_update_session [of "e\<lparr>readings := n\<rparr>" for n, simplified])

lemma RequestFloor_inv: "engine_inv e \<Longrightarrow> engine_inv (snd (RequestFloor sid stream source e))"
  by (auto simp: RequestFloor_def now_def engine_inv_def floor_ok_def IsZero_def map_simps
      split: option.splits if_splits)

lemma check_sequence_first:
  "check_sequence f t q = Some (first, gap) \<Longrightarrow> first = (if IsZero (fFirstMedia f) then t else fFirstMedia f)"
  by (auto simp: check_sequence_def Let_def split: if_splits)

lemma Media_inv: "engine_inv e \<Longrightarrow> engine_inv (snd (Media sid address stream sequence timestamp payload e))"
  by (auto simp: Media_def now_def Let_def engine_inv_def floor_ok_def map_simps
      split: option.splits if_splits)

lemma End_inv: "engine_inv e \<Longrightarrow> engine_inv (snd (End sid stream sequence timestamp reason e))"
  using engine_inv_release [of e sid reason]
  by (auto simp: End_def Let_def split: option.splits prod.splits)

lemma Disconnect_inv: "engine_inv e \<Longrightarrow> engine_inv (snd (Disconnect sid e))"
  by (simp add: Disconnect_def engine_inv_delete_release)

text \<open>An expired session is disconnected, exactly as by \<^verbatim>\<open>Disconnect\<close>.\<close>

lemma tick_sessions_Cons:
  "tick_sessions t ((sid, s) # rest) e =
     (if Sub t (sLast s) > SessionTimeout (limits e)
      then if fst (Disconnect sid e) = None then tick_sessions t rest (snd (Disconnect sid e))
           else Disconnect sid e
      else tick_sessions t rest e)"
  by (auto simp: Disconnect_def Let_def split: prod.splits option.splits)

lemma tick_sessions_inv: "engine_inv e \<Longrightarrow> engine_inv (snd (tick_sessions t ss e))"
  by (induction ss arbitrary: e) (auto simp: tick_sessions_Cons Disconnect_inv simp del: tick_sessions.simps(2))

lemma tick_floor_inv: "engine_inv e \<Longrightarrow> engine_inv (snd (tick_floor t e))"
  by (auto simp: tick_floor_def engine_inv_release split: option.splits)

lemma Tick_eq:
  "Tick e = (let t = clock e (readings e);
                 r = tick_sessions t (sessions e) (e\<lparr>readings := Suc (readings e)\<rparr>)
             in if fst r = None then tick_floor t (snd r) else r)"
  by (auto simp: Tick_def now_def Let_def split: prod.splits option.splits)

lemma Tick_inv: "engine_inv e \<Longrightarrow> engine_inv (snd (Tick e))"
  by (simp add: Tick_eq Let_def tick_sessions_inv tick_floor_inv)

lemma BeginShutdown_inv: "engine_inv e \<Longrightarrow> engine_inv (snd (BeginShutdown e))"
  by (auto simp: BeginShutdown_def Let_def releaseLocked_eq engine_inv_def split: option.splits)

lemma Snapshot_inv: "engine_inv e \<Longrightarrow> engine_inv (snd (Snapshot e))"
  by (auto simp: Snapshot_def Let_def now_def split: option.splits)

lemma Transaction_inv: "engine_inv e \<Longrightarrow> engine_inv (snd (Transaction key fingerprint result e))"
  by (auto simp: Transaction_def now_def engine_inv_def floor_ok_def map_simps split: option.splits)


section \<open>The engine as a machine\<close>

text \<open>
  One event is one call of a method. \<open>Reorder\<close> is no call: Go leaves the order in which a
  map is iterated open, so the environment may permute the sessions at any moment.
\<close>

datatype engine_call =
    CAddSession u64 string string bool
  | CSetReady u64
  | CTouch u64 string
  | CRequestFloor u64 u32 string
  | CMedia u64 string u32 u32 u32 bytes
  | CEnd u64 u32 u32 u32 EndReason
  | CDisconnect u64
  | CTick
  | CBeginShutdown
  | CSnapshot
  | CTransaction TransactionKey bytes bytes
  | Reorder "(u64, session) gomap"

fun engine_step :: "Engine \<Rightarrow> engine_call \<Rightarrow> Engine" where
  "engine_step e (CAddSession sid address callsign ready) = snd (AddSession sid address callsign ready e)"
| "engine_step e (CSetReady sid) = snd (SetReady sid e)"
| "engine_step e (CTouch sid address) = snd (Touch sid address e)"
| "engine_step e (CRequestFloor sid stream source) = snd (RequestFloor sid stream source e)"
| "engine_step e (CMedia sid address stream sequence timestamp payload) =
     snd (Media sid address stream sequence timestamp payload e)"
| "engine_step e (CEnd sid stream sequence timestamp reason) = snd (End sid stream sequence timestamp reason e)"
| "engine_step e (CDisconnect sid) = snd (Disconnect sid e)"
| "engine_step e CTick = snd (Tick e)"
| "engine_step e CBeginShutdown = snd (BeginShutdown e)"
| "engine_step e CSnapshot = snd (Snapshot e)"
| "engine_step e (CTransaction key fingerprint result) = snd (Transaction key fingerprint result e)"
| "engine_step e (Reorder ss) = (if mset ss = mset (sessions e) then e\<lparr>sessions := ss\<rparr> else e)"

lemma wf_map_mset: "mset m = mset m' \<Longrightarrow> wf_map m = wf_map m'"
  unfolding wf_map_def by (metis mset_eq_imp_distinct_iff mset_map)

lemma map_of_mset: "wf_map m' \<Longrightarrow> mset m = mset m' \<Longrightarrow> map_of m = map_of m'"
  unfolding wf_map_def by (metis map_of_eqI map_of_inject_set mset_eq_imp_distinct_iff mset_eq_setD mset_map)

lemma Reorder_inv:
  assumes "engine_inv e" and "mset ss = mset (sessions e)"
  shows "engine_inv (e\<lparr>sessions := ss\<rparr>)"
  using assms wf_map_mset [OF assms(2)] map_of_mset [OF _ assms(2)] mset_eq_length [OF assms(2)]
  by (auto simp: engine_inv_def floor_ok_def split: option.splits)

lemma engine_step_inv: "engine_inv e \<Longrightarrow> engine_inv (engine_step e c)"
  by (cases c) (simp_all add: AddSession_inv SetReady_inv Touch_inv RequestFloor_inv Media_inv End_inv
      Disconnect_inv Tick_inv BeginShutdown_inv Snapshot_inv Transaction_inv Reorder_inv)

section \<open>The floor, abstractly\<close>

text \<open>
  What the engine promises about the floor: it is idle, granted to one stream of one
  session, or active; a grant starts from idle only; media turns a grant active; only
  the owner's end or disconnect, the timer or the shutdown makes it idle again, and a
  shut-down engine stays idle.
\<close>

datatype floor_state = Idle | Granted u64 u32 | Active u64 u32

type_synonym floor_view = "bool \<times> floor_state"

definition floor_view :: "Engine \<Rightarrow> floor_view" where
  "floor_view e = (draining e,
     case floor_of e of
       None \<Rightarrow> Idle
     | Some f \<Rightarrow> if IsZero (fFirstMedia f) then Granted (fOwner f) (fStream f)
                 else Active (fOwner f) (fStream f))"

fun held_by :: "floor_state \<Rightarrow> u64 \<Rightarrow> u32 \<Rightarrow> bool" where
  "held_by Idle _ _ = False"
| "held_by (Granted a b) sid stream = (a = sid \<and> b = stream)"
| "held_by (Active a b) sid stream = (a = sid \<and> b = stream)"

text \<open>The calls that must not leave the floor as it is.\<close>

fun forced :: "engine_call \<Rightarrow> floor_view \<Rightarrow> bool" where
  "forced CBeginShutdown (d, _) = (\<not> d)"
| "forced (CDisconnect sid) (_, s) = (\<exists>stream. held_by s sid stream)"
| "forced _ _ = False"

inductive floor_spec :: "floor_view \<Rightarrow> engine_call \<Rightarrow> floor_view \<Rightarrow> bool" where
  stutter: "\<not> forced c a \<Longrightarrow> floor_spec a c a"
| grant: "sid \<noteq> 0 \<Longrightarrow> stream \<noteq> 0 \<Longrightarrow>
    floor_spec (False, Idle) (CRequestFloor sid stream source) (False, Granted sid stream)"
| first_media: "floor_spec (False, Granted sid stream) (CMedia sid address stream 0 timestamp payload)
    (False, Active sid stream)"
| end_stream: "held_by s sid stream \<Longrightarrow>
    floor_spec (False, s) (CEnd sid stream sequence timestamp reason) (False, Idle)"
| owner_gone: "held_by s sid stream \<Longrightarrow> floor_spec (False, s) (CDisconnect sid) (False, Idle)"
| timer: "floor_spec (d, s) CTick (d, Idle)"
| shutdown: "floor_spec (d, s) CBeginShutdown (True, Idle)"

inductive_cases floor_specE: "floor_spec a c b"

lemma stutter_any: "(\<And>d s. \<not> forced c (d, s)) \<Longrightarrow> floor_spec a c a"
  by (cases a) (auto intro: stutter)


lemma floor_view_simps [simp]:
  "floor_view (e\<lparr>readings := n\<rparr>) = floor_view e"
  "floor_view (e\<lparr>sessions := ss\<rparr>) = floor_view e"
  "floor_view (e\<lparr>gaps := g\<rparr>) = floor_view e"
  "floor_view (e\<lparr>tx := x\<rparr>) = floor_view e"
  by (simp_all add: floor_view_def)

lemma floor_view_released [simp]: "floor_view (e\<lparr>floor_of := None\<rparr>) = (draining e, Idle)"
  by (simp add: floor_view_def)

lemma fst_floor_view: "fst (floor_view e) = draining e"
  by (simp add: floor_view_def)

lemma floor_view_held:
  assumes "engine_inv e" and "floor_of e = Some f"
  obtains s where "floor_view e = (False, s)" "\<And>sid stream. held_by s sid stream \<longleftrightarrow> fOwner f = sid \<and> fStream f = stream"
  using assms engine_invD(6) [OF assms] by (auto simp: floor_view_def)

lemma floor_view_idle: "floor_of e = None \<Longrightarrow> floor_view e = (draining e, Idle)"
  by (simp add: floor_view_def)

lemma release_view:
  "floor_view (snd (releaseLocked sid reason e)) =
     (draining e, if \<exists>f. floor_of e = Some f \<and> fOwner f = sid then Idle else snd (floor_view e))"
  by (auto simp: releaseLocked_eq floor_view_def split: option.splits)

lemma Disconnect_view:
  "floor_view (snd (Disconnect sid e)) =
     (draining e, if \<exists>f. floor_of e = Some f \<and> fOwner f = sid then Idle else snd (floor_view e))"
  unfolding Disconnect_def release_view by auto

lemma Disconnect_view_cases:
  "floor_view (snd (Disconnect sid e)) \<in> {floor_view e, (draining e, Idle)}"
  unfolding Disconnect_view by (simp add: floor_view_def)

lemma draining_release [simp]: "draining (snd (releaseLocked sid reason e)) = draining e"
  by (auto simp: releaseLocked_eq split: option.splits)

lemma draining_Disconnect [simp]: "draining (snd (Disconnect sid e)) = draining e"
  by (simp add: Disconnect_def)

lemma draining_tick_sessions [simp]: "draining (snd (tick_sessions t ss e)) = draining e"
proof (induction ss arbitrary: e)
  case Nil
  then show ?case by simp
next
  case (Cons a ss)
  then show ?case by (cases a) (simp add: tick_sessions_Cons del: tick_sessions.simps(2))
qed

lemma tick_sessions_view:
  "floor_view (snd (tick_sessions t ss e)) \<in> {floor_view e, (draining e, Idle)}"
proof (induction ss arbitrary: e)
  case Nil
  then show ?case by simp
next
  case (Cons a ss)
  obtain sid s where a: "a = (sid, s)" by force
  show ?case
    using Cons.IH [of e] Cons.IH [of "snd (Disconnect sid e)"] Disconnect_view_cases [of sid e]
    by (auto simp: a tick_sessions_Cons simp del: tick_sessions.simps(2))
qed

lemma tick_floor_view: "floor_view (snd (tick_floor t e)) \<in> {floor_view e, (draining e, Idle)}"
  unfolding tick_floor_def
  by (cases "floor_of e") (simp_all add: release_view)

lemma Tick_view: "floor_view (snd (Tick e)) \<in> {floor_view e, (draining e, Idle)}"
proof -
  let ?e = "snd (tick_sessions (clock e (readings e)) (sessions e) (e\<lparr>readings := Suc (readings e)\<rparr>))"
  have "floor_view ?e \<in> {floor_view e, (draining e, Idle)}"
    using tick_sessions_view [of "clock e (readings e)" "sessions e" "e\<lparr>readings := Suc (readings e)\<rparr>"]
    by simp
  with tick_floor_view [of "clock e (readings e)" ?e] show ?thesis by (auto simp: Tick_eq Let_def)
qed

lemma Media_view:
  assumes "engine_inv e"
  shows "floor_view (snd (Media sid address stream sequence timestamp payload e)) = floor_view e \<or>
    (sequence = 0 \<and> floor_view e = (False, Granted sid stream) \<and>
     floor_view (snd (Media sid address stream sequence timestamp payload e)) = (False, Active sid stream))"
  using assms
  by (auto simp: Media_def now_def Let_def floor_view_def check_sequence_def
      split: option.splits if_splits)

lemma engine_step_spec:
  assumes inv: "engine_inv e"
  shows "floor_spec (floor_view e) c (floor_view (engine_step e c))"
proof (cases c)
  case (CRequestFloor sid stream source)
  have "sid \<noteq> 0" if "map_of (sessions e) sid = Some s" for s
    using that engine_invD(3) [OF inv] by auto
  then show ?thesis
    by (auto simp: CRequestFloor RequestFloor_def now_def Let_def floor_view_def IsZero_def
        split: option.splits intro: stutter grant)
next
  case (CMedia sid address stream sequence timestamp payload)
  then show ?thesis
    using Media_view [OF inv, of sid address stream sequence timestamp payload]
    by (auto simp: stutter_any first_media)
next
  case (CEnd sid stream sequence timestamp reason)
  show ?thesis
  proof (cases "floor_of e")
    case None
    then show ?thesis by (simp add: CEnd End_def stutter)
  next
    case (Some f)
    then obtain s where s: "floor_view e = (False, s)"
      "\<And>a b. held_by s a b \<longleftrightarrow> fOwner f = a \<and> fStream f = b"
      using floor_view_held [OF inv] by metis
    then show ?thesis
      using engine_invD(6) [OF inv Some]
      by (auto simp: CEnd End_def Let_def Some releaseLocked_eq intro: stutter end_stream split: prod.splits)
  qed
next
  case (CDisconnect sid)
  show ?thesis
  proof (cases "floor_of e")
    case None
    then show ?thesis by (simp add: CDisconnect Disconnect_view floor_view_idle stutter)
  next
    case (Some f)
    then obtain s where s: "floor_view e = (False, s)"
      "\<And>a b. held_by s a b \<longleftrightarrow> fOwner f = a \<and> fStream f = b"
      using floor_view_held [OF inv] by metis
    then show ?thesis
      using engine_invD(6) [OF inv Some]
      by (auto simp: CDisconnect Disconnect_view Some stutter intro: owner_gone)
  qed
next
  case CTick
  obtain s where s: "floor_view e = (draining e, s)" by (simp add: floor_view_def)
  from Tick_view [of e] show ?thesis
    by (auto simp: CTick s stutter_any timer)
next
  case CBeginShutdown
  show ?thesis
  proof (cases "draining e")
    case True
    then show ?thesis by (auto simp: CBeginShutdown BeginShutdown_def floor_view_def intro!: stutter)
  next
    case False
    have "floor_view (snd (BeginShutdown e)) = (True, Idle)"
      using False by (auto simp: BeginShutdown_def Let_def release_view floor_view_idle split: option.splits)
    then show ?thesis
      using shutdown [of "draining e" "snd (floor_view e)"] by (simp add: CBeginShutdown floor_view_def)
  qed
qed (auto simp: AddSession_def SetReady_def Touch_def Snapshot_def Transaction_def now_def Let_def
    intro!: stutter_any split: option.splits)

definition engine_init :: "Engine \<Rightarrow> bool" where
  "engine_init e \<longleftrightarrow> (\<exists>l c. e = NewEngine l c)"

interpretation engine: simulation engine_init engine_step engine_inv floor_view floor_spec
  by unfold_locales (auto simp: engine_init_def NewEngine_inv engine_step_inv engine_step_spec)


section \<open>Consequences of the specification\<close>

lemma held_by_unique: "held_by s a b \<Longrightarrow> held_by s a' b' \<Longrightarrow> a' = a \<and> b' = b"
  by (cases s) auto

text \<open>The calls that may take the floor from its holder.\<close>

fun may_release :: "u64 \<Rightarrow> u32 \<Rightarrow> engine_call \<Rightarrow> bool" where
  "may_release sid stream CTick = True"
| "may_release sid stream CBeginShutdown = True"
| "may_release sid stream (CDisconnect i) = (i = sid)"
| "may_release sid stream (CEnd i st _ _ _) = (i = sid \<and> st = stream)"
| "may_release sid stream _ = False"

lemma floor_spec_held:
  "floor_spec (False, s) c b \<Longrightarrow> held_by s sid stream \<Longrightarrow> \<not> may_release sid stream c \<Longrightarrow>
    \<exists>s'. b = (False, s') \<and> held_by s' sid stream"
  by (erule floor_specE) (auto dest: held_by_unique)

lemma spec_run_held:
  "spec_run floor_spec a cs b \<Longrightarrow> a = (False, s) \<Longrightarrow> held_by s sid stream \<Longrightarrow>
    list_all (\<lambda>c. \<not> may_release sid stream c) cs \<Longrightarrow>
    \<exists>s'. b = (False, s') \<and> held_by s' sid stream"
proof (induction arbitrary: s rule: spec_run.induct)
  case (spec_done a)
  then show ?case by simp
next
  case (spec_next a c b cs d)
  from spec_next.hyps(1) spec_next.prems obtain s' where "b = (False, s')" "held_by s' sid stream"
    using floor_spec_held [of s c b sid stream] by auto
  with spec_next.IH spec_next.prems(3) show ?case by auto
qed

lemma spec_run_shut: "spec_run floor_spec a cs b \<Longrightarrow> a = (True, Idle) \<Longrightarrow> b = (True, Idle)"
proof (induction rule: spec_run.induct)
  case (spec_next a c b cs d)
  from spec_next.hyps(1) spec_next.prems have "b = (True, Idle)" by (auto elim: floor_specE)
  then show ?case by (rule spec_next.IH)
qed simp

lemma floor_view_Idle_iff: "snd (floor_view e) = Idle \<longleftrightarrow> floor_of e = None"
  by (auto simp: floor_view_def split: option.splits)

lemma held_floor:
  assumes "held_by (snd (floor_view e)) sid stream"
  obtains f where "floor_of e = Some f" "fOwner f = sid" "fStream f = stream"
  using assms by (auto simp: floor_view_def split: option.splits if_splits)

lemma engine_run_view:
  "spec_run floor_spec (floor_view (run engine_step (NewEngine l c) cs)) ds
     (floor_view (run engine_step (NewEngine l c) (cs @ ds)))"
  unfolding run_append by (rule engine.abs_run, rule engine.inv_reachable) (auto simp: engine_init_def)

lemma engine_reachable_inv: "engine_inv (run engine_step (NewEngine l c) cs)"
  by (rule engine.inv_reachable) (auto simp: engine_init_def)

section \<open>What the methods answer\<close>

text \<open>The sequence numbers that the floor accepts next.\<close>

definition accepts :: "floor \<Rightarrow> u32 \<Rightarrow> bool" where
  "accepts f q \<longleftrightarrow> (if IsZero (fFirstMedia f) then q = 0
                   else fHasPrior f \<longrightarrow> unat (q - (fPrior f + 1)) < 2 ^ 31)"

lemma unat_less_half: "(d < push_bit 31 1) \<longleftrightarrow> unat d < 2 ^ 31" for d :: u32
  by (simp add: word_less_nat_alt push_bit_eq_mult)

lemma check_sequence_eq:
  "check_sequence f t q =
     (if accepts f q
      then Some (if IsZero (fFirstMedia f) then t else fFirstMedia f,
                 if IsZero (fFirstMedia f) \<or> \<not> fHasPrior f then 0 else ucast (q - (fPrior f + 1)))
      else None)"
proof -
  let ?d = "q - (fPrior f + 1)"
  have "?d \<ge> push_bit 31 1 \<longleftrightarrow> \<not> unat ?d < 2 ^ 31"
    using unat_less_half [of ?d] by (simp add: not_less [symmetric])
  moreover have "?d > 0 \<longleftrightarrow> ?d \<noteq> 0" by (rule word_neq_0_conv [symmetric])
  ultimately show ?thesis
    by (auto simp: check_sequence_def accepts_def Let_def unat_less_half)
qed

definition may_transmit :: "Engine \<Rightarrow> u64 \<Rightarrow> string \<Rightarrow> u32 \<Rightarrow> floor \<Rightarrow> bool" where
  "may_transmit e sid address stream f \<longleftrightarrow>
     (\<exists>s. map_of (sessions e) sid = Some s \<and> sAddress s = address) \<and> \<not> draining e \<and>
     floor_of e = Some f \<and> fOwner f = sid \<and> fStream f = stream"

lemma Media_okE:
  assumes "Media sid address stream q ts payload e = (Inr fs, e')"
  obtains s f where "map_of (sessions e) sid = Some s" "may_transmit e sid address stream f" "accepts f q"
    "fs = fanout sid stream q ts payload (AList.update sid (s\<lparr>sLast := clock e (readings e)\<rparr>) (sessions e))"
    "e' = e\<lparr>readings := Suc (readings e),
            gaps := gaps e + (if IsZero (fFirstMedia f) \<or> \<not> fHasPrior f then 0 else ucast (q - (fPrior f + 1))),
            sessions := AList.update sid (s\<lparr>sLast := clock e (readings e)\<rparr>) (sessions e),
            floor_of := Some (f\<lparr>fFirstMedia := (if IsZero (fFirstMedia f) then clock e (readings e) else fFirstMedia f),
              fPrior := q, fTimestamp := ts, fHasPrior := True, fLastMedia := clock e (readings e)\<rparr>)\<rparr>"
  using assms
  by (auto simp: Media_def check_sequence_eq now_def Let_def may_transmit_def
      split: option.splits if_splits)

lemma Media_accepts_iff:
  "(\<exists>fs. fst (Media sid address stream q ts payload e) = Inr fs) \<longleftrightarrow>
     (\<exists>f. may_transmit e sid address stream f \<and> accepts f q)"
  by (auto simp: Media_def check_sequence_eq now_def Let_def may_transmit_def split: option.splits if_splits)

lemma Media_error_state:
  "fst (Media sid address stream q ts payload e) = Inl err \<Longrightarrow>
    \<exists>n. snd (Media sid address stream q ts payload e) = e\<lparr>readings := n\<rparr>"
  by (auto simp: Media_def check_sequence_eq now_def Let_def split: option.splits if_splits
      intro: exI [of _ "readings e"] exI [of _ "Suc (readings e)"])

lemma fanout_set:
  "wf_map ss \<Longrightarrow> x \<in> set (fanout sid stream q ts payload ss) \<longleftrightarrow>
    (\<exists>lid s. map_of ss lid = Some s \<and> lid \<noteq> sid \<and> sReady s \<and>
       x = \<lparr>foSessionID = lid, foStreamID = stream, foSequence = q, foTimestamp = ts, foPayload = payload\<rparr>)"
  by (auto simp: fanout_def image_iff set_wf_map)

lemma fanout_distinct: "wf_map ss \<Longrightarrow> distinct (map foSessionID (fanout sid stream q ts payload ss))"
  by (auto simp: fanout_def wf_map_def comp_def case_prod_beta distinct_map_filter)

end
