(* ===== verification/EngineProps.thy ===== *)
theory EngineProps
  imports EngineLaws
begin

text \<open>
  The theorems about the policy engine: they hold of every state that calls of its methods
  reach from a new engine, in any order and with any readings of the clock.
\<close>

section \<open>Deadlines\<close>

text \<open>The timers of the floor at the instant of a tick.\<close>

definition in_time :: "Limits \<Rightarrow> time \<Rightarrow> floor \<Rightarrow> bool" where
  "in_time l t f \<longleftrightarrow>
     (if IsZero (fFirstMedia f) then Sub t (fGranted f) \<le> GrantTimeout l
      else Sub t (fLastMedia f) \<le> MediaTimeout l \<and> Sub t (fFirstMedia f) \<le> TransmitTimeLimit l)"

fun reason_holds :: "EndReason \<Rightarrow> Limits \<Rightarrow> time \<Rightarrow> floor \<Rightarrow> session \<Rightarrow> bool" where
  "reason_holds EndOwnerDisconnect l t f s = (Sub t (sLast s) > SessionTimeout l)"
| "reason_holds EndGrantTimeout l t f s = (IsZero (fFirstMedia f) \<and> Sub t (fGranted f) > GrantTimeout l)"
| "reason_holds EndMediaInactivity l t f s = (\<not> IsZero (fFirstMedia f) \<and> Sub t (fLastMedia f) > MediaTimeout l)"
| "reason_holds EndTransmitTimeLimit l t f s =
     (\<not> IsZero (fFirstMedia f) \<and> Sub t (fFirstMedia f) > TransmitTimeLimit l)"
| "reason_holds EndNormal l t f s = False"
| "reason_holds EndServerShutdown l t f s = False"

lemma Disconnect_sessions [simp]: "sessions (snd (Disconnect sid e)) = AList.delete sid (sessions e)"
  by (auto simp: Disconnect_def releaseLocked_eq split: option.splits)

lemma limits_Disconnect [simp]: "limits (snd (Disconnect sid e)) = limits e"
  by (auto simp: Disconnect_def releaseLocked_eq split: option.splits)

lemma Disconnect_None_iff:
  "fst (Disconnect sid e) = None \<longleftrightarrow> (\<forall>f. floor_of e = Some f \<longrightarrow> fOwner f \<noteq> sid)"
  by (auto simp: Disconnect_def releaseLocked_eq split: option.splits)

lemma Disconnect_floor:
  "fst (Disconnect sid e) = None \<Longrightarrow> floor_of (snd (Disconnect sid e)) = floor_of e"
  "fst (Disconnect sid e) = Some x \<Longrightarrow> floor_of (snd (Disconnect sid e)) = None"
  "fst (Disconnect sid e) = Some x \<Longrightarrow> \<exists>f t. floor_of e = Some f \<and> fOwner f = sid \<and>
     x = released sid EndOwnerDisconnect f t"
  by (auto simp: Disconnect_def releaseLocked_eq split: option.splits if_splits)

lemma tick_sessions_None:
  assumes "tick_sessions t ss e = (None, e')"
  shows "floor_of e' = floor_of e \<and> limits e' = limits e \<and>
    map_of (sessions e') sid =
      (if \<exists>s. (sid, s) \<in> set ss \<and> Sub t (sLast s) > SessionTimeout (limits e) then None
       else map_of (sessions e) sid)"
  using assms
proof (induction ss arbitrary: e)
  case Nil
  then show ?case by simp
next
  case (Cons a ss)
  obtain k s where a: "a = (k, s)" by force
  show ?case
  proof (cases "Sub t (sLast s) > SessionTimeout (limits e)")
    case True
    with Cons.prems have d: "fst (Disconnect k e) = None"
      and r: "tick_sessions t ss (snd (Disconnect k e)) = (None, e')"
      by (auto simp: a tick_sessions_Cons simp del: tick_sessions.simps(2) split: if_splits)
    from Cons.IH [OF r] True show ?thesis
      by (auto simp: a Disconnect_floor(1) [OF d] map_simps)
  next
    case False
    with Cons.prems have "tick_sessions t ss e = (None, e')" by (simp add: a)
    from Cons.IH [OF this] False show ?thesis by (auto simp: a)
  qed
qed

lemma tick_sessions_Some:
  assumes "tick_sessions t ss e = (Some x, e')"
  shows "floor_of e' = None \<and> (\<exists>f u s. floor_of e = Some f \<and> (fOwner f, s) \<in> set ss \<and>
    Sub t (sLast s) > SessionTimeout (limits e) \<and> x = released (fOwner f) EndOwnerDisconnect f u)"
  using assms
proof (induction ss arbitrary: e)
  case Nil
  then show ?case by simp
next
  case (Cons a ss)
  obtain k s where a: "a = (k, s)" by force
  consider (gone) "Sub t (sLast s) > SessionTimeout (limits e)" "Disconnect k e = (Some x, e')"
    | (next1) "fst (Disconnect k e) = None" "tick_sessions t ss (snd (Disconnect k e)) = (Some x, e')"
    | (next2) "tick_sessions t ss e = (Some x, e')"
    using Cons.prems by (auto simp: a tick_sessions_Cons simp del: tick_sessions.simps(2) split: if_splits)
  then show ?case
  proof cases
    case gone
    then show ?thesis
      using Disconnect_floor(2,3) [of k e x] by (fastforce simp: a)
  next
    case next1
    from Cons.IH [OF next1(2)] Disconnect_floor(1) [OF next1(1)] show ?thesis by (auto simp: a)
  next
    case next2
    from Cons.IH [OF this] show ?thesis by (auto simp: a)
  qed
qed

lemma tick_floor_None:
  "tick_floor t e = (None, e') \<Longrightarrow> e' = e \<and> (\<forall>f. floor_of e = Some f \<longrightarrow> in_time (limits e) t f)"
  by (auto simp: tick_floor_def releaseLocked_eq in_time_def split: option.splits if_splits)

lemma seReason_released [simp]: "seReason (released sid reason f t) = reason"
  by (simp add: released_def)

lemma tick_floor_Some:
  "tick_floor t e = (Some x, e') \<Longrightarrow> floor_of e' = None \<and> (\<exists>f u. floor_of e = Some f \<and>
     x = released (fOwner f) (seReason x) f u \<and> (\<forall>s. reason_holds (seReason x) (limits e) t f s))"
  by (auto simp: tick_floor_def releaseLocked_eq split: option.splits if_splits)

lemma Tick_NoneD:
  assumes "Tick e = (None, e')" and "engine_inv e"
  shows "floor_of e' = floor_of e"
    and "map_of (sessions e') sid = Some s \<longleftrightarrow> map_of (sessions e) sid = Some s \<and>
      Sub (clock e (readings e)) (sLast s) \<le> SessionTimeout (limits e)"
    and "floor_of e' = Some f \<Longrightarrow> in_time (limits e) (clock e (readings e)) f"
proof -
  let ?t = "clock e (readings e)" and ?e = "e\<lparr>readings := Suc (readings e)\<rparr>"
  from assms(1) obtain e1 where t: "tick_sessions ?t (sessions e) ?e = (None, e1)"
    and f: "tick_floor ?t e1 = (None, e')"
    by (cases "tick_sessions ?t (sessions e) ?e") (auto simp: Tick_eq Let_def split: if_splits)
  note s = tick_sessions_None [OF t] and fl = tick_floor_None [OF f]
  from s fl show "floor_of e' = floor_of e" by simp
  from s fl show "floor_of e' = Some f \<Longrightarrow> in_time (limits e) ?t f" by auto
  show "map_of (sessions e') sid = Some s \<longleftrightarrow> map_of (sessions e) sid = Some s \<and>
      Sub ?t (sLast s) \<le> SessionTimeout (limits e)"
    using s fl engine_invD(1) [OF assms(2)] by (auto simp: set_wf_map)
qed

lemma Tick_SomeD:
  assumes "Tick e = (Some x, e')" and "engine_inv e"
  shows "floor_of e' = None"
    and "\<exists>f s u. floor_of e = Some f \<and> map_of (sessions e) (fOwner f) = Some s \<and>
      x = released (fOwner f) (seReason x) f u \<and>
      reason_holds (seReason x) (limits e) (clock e (readings e)) f s"
proof -
  let ?t = "clock e (readings e)" and ?e = "e\<lparr>readings := Suc (readings e)\<rparr>"
  consider (sess) "tick_sessions ?t (sessions e) ?e = (Some x, e')"
    | (floor) e1 where "tick_sessions ?t (sessions e) ?e = (None, e1)" "tick_floor ?t e1 = (Some x, e')"
    using assms(1)
    by (cases "tick_sessions ?t (sessions e) ?e") (auto simp: Tick_eq Let_def split: if_splits)
  then have "floor_of e' = None \<and> (\<exists>f s u. floor_of e = Some f \<and> map_of (sessions e) (fOwner f) = Some s \<and>
      x = released (fOwner f) (seReason x) f u \<and> reason_holds (seReason x) (limits e) ?t f s)"
  proof cases
    case sess
    from tick_sessions_Some [OF this] show ?thesis
      using engine_invD(1) [OF assms(2)] by (auto simp: set_wf_map)
  next
    case floor
    from tick_floor_Some [OF floor(2)] tick_sessions_None [OF floor(1)] show ?thesis
      using engine_invD(5) [OF assms(2)] by auto
  qed
  then show "floor_of e' = None"
    and "\<exists>f s u. floor_of e = Some f \<and> map_of (sessions e) (fOwner f) = Some s \<and>
      x = released (fOwner f) (seReason x) f u \<and> reason_holds (seReason x) (limits e) ?t f s"
    by auto
qed

text \<open>
  Which sessions a tick removes. The loop visits them in the order of the map; when it removes the owner of the floor
  it returns, and the sessions after the owner are left to the next tick.
\<close>

definition alive :: "Limits \<Rightarrow> time \<Rightarrow> u64 \<times> session \<Rightarrow> bool" where
  "alive l t = (\<lambda>(sid, s). Sub t (sLast s) \<le> SessionTimeout l)"

lemma delete_middle: "wf_map (xs @ (k, s) # ys) \<Longrightarrow> AList.delete k (xs @ (k, s) # ys) = xs @ ys"
  by (induction xs) (auto simp: wf_map_def intro: AList.delete_idem)

lemma tick_sessions_exact:
  assumes "sessions e = kept @ ss" and "wf_map (sessions e)"
  shows "case tick_sessions t ss e of
      (None, e') \<Rightarrow> sessions e' = kept @ filter (alive (limits e) t) ss
    | (Some x, e') \<Rightarrow> seReason x = EndOwnerDisconnect \<and> (\<exists>f s pre post. floor_of e = Some f \<and> ss = pre @ (fOwner f, s) # post \<and>
        sessions e' = kept @ filter (alive (limits e) t) pre @ post)"
  using assms
proof (induction ss arbitrary: kept e)
  case (Cons a ss)
  obtain k s where a: "a = (k, s)" by force
  show ?case
  proof (cases "Sub t (sLast s) > SessionTimeout (limits e)")
    case True
    have d: "sessions (snd (Disconnect k e)) = kept @ ss"
      using delete_middle [of kept k s ss] Cons.prems by (simp add: a)
    show ?thesis
    proof (cases "fst (Disconnect k e)")
      case None
      have "wf_map (kept @ ss)" using Cons.prems by (auto simp: wf_map_def a)
      with Cons.IH [of "snd (Disconnect k e)" kept] d Disconnect_floor(1) [OF None] True None show ?thesis
        by (fastforce simp: a tick_sessions_Cons alive_def simp del: tick_sessions.simps(2) split: prod.splits option.splits
          intro: exI [of _ "(k, s) # pre" for pre])
    next
      case (Some x)
      then obtain f u where f: "floor_of e = Some f" "fOwner f = k" "x = released k EndOwnerDisconnect f u"
        using Disconnect_floor(3) by blast
      have "tick_sessions t (a # ss) e = (Some x, snd (Disconnect k e))"
        using True Some by (simp add: a tick_sessions_Cons prod_eq_iff del: tick_sessions.simps(2))
      moreover have "\<exists>f' s' pre post. floor_of e = Some f' \<and> a # ss = pre @ (fOwner f', s') # post \<and>
          sessions (snd (Disconnect k e)) = kept @ filter (alive (limits e) t) pre @ post"
        by (intro exI [of _ f] exI [of _ s] exI [of _ "[]"] exI [of _ ss]) (use f d in \<open>simp add: a\<close>)
      ultimately show ?thesis using f(3) by (simp del: tick_sessions.simps)
    qed
  next
    case False
    then have "alive (limits e) t a" by (simp add: a alive_def)
    with False Cons.IH [of e "kept @ [a]"] Cons.prems show ?thesis
      by (fastforce simp: a split: prod.splits option.splits intro: exI [of _ "(k, s) # pre" for pre])
  qed
qed simp

lemma tick_floor_sessions: "sessions (snd (tick_floor t e)) = sessions e"
  by (auto simp: tick_floor_def releaseLocked_eq split: option.split)

lemma tick_floor_reason: "tick_floor t e = (Some x, e') \<Longrightarrow> seReason x \<noteq> EndOwnerDisconnect"
  by (auto simp: tick_floor_def releaseLocked_eq split: option.splits if_splits)

lemma Tick_sessions:
  assumes "engine_inv e"
  shows "case Tick e of
      (None, e') \<Rightarrow> sessions e' = filter (alive (limits e) (clock e (readings e))) (sessions e)
    | (Some x, e') \<Rightarrow>
        if seReason x = EndOwnerDisconnect then \<exists>f s pre post. floor_of e = Some f \<and> sessions e = pre @ (fOwner f, s) # post \<and>
          sessions e' = filter (alive (limits e) (clock e (readings e))) pre @ post
        else sessions e' = filter (alive (limits e) (clock e (readings e))) (sessions e)"
proof -
  let ?t = "clock e (readings e)" and ?e = "e\<lparr>readings := Suc (readings e)\<rparr>"
  obtain r e1 where t: "tick_sessions ?t (sessions e) ?e = (r, e1)" by force
  from tick_sessions_exact [of ?e "[]" "sessions e" ?t] engine_invD(1) [OF assms] t
  have exact: "case r of None \<Rightarrow> sessions e1 = filter (alive (limits e) ?t) (sessions e)
    | Some x \<Rightarrow> seReason x = EndOwnerDisconnect \<and> (\<exists>f s pre post. floor_of e = Some f \<and> sessions e = pre @ (fOwner f, s) # post \<and>
        sessions e1 = filter (alive (limits e) ?t) pre @ post)"
    by (simp split: option.splits)
  show ?thesis
  proof (cases r)
    case None
    obtain r' e' where f: "tick_floor ?t e1 = (r', e')" by force
    with None t have "Tick e = (r', e')" by (simp add: Tick_eq Let_def)
    with f exact None tick_floor_sessions [of ?t e1] show ?thesis
      by (auto simp: tick_floor_reason split: option.split)
  next
    case (Some x)
    with t have "Tick e = (Some x, e1)" by (simp add: Tick_eq Let_def)
    with exact Some show ?thesis by simp
  qed
qed

section \<open>Gap accounting\<close>

text \<open>
  A sequence of media packets of one stream, offered one after the other: the number of
  accepted ones and the engine after them. Rejected packets are part of the sequence.
\<close>

fun media_run :: "u64 \<Rightarrow> string \<Rightarrow> u32 \<Rightarrow> (u32 \<times> u32 \<times> bytes) list \<Rightarrow> Engine \<Rightarrow> nat \<times> Engine" where
  "media_run sid address stream [] e = (0, e)"
| "media_run sid address stream ((q, ts, payload) # ms) e =
     (let (r, e) = Media sid address stream q ts payload e;
          (n, e) = media_run sid address stream ms e in
      (case r of Inl _ \<Rightarrow> n | Inr _ \<Rightarrow> Suc n, e))"

lemma Media_clock: "clock (snd (Media sid address stream q ts payload e)) = clock e"
  by (auto simp: Media_def now_def Let_def split: option.splits prod.splits)

lemma ucast_gap: "ucast (ucast d :: u64) = d" for d :: u32
  by transfer (simp add: take_bit_take_bit)

lemma ucast_plus: "ucast (a + b) = (ucast a + ucast b :: u32)" for a b :: u64
proof -
  have "take_bit 32 (take_bit 64 (x + y)) = take_bit 32 (take_bit 64 x + take_bit 64 y)" for x y :: int
    using take_bit_add [of 32 "take_bit 64 x" "take_bit 64 y"] take_bit_add [of 32 x y]
    by (simp add: take_bit_take_bit)
  then show ?thesis by transfer (simp add: take_bit_take_bit)
qed

text \<open>The accounting step: one more accepted packet moves \<^verbatim>\<open>prior\<close> by one plus the gap.\<close>

lemma media_run_active:
  assumes "media_run sid address stream ms e = (n, e')" and "floor_of e = Some f"
    and "\<not> IsZero (fFirstMedia f)" and "fHasPrior f"
  shows "\<exists>f'. floor_of e' = Some f' \<and> fFirstMedia f' = fFirstMedia f \<and> fHasPrior f' \<and>
    fOwner f' = fOwner f \<and> fStream f' = fStream f \<and>
    fPrior f' = fPrior f + word_of_nat n + ucast (gaps e' - gaps e)"
  using assms
proof (induction ms arbitrary: e n f)
  case Nil
  then show ?case by simp
next
  case (Cons m ms)
  obtain q ts payload where m: "m = (q, ts, payload)" by (cases m)
  obtain r e1 where M: "Media sid address stream q ts payload e = (r, e1)" by force
  obtain k where k: "media_run sid address stream ms e1 = (k, e')"
    and n: "n = (case r of Inl _ \<Rightarrow> k | Inr _ \<Rightarrow> Suc k)"
    using Cons.prems(1) by (auto simp: m M split: prod.splits)
  show ?case
  proof (cases r)
    case (Inl err)
    then obtain j where "e1 = e\<lparr>readings := j\<rparr>"
      using Media_error_state [of sid address stream q ts payload e err] M by auto
    with Cons.IH [OF k _ Cons.prems(3,4)] Cons.prems(2) Inl n show ?thesis by auto
  next
    case (Inr fs)
    with M have ok: "Media sid address stream q ts payload e = (Inr fs, e1)" by simp
    from ok obtain f1 where f1: "floor_of e1 = Some f1" "fFirstMedia f1 = fFirstMedia f" "fHasPrior f1"
      "fPrior f1 = q" "fOwner f1 = fOwner f" "fStream f1 = fStream f"
      "gaps e1 = gaps e + ucast (q - (fPrior f + 1))"
      using Cons.prems(2-4) by (elim Media_okE) (auto simp: may_transmit_def)
    from Cons.IH [OF k f1(1) _ f1(3)] Cons.prems(3) f1 obtain f' where f': "floor_of e' = Some f'"
      "fFirstMedia f' = fFirstMedia f" "fHasPrior f'" "fOwner f' = fOwner f" "fStream f' = fStream f"
      "fPrior f' = q + word_of_nat k + ucast (gaps e' - gaps e1)" by auto
    have "ucast (gaps e' - gaps e) = (ucast (gaps e' - gaps e1) :: u32) + (q - (fPrior f + 1))"
    proof -
      have "gaps e' - gaps e = (gaps e' - gaps e1) + ucast (q - (fPrior f + 1))" using f1(7) by simp
      then have "ucast (gaps e' - gaps e) =
          (ucast (gaps e' - gaps e1) :: u32) + ucast (ucast (q - (fPrior f + 1)) :: u64)"
        by (simp only: ucast_plus)
      then show ?thesis by (simp only: ucast_gap)
    qed
    with f' n Inr show ?thesis by (simp add: algebra_simps)
  qed
qed


lemma media_run_granted:
  assumes "media_run sid address stream ms e = (n, e')" and "floor_of e = Some f"
    and "IsZero (fFirstMedia f)" and "\<And>i. clock e i \<noteq> 0" and "n > 0"
  shows "\<exists>f'. floor_of e' = Some f' \<and> \<not> IsZero (fFirstMedia f') \<and> fHasPrior f' \<and>
    fOwner f' = fOwner f \<and> fStream f' = fStream f \<and>
    fPrior f' + 1 = word_of_nat n + ucast (gaps e' - gaps e)"
  using assms
proof (induction ms arbitrary: e n)
  case Nil
  then show ?case by simp
next
  case (Cons m ms)
  obtain q ts payload where m: "m = (q, ts, payload)" by (cases m)
  obtain r e1 where M: "Media sid address stream q ts payload e = (r, e1)" by force
  obtain k where k: "media_run sid address stream ms e1 = (k, e')"
    and n: "n = (case r of Inl _ \<Rightarrow> k | Inr _ \<Rightarrow> Suc k)"
    using Cons.prems(1) by (auto simp: m M split: prod.splits)
  show ?case
  proof (cases r)
    case (Inl err)
    then obtain j where "e1 = e\<lparr>readings := j\<rparr>"
      using Media_error_state [of sid address stream q ts payload e err] M by auto
    with Cons.IH [OF k] Cons.prems(2-5) Inl n show ?thesis by auto
  next
    case (Inr fs)
    with M have ok: "Media sid address stream q ts payload e = (Inr fs, e1)" by simp
    from ok obtain f1 where f1: "floor_of e1 = Some f1" "\<not> IsZero (fFirstMedia f1)" "fHasPrior f1"
      "fPrior f1 = 0" "fOwner f1 = fOwner f" "fStream f1 = fStream f" "gaps e1 = gaps e"
      using Cons.prems(2-4) by (elim Media_okE) (auto simp: may_transmit_def accepts_def IsZero_def)
    from media_run_active [OF k f1(1-3)] f1 n Inr show ?thesis by auto
  qed
qed

lemma BeginShutdown_view:
  assumes "engine_inv e"
  shows "floor_view (snd (BeginShutdown e)) = (True, Idle)"
proof (cases "floor_of e")
  case None
  then show ?thesis by (simp add: BeginShutdown_def Let_def floor_view_def)
next
  case (Some f)
  with engine_invD(6) [OF assms Some] show ?thesis
    by (simp add: BeginShutdown_def Let_def release_view)
qed

text \<open>The transaction cache keeps what it holds, whatever is called later.\<close>

lemma tx_release [simp]: "tx (snd (releaseLocked sid reason e)) = tx e"
  by (auto simp: releaseLocked_eq split: option.splits)

lemma tx_Disconnect [simp]: "tx (snd (Disconnect sid e)) = tx e"
  by (simp add: Disconnect_def)

lemma tx_tick_sessions [simp]: "tx (snd (tick_sessions t ss e)) = tx e"
proof (induction ss arbitrary: e)
  case Nil
  then show ?case by simp
next
  case (Cons a ss)
  then show ?case by (cases a) (simp add: tick_sessions_Cons del: tick_sessions.simps(2))
qed

lemma tx_Tick [simp]: "tx (snd (Tick e)) = tx e"
  by (simp add: Tick_eq Let_def tick_floor_def split: option.splits)

lemma tx_kept: "map_of (tx e) key = Some t \<Longrightarrow> map_of (tx (engine_step e c)) key = Some t"
proof (cases c)
  case CTick
  then show "map_of (tx e) key = Some t \<Longrightarrow> map_of (tx (engine_step e c)) key = Some t" by simp
next
  case (CMedia sid address stream q ts payload)
  then show "map_of (tx e) key = Some t \<Longrightarrow> map_of (tx (engine_step e c)) key = Some t"
    by (auto simp: Media_def now_def Let_def split: option.splits)
next
  case (CEnd sid stream q ts reason)
  then show "map_of (tx e) key = Some t \<Longrightarrow> map_of (tx (engine_step e c)) key = Some t"
    using tx_release [of sid reason e]
    by (auto simp: End_def Let_def split: option.splits prod.splits simp del: tx_release)
qed (auto simp: AddSession_def SetReady_def Touch_def RequestFloor_def BeginShutdown_def Snapshot_def
    Transaction_def now_def Let_def map_simps split: option.splits if_splits)

lemma tx_kept_run:
  "map_of (tx (run engine_step (NewEngine l c) cs)) key = Some t \<Longrightarrow>
    map_of (tx (run engine_step (run engine_step (NewEngine l c) cs) ds)) key = Some t"
  by (rule engine.stable_run [where P = "\<lambda>e. map_of (tx e) key = Some t"])
    (auto intro: tx_kept engine_reachable_inv)

lemma Transaction_stored:
  "Transaction key fp res e = ((Some r, st), e') \<Longrightarrow>
    \<exists>t. map_of (tx e') key = Some t \<and> tFingerprint t = fp \<and> tResult t = r"
  by (auto simp: Transaction_def now_def map_simps split: option.splits if_splits)

section \<open>Properties\<close>

text \<open>
  C35. The invariant of the engine holds after every sequence of calls: session and
  transaction tables have distinct keys and stay within their limits, the floor's owner is
  a ready session, its stream is not zero, and a draining engine has no floor.
\<close>

theorem engine_invariant: "engine_inv (run engine_step (NewEngine l c) cs)"
  by (rule engine.inv_reachable) (auto simp: engine_init_def)

text \<open>
  C4. The engine implements the abstract floor: every sequence of calls is, seen through
  \<^const>\<open>floor_view\<close>, a run of the transition system \<^const>\<open>floor_spec\<close> from the idle floor.
\<close>

theorem engine_refines_floor:
  "spec_run floor_spec (False, Idle) cs (floor_view (run engine_step (NewEngine l c) cs))"
proof -
  have "floor_view (NewEngine l c) = (False, Idle)" by (simp add: floor_view_def NewEngine_def)
  then show ?thesis using engine_run_view [of l c "[]" cs] by simp
qed

text \<open>
  C19. The floor is never pre-empted: once a stream holds the floor, it keeps it through every
  sequence of calls that contains no tick, no shutdown, no disconnect of its owner and no end
  of that stream.
\<close>

theorem floor_not_preempted:
  assumes "floor_of (run engine_step (NewEngine l c) cs) = Some f"
    and "list_all (\<lambda>d. \<not> may_release (fOwner f) (fStream f) d) ds"
  shows "\<exists>f'. floor_of (run engine_step (NewEngine l c) (cs @ ds)) = Some f' \<and>
    fOwner f' = fOwner f \<and> fStream f' = fStream f"
proof -
  obtain s where s: "floor_view (run engine_step (NewEngine l c) cs) = (False, s)"
    "\<And>a b. held_by s a b \<longleftrightarrow> fOwner f = a \<and> fStream f = b"
    using floor_view_held [OF engine_reachable_inv assms(1)] by metis
  obtain s' where "floor_view (run engine_step (NewEngine l c) (cs @ ds)) = (False, s')"
    "held_by s' (fOwner f) (fStream f)"
    using spec_run_held [OF engine_run_view s(1) _ assms(2)] s(2) by auto
  then show ?thesis by (metis held_floor snd_conv)
qed

abbreviation (input) demo_engine :: Engine where
  "demo_engine \<equiv> NewEngine \<lparr>MaxClients = 2, MaxCompletedTransactions = 1, SessionTimeout = 0,
     GrantTimeout = 0, MediaTimeout = 0, TransmitTimeLimit = 0\<rparr> (\<lambda>n. int n + 1)"

abbreviation (input) demo_calls :: "engine_call list" where
  "demo_calls \<equiv> [CAddSession 1 ''a'' ''N0CALL'' True, CAddSession 2 ''b'' ''K1ABC'' True,
     CRequestFloor 1 7 ''N0CALL'']"

theorem floor_not_preempted_witness:
  "\<exists>f'. floor_of (run engine_step demo_engine (demo_calls @ [CRequestFloor 2 9 ''K1ABC'', CDisconnect 2])) = Some f' \<and>
    fOwner f' = 1 \<and> fStream f' = 7"
proof -
  let ?f = "\<lparr>fOwner = 1, fStream = 7, fSource = ''N0CALL'', fGranted = 4, fFirstMedia = 0,
     fLastMedia = 0, fPrior = 0, fTimestamp = 0, fHasPrior = False\<rparr>"
  have "floor_of (run engine_step demo_engine demo_calls) = Some ?f" by code_simp
  from floor_not_preempted [OF this, of "[CRequestFloor 2 9 ''K1ABC'', CDisconnect 2]"]
  show ?thesis by simp
qed

text \<open>
  A shutdown is final: after \<^verbatim>\<open>BeginShutdown\<close> and any further calls the engine is
  draining, nobody holds the floor, and every new session, floor request and media packet is
  refused.
\<close>

theorem shutdown_is_final:
  "let e = run engine_step (NewEngine l c) (cs @ CBeginShutdown # ds) in
     draining e \<and> floor_of e = None \<and>
     fst (AddSession sid address callsign ready e) = False \<and>
     fst (RequestFloor sid stream source e) = FloorRejected \<and>
     fst (Media sid address stream q ts payload e) \<in> {Inl ErrInvalidSession, Inl ErrAddressMismatch, Inl ErrInvalidStream}"
proof -
  let ?e = "run engine_step (NewEngine l c) (cs @ CBeginShutdown # ds)"
  have "floor_view (engine_step (run engine_step (NewEngine l c) cs) CBeginShutdown) = (True, Idle)"
    by (simp add: BeginShutdown_view engine_reachable_inv)
  then have "floor_view (run engine_step (NewEngine l c) (cs @ [CBeginShutdown])) = (True, Idle)"
    by (simp add: run_append)
  from spec_run_shut [OF engine_run_view this, of ds] have v: "floor_view ?e = (True, Idle)" by simp
  then have d: "draining ?e" and f: "floor_of ?e = None"
    using floor_view_Idle_iff [of ?e] by (simp_all add: floor_view_def)
  then show ?thesis
    by (auto simp: Let_def AddSession_def RequestFloor_def Media_def split: option.splits)
qed

text \<open>
  \<^verbatim>\<open>Media\<close> admits a packet exactly when it comes from the registered address of the
  session that holds the floor, names the stream that was granted, and carries an acceptable
  sequence number: zero for the first packet, and afterwards one at a distance below 2^31 ahead
  of its successor modulo 2^32. A refused packet changes nothing but the clock's reading
  counter.
\<close>

theorem Media_admission:
  "case Media sid address stream q ts payload e of
     (Inr fs, e') \<Rightarrow> (\<exists>f. may_transmit e sid address stream f \<and> accepts f q)
   | (Inl err, e') \<Rightarrow> (\<nexists>f. may_transmit e sid address stream f \<and> accepts f q) \<and>
       (\<exists>n. e' = e\<lparr>readings := n\<rparr>) \<and>
       (err = ErrInvalidSession \<longleftrightarrow> map_of (sessions e) sid = None) \<and>
       (err = ErrAddressMismatch \<longleftrightarrow> (\<exists>s. map_of (sessions e) sid = Some s \<and> sAddress s \<noteq> address))"
proof (cases "Media sid address stream q ts payload e")
  case (Pair r e')
  show ?thesis
  proof (cases r)
    case (Inr fs)
    then show ?thesis using Pair Media_accepts_iff [of sid address stream q ts payload e] by auto
  next
    case (Inl err)
    have "(err = ErrInvalidSession \<longleftrightarrow> map_of (sessions e) sid = None) \<and>
       (err = ErrAddressMismatch \<longleftrightarrow> (\<exists>s. map_of (sessions e) sid = Some s \<and> sAddress s \<noteq> address))"
      using Pair Inl by (auto simp: Media_def now_def Let_def split: option.splits if_splits)
    then show ?thesis
      using Pair Inl Media_accepts_iff [of sid address stream q ts payload e]
        Media_error_state [of sid address stream q ts payload e err] by auto
  qed
qed

text \<open>
  C20. Fan-out: an accepted packet is sent once to every ready session except the sender, to
  nobody else, and with stream, sequence number, timestamp and payload unchanged.
\<close>

theorem Media_fanout:
  assumes "Media sid address stream q ts payload (run engine_step (NewEngine l c) cs) = (Inr fs, e')"
  shows "distinct (map foSessionID fs) \<and>
    (\<forall>x. x \<in> set fs \<longleftrightarrow> (\<exists>lid s. map_of (sessions (run engine_step (NewEngine l c) cs)) lid = Some s \<and>
       sReady s \<and> lid \<noteq> sid \<and>
       x = \<lparr>foSessionID = lid, foStreamID = stream, foSequence = q, foTimestamp = ts, foPayload = payload\<rparr>))"
proof -
  let ?e = "run engine_step (NewEngine l c) cs"
  have wf: "wf_map (sessions ?e)" by (rule engine_invD(1)) (rule engine_reachable_inv)
  from assms obtain s where
    fs: "fs = fanout sid stream q ts payload (AList.update sid (s\<lparr>sLast := clock ?e (readings ?e)\<rparr>) (sessions ?e))"
    by (elim Media_okE) auto
  from wf show ?thesis
    by (auto simp: fs fanout_distinct fanout_set map_simps)
qed

theorem Media_fanout_witness:
  "foSessionID (hd (projr (fst (Media 1 ''a'' 7 0 0 [1, 2] (run engine_step demo_engine demo_calls))))) = 2"
proof -
  let ?e = "run engine_step demo_engine demo_calls"
  let ?x = "\<lparr>foSessionID = 2, foStreamID = 7, foSequence = 0, foTimestamp = 0, foPayload = [1, 2]\<rparr>"
  obtain e' where m: "Media 1 ''a'' 7 0 0 [1, 2] ?e = (Inr [?x], e')"
  proof -
    have "fst (Media 1 ''a'' 7 0 0 [1, 2] ?e) = Inr [?x]" by code_simp
    then show ?thesis using that by (cases "Media 1 ''a'' 7 0 0 [1, 2] ?e") auto
  qed
  from Media_fanout [OF this] show ?thesis using m by simp
qed


text \<open>
  C31. Gap accounting: when media packets, some of which may be refused, are offered to a
  granted stream and \<open>n\<close> of them are accepted, the sequence number that the end of the stream
  must carry is the number of accepted packets plus the gaps counted meanwhile, modulo 2^32;
  exactly one pair of sequence number and timestamp ends the stream.
\<close>

theorem media_gap_accounting:
  assumes "floor_of (run engine_step (NewEngine l c) cs) = Some f" and "IsZero (fFirstMedia f)"
    and "\<And>i. clock (run engine_step (NewEngine l c) cs) i \<noteq> 0"
    and "media_run (fOwner f) address (fStream f) ms (run engine_step (NewEngine l c) cs) = (n, e')"
    and "n > 0"
  shows "\<exists>ts. \<forall>q ts'. (\<exists>x. fst (End (fOwner f) (fStream f) q ts' EndNormal e') = Inr x) \<longleftrightarrow>
    q = word_of_nat n + ucast (gaps e' - gaps (run engine_step (NewEngine l c) cs)) \<and> ts' = ts"
proof -
  from media_run_granted [OF assms(4,1,2,3,5)] obtain f' where f': "floor_of e' = Some f'" "fHasPrior f'"
    "fOwner f' = fOwner f" "fStream f' = fStream f"
    "fPrior f' + 1 = word_of_nat n + ucast (gaps e' - gaps (run engine_step (NewEngine l c) cs))"
    by auto
  then have "(\<exists>x. fst (End (fOwner f) (fStream f) q ts' EndNormal e') = Inr x) \<longleftrightarrow>
      q = fPrior f' + 1 \<and> ts' = fTimestamp f'" for q ts'
    by (auto simp: End_def releaseLocked_eq Let_def)
  with f'(5) show ?thesis by auto
qed

theorem media_gap_accounting_witness:
  "\<exists>ts. \<forall>q ts'. (\<exists>x. fst (End 1 7 q ts' EndNormal
     (snd (media_run 1 ''a'' 7 [(0, 0, []), (4, 960, []), (2, 480, [])] (run engine_step demo_engine demo_calls)))) = Inr x)
     \<longleftrightarrow> q = 5 \<and> ts' = ts"
proof -
  let ?f = "\<lparr>fOwner = 1, fStream = 7, fSource = ''N0CALL'', fGranted = 4, fFirstMedia = 0,
     fLastMedia = 0, fPrior = 0, fTimestamp = 0, fHasPrior = False\<rparr>"
  let ?e = "run engine_step demo_engine demo_calls"
  let ?ms = "[(0, 0, []), (4, 960, []), (2, 480, [])] :: (u32 \<times> u32 \<times> bytes) list"
  have f: "floor_of ?e = Some ?f" by code_simp
  have c: "clock ?e i \<noteq> 0" for i
    by (simp add: NewEngine_def AddSession_def RequestFloor_def now_def Limits_defaults_def)
  have n: "fst (media_run 1 ''a'' 7 ?ms ?e) = 2" by code_simp
  have g: "gaps (snd (media_run 1 ''a'' 7 ?ms ?e)) = 3" by code_simp
  have g0: "gaps ?e = 0" by code_simp
  have m: "media_run (fOwner ?f) ''a'' (fStream ?f) ?ms ?e = (2, snd (media_run 1 ''a'' 7 ?ms ?e))"
    by (rule prod_eqI) (simp_all only: n fst_conv snd_conv floor.select_convs)
  have z: "IsZero (fFirstMedia ?f)" by (simp add: IsZero_def)
  have h: "word_of_nat 2 + ucast (3 - 0 :: u64) = (5 :: u32)" by simp
  from media_gap_accounting [OF f z c m] show ?thesis
    unfolding g g0 h floor.select_convs by (simp only: zero_less_numeral)
qed

text \<open>
  C32. Deadlines. A tick that ends no stream enforces every deadline: exactly the sessions within the session
  timeout remain, in their order, and the floor is as before and within its grant, media and transmit time
  limits. A tick that ends a stream takes the floor from its holder, and the reason it reports is true of the
  timers at the instant it read. If the reason is a timer of the floor, exactly the sessions within the
  timeout remain; if it is that the session of the owner expired, the tick stops at the owner in the
  iteration of the sessions: the expired ones before it are gone, and those after it stay for the next tick.
\<close>

theorem Tick_deadlines:
  "let e = run engine_step (NewEngine l c) cs; t = clock e (readings e) in
   case Tick e of
     (None, e') \<Rightarrow> floor_of e' = floor_of e \<and> pred_option (in_time (limits e) t) (floor_of e') \<and>
       sessions e' = filter (alive (limits e) t) (sessions e)
   | (Some x, e') \<Rightarrow> floor_of e' = None \<and>
       (\<exists>f s u. floor_of e = Some f \<and> map_of (sessions e) (fOwner f) = Some s \<and>
          x = released (fOwner f) (seReason x) f u \<and> reason_holds (seReason x) (limits e) t f s \<and>
          (if seReason x = EndOwnerDisconnect
           then \<exists>pre post. sessions e = pre @ (fOwner f, s) # post \<and> sessions e' = filter (alive (limits e) t) pre @ post
           else sessions e' = filter (alive (limits e) t) (sessions e)))"
proof -
  let ?e = "run engine_step (NewEngine l c) cs"
  obtain r e' where T: "Tick ?e = (r, e')" by force
  note exact = Tick_sessions [OF engine_reachable_inv, of l c cs, unfolded T prod.case]
  show ?thesis
  proof (cases r)
    case None
    with T have "Tick ?e = (None, e')" by simp
    note D = Tick_NoneD [OF this engine_reachable_inv]
    have "pred_option (in_time (limits ?e) (clock ?e (readings ?e))) (floor_of e')"
      using D(3) by (cases "floor_of e'") auto
    with D(1) exact show ?thesis unfolding Let_def T None by simp
  next
    case (Some x)
    with T have "Tick ?e = (Some x, e')" by simp
    note D = Tick_SomeD [OF this engine_reachable_inv]
    then obtain f s u where f: "floor_of ?e = Some f" "map_of (sessions ?e) (fOwner f) = Some s"
      "x = released (fOwner f) (seReason x) f u" "reason_holds (seReason x) (limits ?e) (clock ?e (readings ?e)) f s"
      by blast
    have "\<exists>pre post. sessions ?e = pre @ (fOwner f, s) # post \<and>
        sessions e' = filter (alive (limits ?e) (clock ?e (readings ?e))) pre @ post" if "seReason x = EndOwnerDisconnect"
    proof -
      from exact Some that f(1) obtain s' pre post where p: "sessions ?e = pre @ (fOwner f, s') # post"
        "sessions e' = filter (alive (limits ?e) (clock ?e (readings ?e))) pre @ post"
        by auto
      have "map_of (sessions ?e) (fOwner f) = Some s'"
        by (rule set_wf_map [OF engine_invD(1) [OF engine_reachable_inv], THEN iffD1]) (simp add: p(1))
      with f(2) p show ?thesis by auto
    qed
    with f D(1) exact Some show ?thesis unfolding Let_def T by auto
  qed
qed

text \<open>
  The transaction cache answers at most once: when a call has stored or replayed a result
  for a key, then after any further calls a repetition with the same fingerprint replays that
  same result, and a call with another fingerprint is reported as a conflict.
\<close>

theorem Transaction_idempotent:
  assumes "Transaction key fp res (run engine_step (NewEngine l c) cs) = ((Some r, st), e')"
  shows "fst (Transaction key fp' res' (run engine_step (NewEngine l c) (cs @ CTransaction key fp res # ds))) =
    (if fp' = fp then (Some r, TransactionDuplicate) else (None, TransactionConflict))"
proof -
  let ?cs = "cs @ [CTransaction key fp res]"
  have "run engine_step (NewEngine l c) ?cs = e'" using assms by (simp add: run_append)
  with Transaction_stored [OF assms] obtain t where
    t: "map_of (tx (run engine_step (NewEngine l c) ?cs)) key = Some t" "tFingerprint t = fp" "tResult t = r"
    by auto
  from tx_kept_run [OF t(1), of ds] t(2,3) show ?thesis
    by (simp add: Transaction_def run_append)
qed

theorem Transaction_idempotent_witness:
  "fst (Transaction \<lparr>kSessionID = 1, kType = 5, kID = 9\<rparr> [1] [3]
     (run engine_step demo_engine ([] @ CTransaction \<lparr>kSessionID = 1, kType = 5, kID = 9\<rparr> [1] [2] # [CTick]))) =
     (Some [2], TransactionDuplicate)"
proof -
  let ?k = "\<lparr>kSessionID = 1, kType = 5, kID = 9\<rparr>"
  have "fst (Transaction ?k [1] [2] (run engine_step demo_engine [])) = (Some [2], TransactionStored)" by code_simp
  then have "Transaction ?k [1] [2] (run engine_step demo_engine []) =
      ((Some [2], TransactionStored), snd (Transaction ?k [1] [2] (run engine_step demo_engine [])))"
    by (metis prod.collapse)
  from Transaction_idempotent [OF this, of "[1]" "[3]" "[CTick]"] show ?thesis by simp
qed

end
