(* ===== verification/Transport.thy ===== *)
theory Transport
  imports GoStd Systems
begin

text \<open>
  \<^verbatim>\<open>internal/transport/udp.go\<close>: the bounded UDP adapter. Enqueuing and the inbound loop are
  functions on the adapter's state. The write loop runs in its own goroutine, so it is
  cut at its atomic actions (a select, a flag test, a socket write) and interleaved with the
  other goroutines by the step function \<open>net_step\<close>.

  An address is its text, \<^verbatim>\<open>net.Addr.String()\<close>: the sources compare and store nothing else
  of it.
\<close>

section \<open>State\<close>

type_synonym addr = string

record Datagram =
  dAddress :: addr
  dData :: bytes

datatype MediaKind = MediaAudio | MediaData

record MediaBatch =
  mbData :: bytes
  mbRecipients :: "addr list"
  mbKind :: MediaKind

record MediaDrops =
  mdFrames :: u64
  mdRecipients :: u64

record UDP =
  uInbound :: "Datagram chan"
  uControl :: "Datagram chan"
  uMedia :: "MediaBatch chan"
  uInboundDrops :: u64
  uMediaDrops :: u64
  uMediaDropRecipients :: u64
  uControlFailures :: u64
  uMediaEnabled :: bool

section \<open>Operations\<close>

definition NewUDP :: "int \<Rightarrow> int \<Rightarrow> int \<Rightarrow> UDP option" where
  "NewUDP inbound control media =
     (if inbound \<le> 0 \<or> control \<le> 0 \<or> media \<le> 0 then None
      else Some \<lparr>uInbound = make_chan (nat inbound), uControl = make_chan (nat control),
        uMedia = make_chan (nat media), uInboundDrops = 0, uMediaDrops = 0,
        uMediaDropRecipients = 0, uControlFailures = 0, uMediaEnabled = True\<rparr>)"

definition EnqueueControl :: "Datagram \<Rightarrow> 'a UDP_scheme \<Rightarrow> bool \<times> 'a UDP_scheme" where
  "EnqueueControl d u =
     (case try_send (uControl u) d of
        (True, c) \<Rightarrow> (True, u\<lparr>uControl := c\<rparr>)
      | (False, _) \<Rightarrow> (False, u\<lparr>uControlFailures := uControlFailures u + 1\<rparr>))"

definition EnqueueMedia :: "MediaBatch \<Rightarrow> 'a UDP_scheme \<Rightarrow> bool \<times> 'a UDP_scheme" where
  "EnqueueMedia b u =
     (let drop_batch = u\<lparr>uMediaDrops := uMediaDrops u + 1,
            uMediaDropRecipients := uMediaDropRecipients u + word_of_nat (length (mbRecipients b))\<rparr> in
      if \<not> uMediaEnabled u then (False, drop_batch)
      else case try_send (uMedia u) b of
             (True, c) \<Rightarrow> (True, u\<lparr>uMedia := c\<rparr>)
           | (False, _) \<Rightarrow> (False, drop_batch))"

text \<open>The loop of \<^verbatim>\<open>DisableMedia\<close> that empties the media queue and counts what it removes.\<close>

definition count_drop :: "(MediaKind, MediaDrops) gomap \<Rightarrow> MediaBatch \<Rightarrow> (MediaKind, MediaDrops) gomap" where
  "count_drop drops batch =
     (let count = (case map_of drops (mbKind batch) of None \<Rightarrow> \<lparr>mdFrames = 0, mdRecipients = 0\<rparr> | Some c \<Rightarrow> c) in
      AList.update (mbKind batch)
        \<lparr>mdFrames = mdFrames count + 1,
         mdRecipients = mdRecipients count + word_of_nat (length (mbRecipients batch))\<rparr> drops)"

fun drain_media :: "nat \<Rightarrow> (MediaKind, MediaDrops) gomap \<Rightarrow> 'a UDP_scheme \<Rightarrow>
    (MediaKind, MediaDrops) gomap \<times> 'a UDP_scheme" where
  "drain_media 0 drops u = (drops, u)"
| "drain_media (Suc n) drops u =
     (case try_recv (uMedia u) of
        Some (batch, c) \<Rightarrow> drain_media n (count_drop drops batch) (u\<lparr>uMedia := c\<rparr>)
      | None \<Rightarrow> (drops, u))"

text \<open>The loop runs once for every queued batch: the mutex keeps new ones out.\<close>

definition DisableMedia :: "'a UDP_scheme \<Rightarrow> (MediaKind, MediaDrops) gomap \<times> 'a UDP_scheme" where
  "DisableMedia u = drain_media (length (ch_items (uMedia u))) [] (u\<lparr>uMediaEnabled := False\<rparr>)"

text \<open>One round of \<^verbatim>\<open>Read\<close> in which \<^verbatim>\<open>ReadFrom\<close> delivered a datagram; the buffer cuts it at \<open>limit\<close>.\<close>

definition Read_round :: "nat \<Rightarrow> Datagram \<Rightarrow> 'a UDP_scheme \<Rightarrow> 'a UDP_scheme" where
  "Read_round limit d u =
     (case try_send (uInbound u) (d\<lparr>dData := take limit (dData d)\<rparr>) of
        (True, c) \<Rightarrow> u\<lparr>uInbound := c\<rparr>
      | (False, _) \<Rightarrow> u\<lparr>uInboundDrops := uInboundDrops u + 1\<rparr>)"

section \<open>The write loop\<close>

text \<open>
  Where the writer goroutine is: at the first select (which prefers control), at the second
  select, inside the loop over a batch's recipients before the flag test, between the flag
  test and the control poll, before the media write, or returned.
\<close>

datatype writer =
    WPrefer
  | WSelect
  | WNext MediaBatch "addr list"
  | WPoll MediaBatch addr "addr list"
  | WSend MediaBatch addr "addr list"
  | WReturned

datatype origin = OControl | OMedia

text \<open>
  The adapter with its writer, the datagrams handed to the socket so far, and, as history,
  the accepted control datagrams. \<open>nDraining\<close> holds while \<^verbatim>\<open>DisableMedia\<close> owns the mutex.
\<close>

record net = UDP +
  nWriter :: writer
  nSent :: "(origin \<times> Datagram) list"
  nAccepted :: "Datagram list"
  nDraining :: bool

text \<open>One \<^verbatim>\<open>WriteTo\<close>: on success the writer goes on at \<open>w\<close>, on an error it returns.\<close>

definition write_to :: "bool \<Rightarrow> origin \<Rightarrow> Datagram \<Rightarrow> writer \<Rightarrow> net \<Rightarrow> net" where
  "write_to success orig d w s =
     (if success then s\<lparr>nSent := nSent s @ [(orig, d)], nWriter := w\<rparr> else s\<lparr>nWriter := WReturned\<rparr>)"

text \<open>
  The choices that Go leaves open: whether the context is done and chosen, whether a select
  with both queues ready takes control, and whether the socket write succeeds.
\<close>

record choice =
  chDone :: bool
  chControl :: bool
  chSuccess :: bool

definition write_control :: "choice \<Rightarrow> writer \<Rightarrow> net \<Rightarrow> net" where
  "write_control ch w s =
     (case try_recv (uControl s) of
        Some (d, c) \<Rightarrow> write_to (chSuccess ch) OControl d w (s\<lparr>uControl := c\<rparr>)
      | None \<Rightarrow> s)"

definition write_step :: "choice \<Rightarrow> net \<Rightarrow> net" where
  "write_step ch s =
     (case nWriter s of
        WPrefer \<Rightarrow>
          if chDone ch then s\<lparr>nWriter := WReturned\<rparr>
          else if ch_items (uControl s) \<noteq> [] then write_control ch WPrefer s
          else s\<lparr>nWriter := WSelect\<rparr>
      | WSelect \<Rightarrow>
          if chDone ch then s\<lparr>nWriter := WReturned\<rparr>
          else if ch_items (uControl s) \<noteq> [] \<and> (chControl ch \<or> ch_items (uMedia s) = [])
          then write_control ch WPrefer s
          else (case try_recv (uMedia s) of
                  Some (b, c) \<Rightarrow> s\<lparr>uMedia := c, nWriter := WNext b (mbRecipients b)\<rparr>
                | None \<Rightarrow> s)
      | WNext b [] \<Rightarrow> s\<lparr>nWriter := WPrefer\<rparr>
      | WNext b (a # rest) \<Rightarrow>
          if \<not> uMediaEnabled s then s\<lparr>nWriter := WPrefer\<rparr>
          else s\<lparr>nWriter := WPoll b a rest\<rparr>
      | WPoll b a rest \<Rightarrow>
          if ch_items (uControl s) \<noteq> [] then write_control ch (WSend b a rest) s
          else s\<lparr>nWriter := WSend b a rest\<rparr>
      | WSend b a rest \<Rightarrow>
          write_to (chSuccess ch) OMedia \<lparr>dAddress = a, dData = mbData b\<rparr> (WNext b rest) s
      | WReturned \<Rightarrow> s)"

section \<open>Interleavings\<close>

text \<open>
  The goroutines that share the adapter: the socket reader, the reflector's loop (which
  takes inbound datagrams and enqueues), \<^verbatim>\<open>DisableMedia\<close> cut at its iterations, and the writer.
\<close>

datatype net_event =
    NReceive nat Datagram
  | NTake
  | NEnqueueControl Datagram
  | NEnqueueMedia MediaBatch
  | NDisableStart
  | NDisableDrain
  | NWrite choice

fun net_step :: "net \<Rightarrow> net_event \<Rightarrow> net" where
  "net_step s (NReceive limit d) = Read_round limit d s"
| "net_step s NTake = (case try_recv (uInbound s) of Some (d, c) \<Rightarrow> s\<lparr>uInbound := c\<rparr> | None \<Rightarrow> s)"
| "net_step s (NEnqueueControl d) =
     (let (b, s) = EnqueueControl d s in if b then s\<lparr>nAccepted := nAccepted s @ [d]\<rparr> else s)"
| "net_step s (NEnqueueMedia b) = (if nDraining s then s else snd (EnqueueMedia b s))"
| "net_step s NDisableStart = (if nDraining s then s else s\<lparr>nDraining := True, uMediaEnabled := False\<rparr>)"
| "net_step s NDisableDrain =
     (if \<not> nDraining s then s
      else case try_recv (uMedia s) of
             Some (b, c) \<Rightarrow> s\<lparr>uMedia := c\<rparr>
           | None \<Rightarrow> s\<lparr>nDraining := False\<rparr>)"
| "net_step s (NWrite ch) = write_step ch s"


section \<open>Invariant\<close>

definition sent_by :: "origin \<Rightarrow> net \<Rightarrow> Datagram list" where
  "sent_by orig s = map snd (filter (\<lambda>x. fst x = orig) (nSent s))"

text \<open>
  The accepted control datagrams are, in order, those sent, at most one whose write failed
  when the writer returned, and those queued.
\<close>

definition control_in_order :: "net \<Rightarrow> bool" where
  "control_in_order s \<longleftrightarrow> (\<exists>lost. nAccepted s = sent_by OControl s @ lost @ ch_items (uControl s) \<and>
     length lost \<le> 1 \<and> (lost \<noteq> [] \<longrightarrow> nWriter s = WReturned))"

definition net_inv :: "net \<Rightarrow> bool" where
  "net_inv s \<longleftrightarrow> wf_chan (uInbound s) \<and> wf_chan (uControl s) \<and> wf_chan (uMedia s) \<and>
     (nDraining s \<longrightarrow> \<not> uMediaEnabled s) \<and> control_in_order s"

definition start_net :: "UDP \<Rightarrow> net" where
  "start_net u = UDP.extend u \<lparr>nWriter = WPrefer, nSent = [], nAccepted = [], nDraining = False\<rparr>"

definition net_init :: "net \<Rightarrow> bool" where
  "net_init s \<longleftrightarrow> (\<exists>i c m u. NewUDP i c m = Some u \<and> s = start_net u)"

lemma net_init_inv: "net_init s \<Longrightarrow> net_inv s"
  by (auto simp: net_init_def NewUDP_def start_net_def UDP.defs net_inv_def wf_chan_def make_chan_def
      control_in_order_def sent_by_def split: if_splits)

lemma EnqueueControl_eq:
  "EnqueueControl d u =
     (if length (ch_items (uControl u)) < ch_cap (uControl u)
      then (True, u\<lparr>uControl := uControl u\<lparr>ch_items := ch_items (uControl u) @ [d]\<rparr>\<rparr>)
      else (False, u\<lparr>uControlFailures := uControlFailures u + 1\<rparr>))"
  by (simp add: EnqueueControl_def try_send_def)

lemma sent_by_simps [simp]:
  "sent_by orig (s\<lparr>nWriter := w\<rparr>) = sent_by orig s"
  "sent_by orig (s\<lparr>uControl := c\<rparr>) = sent_by orig s"
  "sent_by orig (s\<lparr>uMedia := m\<rparr>) = sent_by orig s"
  "sent_by orig (s\<lparr>nSent := xs @ [(o', d)]\<rparr>) =
     map snd (filter (\<lambda>x. fst x = orig) xs) @ (if o' = orig then [d] else [])"
  by (auto simp: sent_by_def)

text \<open>Moving the writer, or handing the oldest control datagram to the socket, keeps the order.\<close>

lemma control_in_order_writer:
  "control_in_order s \<Longrightarrow> nWriter s \<noteq> WReturned \<Longrightarrow> control_in_order (s\<lparr>nWriter := w\<rparr>)"
  by (simp add: control_in_order_def)

lemma control_in_order_write:
  "control_in_order s \<Longrightarrow> nWriter s \<noteq> WReturned \<Longrightarrow> control_in_order (write_control ch w s)"
  by (auto simp: control_in_order_def write_control_def write_to_def try_recv_def sent_by_def
      split: list.splits intro: exI [of _ "[_]"])

lemma control_in_order_media:
  "control_in_order s \<Longrightarrow> nWriter s \<noteq> WReturned \<Longrightarrow> control_in_order (write_to ok OMedia d w s)"
  by (auto simp: control_in_order_def write_to_def sent_by_def)

lemma write_control_chans:
  "uInbound (write_control ch w s) = uInbound s" "uMedia (write_control ch w s) = uMedia s"
  "nDraining (write_control ch w s) = nDraining s" "uMediaEnabled (write_control ch w s) = uMediaEnabled s"
  "wf_chan (uControl s) \<Longrightarrow> wf_chan (uControl (write_control ch w s))"
  by (auto simp: write_control_def write_to_def wf_chan_def try_recv_def split: list.splits)

lemma net_inv_write_control:
  "net_inv s \<Longrightarrow> nWriter s \<noteq> WReturned \<Longrightarrow> net_inv (write_control ch w s)"
  by (simp add: net_inv_def write_control_chans control_in_order_write)

lemma net_inv_writer: "net_inv s \<Longrightarrow> nWriter s \<noteq> WReturned \<Longrightarrow> net_inv (s\<lparr>nWriter := w\<rparr>)"
  by (simp add: net_inv_def control_in_order_writer)

lemma net_inv_recv_media:
  "net_inv s \<Longrightarrow> try_recv (uMedia s) = Some (b, c) \<Longrightarrow> net_inv (s\<lparr>uMedia := c\<rparr>)"
  by (auto simp: net_inv_def control_in_order_def intro: wf_chan_recv)

lemma write_step_inv: "net_inv s \<Longrightarrow> net_inv (write_step ch s)"
proof (cases "nWriter s")
  case WSelect
  assume inv: "net_inv s"
  have "net_inv (s\<lparr>uMedia := c, nWriter := WNext b (mbRecipients b)\<rparr>)"
    if "try_recv (uMedia s) = Some (b, c)" for b c
    using net_inv_writer [OF net_inv_recv_media [OF inv that]] WSelect by simp
  with inv WSelect show ?thesis
    by (auto simp: write_step_def net_inv_writer net_inv_write_control split: option.splits)
next
  case (WNext b rest)
  assume "net_inv s"
  with WNext show ?thesis
    by (cases rest) (simp_all add: write_step_def net_inv_writer)
next
  case (WSend b a rest)
  assume inv: "net_inv s"
  then have "control_in_order (write_to (chSuccess ch) OMedia d w s)" for d w
    using WSend by (simp add: net_inv_def control_in_order_media)
  with inv WSend show ?thesis by (auto simp: write_step_def net_inv_def write_to_def)
qed (simp_all add: write_step_def net_inv_writer net_inv_write_control)

lemma net_step_inv: "net_inv s \<Longrightarrow> net_inv (net_step s e)"
proof (cases e)
  case (NReceive limit d)
  then show "net_inv s \<Longrightarrow> net_inv (net_step s e)"
    by (auto simp: Read_round_def try_send_def net_inv_def control_in_order_def wf_chan_def sent_by_def)
next
  case NTake
  then show "net_inv s \<Longrightarrow> net_inv (net_step s e)"
    by (auto simp: net_inv_def control_in_order_def sent_by_def split: option.splits intro: wf_chan_recv)
next
  case (NEnqueueControl d)
  then show "net_inv s \<Longrightarrow> net_inv (net_step s e)"
    by (auto simp: EnqueueControl_eq net_inv_def control_in_order_def wf_chan_def sent_by_def)
next
  case (NEnqueueMedia b)
  then show "net_inv s \<Longrightarrow> net_inv (net_step s e)"
    by (auto simp: EnqueueMedia_def Let_def try_send_def net_inv_def control_in_order_def wf_chan_def sent_by_def)
next
  case NDisableStart
  then show "net_inv s \<Longrightarrow> net_inv (net_step s e)"
    by (auto simp: net_inv_def control_in_order_def sent_by_def)
next
  case NDisableDrain
  then show "net_inv s \<Longrightarrow> net_inv (net_step s e)"
    by (auto simp: net_inv_def control_in_order_def sent_by_def split: option.splits intro: wf_chan_recv)
next
  case (NWrite ch)
  then show "net_inv s \<Longrightarrow> net_inv (net_step s e)" by (simp add: write_step_inv)
qed

interpretation net: machine net_init net_step net_inv
  by unfold_locales (simp_all add: net_init_inv net_step_inv)


section \<open>Disabling media\<close>

text \<open>
  The number of media datagrams sent, plus one when the writer has passed the flag test for
  a recipient it has not sent to yet.
\<close>

definition media_budget :: "net \<Rightarrow> nat" where
  "media_budget s = length (sent_by OMedia s) +
     (case nWriter s of WPoll _ _ _ \<Rightarrow> 1 | WSend _ _ _ \<Rightarrow> 1 | _ \<Rightarrow> 0)"

lemma media_budget_write_control:
  "nWriter s \<in> {WPrefer, WSelect} \<Longrightarrow> media_budget (write_control ch WPrefer s) \<le> media_budget s"
  "nWriter s = WPoll b a rest \<Longrightarrow> media_budget (write_control ch (WSend b a rest) s) \<le> media_budget s"
  by (auto simp: media_budget_def write_control_def write_to_def sent_by_def split: option.splits)

lemma write_step_budget:
  assumes "\<not> uMediaEnabled s"
  shows "\<not> uMediaEnabled (write_step ch s) \<and> media_budget (write_step ch s) \<le> media_budget s"
proof (cases "nWriter s")
  case (WNext b rest)
  with assms show ?thesis
    by (cases rest) (simp_all add: write_step_def media_budget_def)
next
  case (WSend b a rest)
  with assms show ?thesis
    by (simp add: write_step_def media_budget_def write_to_def sent_by_def)
qed (use assms in \<open>auto simp: write_step_def write_control_chans media_budget_write_control
       split: option.splits; auto simp: media_budget_def\<close>)+

lemma net_step_budget:
  assumes "\<not> uMediaEnabled s"
  shows "\<not> uMediaEnabled (net_step s e) \<and> media_budget (net_step s e) \<le> media_budget s"
proof (cases e)
  case (NWrite ch)
  with write_step_budget [OF assms] show ?thesis by simp
qed (use assms in \<open>auto simp: Read_round_def EnqueueControl_eq EnqueueMedia_def try_send_def Let_def
       media_budget_def sent_by_def split: option.splits\<close>)

lemma run_budget:
  "\<not> uMediaEnabled s \<Longrightarrow> \<not> uMediaEnabled (run net_step s es) \<and> media_budget (run net_step s es) \<le> media_budget s"
proof (induction es arbitrary: s)
  case (Cons e es)
  from net_step_budget [OF Cons.prems, of e] Cons.IH [of "net_step s e"] show ?case by auto
qed simp

lemma drain_media_all:
  "n = length (ch_items (uMedia u)) \<Longrightarrow>
    drain_media n drops u =
      (foldl count_drop drops (ch_items (uMedia u)), u\<lparr>uMedia := (uMedia u)\<lparr>ch_items := []\<rparr>\<rparr>)"
proof (induction n arbitrary: drops u)
  case 0
  then show ?case by simp
next
  case (Suc n)
  then obtain b bs where "ch_items (uMedia u) = b # bs" by (cases "ch_items (uMedia u)") auto
  with Suc.prems Suc.IH [of "u\<lparr>uMedia := (uMedia u)\<lparr>ch_items := bs\<rparr>\<rparr>"] show ?case
    by (simp add: try_recv_def)
qed

definition of_kind :: "MediaKind \<Rightarrow> MediaBatch list \<Rightarrow> MediaBatch list" where
  "of_kind k bs = filter (\<lambda>b. mbKind b = k) bs"

lemma foldl_count_drop:
  "map_of (foldl count_drop drops bs) k =
     (if of_kind k bs = [] then map_of drops k
      else let c = (case map_of drops k of None \<Rightarrow> \<lparr>mdFrames = 0, mdRecipients = 0\<rparr> | Some c \<Rightarrow> c) in
        Some \<lparr>mdFrames = mdFrames c + word_of_nat (length (of_kind k bs)),
              mdRecipients = mdRecipients c + (\<Sum>b \<leftarrow> of_kind k bs. word_of_nat (length (mbRecipients b)))\<rparr>)"
  by (induction bs arbitrary: drops)
    (auto simp: count_drop_def map_simps of_kind_def Let_def algebra_simps split: option.splits)

section \<open>Properties\<close>

text \<open>
  C36. Under every interleaving of the goroutines the queues stay within their capacities, and
  control traffic is neither reordered nor duplicated nor lost: the accepted control datagrams
  are those written to the socket, in order, followed by those still queued, except for at most
  one whose write failed and made the writer return.
\<close>

theorem transport_invariant:
  assumes "NewUDP i c m = Some u"
  shows "net_inv (run net_step (start_net u) es)"
  by (rule net.inv_reachable) (use assms in \<open>auto simp: net_init_def\<close>)

theorem transport_invariant_witness:
  "net_inv (run net_step (start_net (the (NewUDP 1 1 1)))
     [NEnqueueControl \<lparr>dAddress = ''a'', dData = [1]\<rparr>, NWrite \<lparr>chDone = False, chControl = True, chSuccess = True\<rparr>])"
proof (rule transport_invariant)
  show "NewUDP 1 1 1 = Some (the (NewUDP 1 1 1))" by (simp add: NewUDP_def)
qed

text \<open>
  C37. After media is disabled at most one more media datagram leaves the socket, under every
  interleaving that follows: the one whose recipient had already passed the writer's test.
\<close>

theorem disable_stops_media:
  assumes "\<not> uMediaEnabled s"
  shows "length (sent_by OMedia (run net_step s es)) \<le> length (sent_by OMedia s) + 1 \<and>
    \<not> uMediaEnabled (run net_step s es)"
proof -
  have "length (sent_by OMedia t) \<le> media_budget t" "media_budget t \<le> length (sent_by OMedia t) + 1" for t
    by (auto simp: media_budget_def split: writer.splits)
  with run_budget [OF assms, of es] show ?thesis by (meson order_trans)
qed

theorem disable_stops_media_witness:
  "length (sent_by OMedia (run net_step (start_net (the (NewUDP 1 1 1))\<lparr>uMediaEnabled := False\<rparr>)
     [NEnqueueMedia \<lparr>mbData = [1], mbRecipients = [''a''], mbKind = MediaAudio\<rparr>])) \<le>
   length (sent_by OMedia (start_net (the (NewUDP 1 1 1))\<lparr>uMediaEnabled := False\<rparr>)) + 1"
proof -
  let ?s = "start_net (the (NewUDP 1 1 1))\<lparr>uMediaEnabled := False\<rparr>"
  have "\<not> uMediaEnabled ?s" by simp
  from disable_stops_media [OF this] show ?thesis by blast
qed

text \<open>
  \<^verbatim>\<open>DisableMedia\<close> empties the media queue, refuses every later batch, touches nothing else,
  and reports for each kind the number of removed frames and of their recipients.
\<close>

theorem DisableMedia_reports:
  "let (drops, u') = DisableMedia u; removed = ch_items (uMedia u) in
     u' = u\<lparr>uMediaEnabled := False, uMedia := (uMedia u)\<lparr>ch_items := []\<rparr>\<rparr> \<and>
     fst (EnqueueMedia b u') = False \<and>
     (\<forall>k. map_of drops k = (if of_kind k removed = [] then None
        else Some \<lparr>mdFrames = word_of_nat (length (of_kind k removed)),
                   mdRecipients = (\<Sum>b \<leftarrow> of_kind k removed. word_of_nat (length (mbRecipients b)))\<rparr>))"
  by (simp add: DisableMedia_def drain_media_all foldl_count_drop EnqueueMedia_def Let_def)

end
