(* ===== verification/TransportRead.thy ===== *)
theory TransportRead
  imports Transport
begin

text \<open>
  \<^verbatim>\<open>UDP.Read\<close> of \<^verbatim>\<open>internal/transport/udp.go\<close> as a whole: the loop over the answers of the socket, and what
  becomes of the datagrams that arrive while nobody takes from the inbound queue.
\<close>

text \<open>The deadline of a read: that of the context, or a second from now.\<close>

definition read_deadline :: "time \<Rightarrow> time option \<Rightarrow> time" where
  "read_deadline instant limit = (case limit of Some d \<Rightarrow> d | None \<Rightarrow> instant + Second)"

text \<open>
  An answer of the socket to one round: the deadline cannot be set, no datagram came (and whether the context
  has ended, with its error), or a datagram.
\<close>

datatype read_answer = ReadRefused string | ReadNothing "string option" | ReadDatagram Datagram

text \<open>The error that \<^verbatim>\<open>Read\<close> returns; \<^const>\<open>None\<close> when the answers end and it still reads.\<close>

fun Read_loop :: "nat \<Rightarrow> read_answer list \<Rightarrow> 'a UDP_scheme \<Rightarrow> string option \<times> 'a UDP_scheme" where
  "Read_loop limit [] u = (None, u)"
| "Read_loop limit (ReadRefused err # answers) u = (Some err, u)"
| "Read_loop limit (ReadNothing (Some err) # answers) u = (Some err, u)"
| "Read_loop limit (ReadNothing None # answers) u = Read_loop limit answers u"
| "Read_loop limit (ReadDatagram d # answers) u = Read_loop limit answers (Read_round limit d u)"

text \<open>The datagrams that are read before \<^verbatim>\<open>Read\<close> returns.\<close>

fun arriving :: "nat \<Rightarrow> read_answer list \<Rightarrow> Datagram list" where
  "arriving limit (ReadNothing None # answers) = arriving limit answers"
| "arriving limit (ReadDatagram d # answers) = d\<lparr>dData := take limit (dData d)\<rparr> # arriving limit answers"
| "arriving limit answers = []"

text \<open>
  The first datagrams that fit are queued in order, every other one is counted, and nothing else changes.
\<close>

lemma Read_loop_queues:
  fixes u :: "'a UDP_scheme"
  defines "room \<equiv> ch_cap (uInbound u) - length (ch_items (uInbound u))"
  assumes "wf_chan (uInbound u)"
  shows "snd (Read_loop limit answers u) =
    u\<lparr>uInbound := (uInbound u)\<lparr>ch_items := ch_items (uInbound u) @ take room (arriving limit answers)\<rparr>,
      uInboundDrops := uInboundDrops u + word_of_nat (length (arriving limit answers) - room)\<rparr>"
  unfolding room_def
  using assms(2)
proof (induction limit answers arbitrary: u rule: arriving.induct)
  case (2 limit d answers)
  show ?case
  proof (cases "length (ch_items (uInbound u)) < ch_cap (uInbound u)")
    case True
    then obtain k where k: "ch_cap (uInbound u) - length (ch_items (uInbound u)) = Suc k" by (cases "ch_cap (uInbound u) - length (ch_items (uInbound u))") auto
    then have k': "ch_cap (uInbound u) - Suc (length (ch_items (uInbound u))) = k" by simp
    let ?d = "d\<lparr>dData := take limit (dData d)\<rparr>"
    have round: "Read_round limit d u = u\<lparr>uInbound := (uInbound u)\<lparr>ch_items := ch_items (uInbound u) @ [?d]\<rparr>\<rparr>"
      using True by (simp add: Read_round_def try_send_def)
    have "wf_chan (uInbound (Read_round limit d u))" using True by (simp add: round wf_chan_def)
    from 2(1) [OF this] show ?thesis by (simp add: round k k')
  next
    case False
    then have round: "Read_round limit d u = u\<lparr>uInboundDrops := uInboundDrops u + 1\<rparr>"
      by (simp add: Read_round_def try_send_def)
    have room: "ch_cap (uInbound u) - length (ch_items (uInbound u)) = 0" using False by simp
    have "wf_chan (uInbound (Read_round limit d u))" using 2(2) by (simp add: round)
    from 2(1) [OF this] show ?thesis by (simp add: round room add.assoc)
  qed
qed simp_all

end
