(* ===== verification/DiagRecord.thy ===== *)
theory DiagRecord
  imports GoStd Systems
begin

text \<open>
  \<^verbatim>\<open>internal/record/record.go\<close>: the diagnostic record format of \<^verbatim>\<open>opusrefctl\<close>. Reading and
  writing are an instance of the locale \<open>framing\<close>, so the round trip of whole recordings
  follows from the round trip of one record.
\<close>

section \<open>Data\<close>

abbreviation (input) HeaderSize :: nat where "HeaderSize \<equiv> 16"

type_synonym Kind = u8

abbreviation (input) KindAudio :: Kind where "KindAudio \<equiv> 1"
abbreviation (input) KindData :: Kind where "KindData \<equiv> 2"

record Record =
  rKind :: Kind
  rDataType :: u16
  rTimestamp :: u32
  rPayload :: bytes

text \<open>
  The errors of \<^verbatim>\<open>Read\<close> and \<^verbatim>\<open>Write\<close>. \<^verbatim>\<open>io.ReadFull\<close> reports \<^verbatim>\<open>io.EOF\<close> when it read nothing
  and \<^verbatim>\<open>io.ErrUnexpectedEOF\<close> otherwise; a truncation error wraps what it reported, with the
  number of bytes read as argument here.
\<close>

datatype record_error =
    EOF
  | TruncatedHeader nat
  | BadDiagnosticMagic
  | InvalidHeader
  | InvalidPayloadLength
  | TruncatedPayload nat
  | InvalidRecord

text \<open>\<^verbatim>\<open>errors.Is(err, io.EOF)\<close>: the error is \<^verbatim>\<open>io.EOF\<close> or wraps it.\<close>

fun is_EOF :: "record_error \<Rightarrow> bool" where
  "is_EOF EOF = True"
| "is_EOF (TruncatedHeader n) = (n = 0)"
| "is_EOF (TruncatedPayload n) = (n = 0)"
| "is_EOF _ = False"

definition recordMagic :: bytes where
  "recordMagic = bytes_of ''ORR1''"

section \<open>Operations\<close>

text \<open>The result is \<^term>\<open>None\<close> for a panic; the second component is what the reader still holds.\<close>

definition Read :: "bytes \<Rightarrow> ((record_error + Record) \<times> bytes) option" where
  "Read src =
     (case ReadFull HeaderSize src of
        (Inl n, src) \<Rightarrow> if n = 0 then Some (Inl EOF, src) else Some (Inl (TruncatedHeader n), src)
      | (Inr h, src) \<Rightarrow> do {
          magic \<leftarrow> slice h 0 4;
          if magic \<noteq> recordMagic then Some (Inl BadDiagnosticMagic, src)
          else do {
            kind \<leftarrow> at h 4;
            s \<leftarrow> slice h 6 8;    typ \<leftarrow> Uint16 s;
            s \<leftarrow> slice h 12 16;  len \<leftarrow> Uint32 s;
            flags \<leftarrow> at h 5;
            if flags \<noteq> 0 \<or> kind < KindAudio \<or> kind > KindData \<or>
               kind = KindAudio \<and> typ \<noteq> 0 \<or> kind = KindData \<and> typ = 0
            then Some (Inl InvalidHeader, src)
            else let max = (if kind = KindData then 1160 else 1168) in
              if len = 0 \<or> len > max then Some (Inl InvalidPayloadLength, src)
              else case ReadFull (unat len) src of
                     (Inl n, src) \<Rightarrow> Some (Inl (TruncatedPayload n), src)
                   | (Inr p, src) \<Rightarrow> do {
                       s \<leftarrow> slice h 8 12;  timestamp \<leftarrow> Uint32 s;
                       Some (Inr \<lparr>rKind = kind, rDataType = typ, rTimestamp = timestamp, rPayload = p\<rparr>, src)
                     }
          }
        })"

text \<open>
  \<^verbatim>\<open>Write\<close> to a writer that accepts everything: the bytes it writes, or its own error, or
  \<^term>\<open>None\<close> for a panic.
\<close>

definition Write :: "Record \<Rightarrow> (record_error + bytes) option" where
  "Write rec =
     (let max = (if rKind rec = KindData then 1160 else 1168) in
      if rKind rec < KindAudio \<or> rKind rec > KindData \<or> length (rPayload rec) < 1 \<or>
         length (rPayload rec) > max \<or> rKind rec = KindAudio \<and> rDataType rec \<noteq> 0 \<or>
         rKind rec = KindData \<and> rDataType rec = 0
      then Some (Inl InvalidRecord)
      else do {
        h \<leftarrow> store (replicate HeaderSize 0) 0 4 recordMagic;
        h \<leftarrow> store h 4 5 [rKind rec];
        h \<leftarrow> store h 6 8 (PutUint16 (rDataType rec));
        h \<leftarrow> store h 8 12 (PutUint32 (rTimestamp rec));
        h \<leftarrow> store h 12 16 (PutUint32 (word_of_nat (length (rPayload rec))));
        Some (Inr (h @ rPayload rec))
      })"

section \<open>Correctness\<close>

definition wf_record :: "Record \<Rightarrow> bool" where
  "wf_record rec \<longleftrightarrow> (rKind rec = KindAudio \<and> rDataType rec = 0 \<or> rKind rec = KindData \<and> rDataType rec \<noteq> 0) \<and>
     1 \<le> length (rPayload rec) \<and> length (rPayload rec) \<le> (if rKind rec = KindData then 1160 else 1168)"

text \<open>A header with any magic \<open>m\<close> and flags \<open>fl\<close>, and the header that \<^verbatim>\<open>Write\<close> produces.\<close>

definition raw_header :: "bytes \<Rightarrow> Kind \<Rightarrow> byte \<Rightarrow> u16 \<Rightarrow> u32 \<Rightarrow> u32 \<Rightarrow> bytes" where
  "raw_header m k fl t ts n = m @ [k, fl] @ PutUint16 t @ PutUint32 ts @ PutUint32 n"

definition record_header :: "Kind \<Rightarrow> u16 \<Rightarrow> u32 \<Rightarrow> u32 \<Rightarrow> bytes" where
  "record_header k t ts n = raw_header recordMagic k 0 t ts n"

lemma kind_range: "\<not> (k < KindAudio \<or> k > KindData) \<longleftrightarrow> k = KindAudio \<or> k = KindData"
  for k :: u8
proof -
  have "unat k = 1 \<or> unat k = 2" if "1 \<le> unat k" "unat k \<le> 2" using that by linarith
  then show ?thesis
    by (auto simp: word_less_nat_alt not_less word_le_nat_alt unat_eq_nat_uint [symmetric] unat_arith_simps)
qed

lemma length_recordMagic [simp]: "length recordMagic = 4"
  by (simp add: recordMagic_def)

lemma record_stores:
  "do {
     h \<leftarrow> store (replicate 16 0) 0 4 recordMagic;
     h \<leftarrow> store h 4 5 [k];
     h \<leftarrow> store h 6 8 (PutUint16 t);
     h \<leftarrow> store h 8 12 (PutUint32 ts);
     h \<leftarrow> store h 12 16 (PutUint32 n);
     Some (Inr (h @ p))
   } = Some (Inr (record_header k t ts n @ p))"
  by (simp add: store_def record_header_def raw_header_def recordMagic_def bytes_of_def PutUint16_def PutUint32_def
      numeral_eq_Suc)

lemma Write_eq:
  "Write rec = (if wf_record rec
     then Some (Inr (record_header (rKind rec) (rDataType rec) (rTimestamp rec)
                       (word_of_nat (length (rPayload rec))) @ rPayload rec))
     else Some (Inl InvalidRecord))"
proof -
  have "\<not> wf_record rec \<longleftrightarrow> rKind rec < KindAudio \<or> rKind rec > KindData \<or> length (rPayload rec) < 1 \<or>
         length (rPayload rec) > (if rKind rec = KindData then 1160 else 1168) \<or>
         rKind rec = KindAudio \<and> rDataType rec \<noteq> 0 \<or> rKind rec = KindData \<and> rDataType rec = 0"
    using kind_range [of "rKind rec"] unfolding wf_record_def not_le [symmetric] by auto
  then show ?thesis unfolding Write_def Let_def record_stores by auto
qed

lemma length_raw_header: "length m = 4 \<Longrightarrow> length (raw_header m k fl t ts n) = 16"
  by (simp add: raw_header_def)

lemma raw_header_reads:
  assumes "length m = 4"
  shows "slice (raw_header m k fl t ts n) 0 4 = Some m"
    "at (raw_header m k fl t ts n) 4 = Some k"
    "at (raw_header m k fl t ts n) 5 = Some fl"
    "slice (raw_header m k fl t ts n) 6 8 = Some (PutUint16 t)"
    "slice (raw_header m k fl t ts n) 8 12 = Some (PutUint32 ts)"
    "slice (raw_header m k fl t ts n) 12 16 = Some (PutUint32 n)"
  using assms by (simp_all add: raw_header_def slice_def at_def nth_append)

text \<open>What \<^const>\<open>Read\<close> answers on an input of at least 16 bytes.\<close>

lemma Read_raw:
  assumes "length m = 4"
  shows "Read (raw_header m k fl t ts n @ src) = Some (
    if m \<noteq> recordMagic then (Inl BadDiagnosticMagic, src)
    else if \<not> (fl = 0 \<and> (k = KindAudio \<and> t = 0 \<or> k = KindData \<and> t \<noteq> 0)) then (Inl InvalidHeader, src)
    else if n = 0 \<or> n > (if k = KindData then 1160 else 1168) then (Inl InvalidPayloadLength, src)
    else if length src < unat n then (Inl (TruncatedPayload (length src)), [])
    else (Inr \<lparr>rKind = k, rDataType = t, rTimestamp = ts, rPayload = take (unat n) src\<rparr>, drop (unat n) src))"
proof -
  have guard: "fl \<noteq> 0 \<or> k < 1 \<or> k > 2 \<or> k = 1 \<and> t \<noteq> 0 \<or> k = 2 \<and> t = 0 \<longleftrightarrow>
      \<not> (fl = 0 \<and> (k = KindAudio \<and> t = 0 \<or> k = KindData \<and> t \<noteq> 0))"
    using kind_range [of k] by auto
  show ?thesis
    unfolding Read_def ReadFull_append [OF length_raw_header [OF assms]]
    using assms guard
    by (cases "length src < unat n")
       (simp_all only: raw_header_reads prod.case sum.case Option.bind.simps Uint16_Put Uint32_Put Let_def
          ReadFull_def if_True if_False, simp_all)
qed

text \<open>Every 16 bytes are a header of this form.\<close>

lemma raw_header_shape:
  assumes "length h = 16"
  obtains m k fl t ts n where "h = raw_header m k fl t ts n" "length m = 4"
proof -
  obtain t where t: "PutUint16 t = take 2 (drop 6 h)"
    using Put_Uint16 [of "take 2 (drop 6 h)"] Uint16_total [of "take 2 (drop 6 h)"] assms by auto
  obtain ts where ts: "PutUint32 ts = take 4 (drop 8 h)"
    using Put_Uint32 [of "take 4 (drop 8 h)"] Uint32_total [of "take 4 (drop 8 h)"] assms by auto
  obtain n where n: "PutUint32 n = drop 12 h"
    using Put_Uint32 [of "drop 12 h"] Uint32_total [of "drop 12 h"] assms by auto
  have "h = take 4 h @ [h ! 4, h ! 5] @ take 2 (drop 6 h) @ take 4 (drop 8 h) @ drop 12 h"
    using assms by (auto simp: numeral_eq_Suc length_Suc_conv)
  then have "h = raw_header (take 4 h) (h ! 4) (h ! 5) t ts n" by (simp only: raw_header_def t ts n)
  with assms show thesis using that [of "take 4 h"] by simp
qed

lemma src_cases:
  obtains (short) "length src < 16"
  | (long) m k fl t ts n rest where "src = raw_header m k fl t ts n @ rest" "length m = 4"
proof (cases "length src < 16")
  case False
  then have "length (take 16 src) = 16" by simp
  then show thesis using long by (metis raw_header_shape append_take_drop_id)
qed (rule short)

lemma Read_short:
  "length src < 16 \<Longrightarrow> Read src = Some (Inl (if src = [] then EOF else TruncatedHeader (length src)), [])"
  by (simp add: Read_def ReadFull_def)

lemma Read_accepts:
  assumes "Read src = Some (Inr rec, rest)"
  shows "wf_record rec \<and> src = record_header (rKind rec) (rDataType rec) (rTimestamp rec)
    (word_of_nat (length (rPayload rec))) @ rPayload rec @ rest"
proof (cases src rule: src_cases)
  case short
  with assms show ?thesis by (simp add: Read_short)
next
  case (long m k fl t ts n r)
  from assms have "m = recordMagic" "fl = 0" "k = KindAudio \<and> t = 0 \<or> k = KindData \<and> t \<noteq> 0"
    "n \<noteq> 0" "n \<le> (if k = KindData then 1160 else 1168)" "unat n \<le> length r"
    "rec = \<lparr>rKind = k, rDataType = t, rTimestamp = ts, rPayload = take (unat n) r\<rparr>" "rest = drop (unat n) r"
    by (auto simp: long Read_raw split: if_splits)
  moreover from this have "1 \<le> unat n" "unat n \<le> (if k = KindData then 1160 else 1168)"
    by (auto simp: unat_gt_0 Suc_le_eq word_le_nat_alt split: if_splits)
  ultimately show ?thesis by (auto simp: long(1) wf_record_def record_header_def)
qed

lemma Read_Write:
  assumes "wf_record rec"
  shows "Read (record_header (rKind rec) (rDataType rec) (rTimestamp rec)
    (word_of_nat (length (rPayload rec))) @ rPayload rec @ rest) = Some (Inr rec, rest)"
proof -
  let ?n = "word_of_nat (length (rPayload rec)) :: u32"
  have l: "length (rPayload rec) \<le> (if rKind rec = KindData then 1160 else 1168)" "1 \<le> length (rPayload rec)"
    using assms by (auto simp: wf_record_def)
  then have u: "unat ?n = length (rPayload rec)"
    by (simp add: unat_of_nat split: if_splits)
  with l have "?n \<noteq> 0" "\<not> ?n > (if rKind rec = KindData then 1160 else 1168)"
    by (auto simp: word_less_nat_alt split: if_splits)
  with assms u show ?thesis by (auto simp: record_header_def Read_raw wf_record_def)
qed

definition write_record :: "Record \<Rightarrow> bytes option" where
  "write_record rec = (case Write rec of Some (Inr bs) \<Rightarrow> Some bs | _ \<Rightarrow> None)"

definition read_record :: "bytes \<Rightarrow> (Record \<times> bytes) option" where
  "read_record src = (case Read src of Some (Inr rec, rest) \<Rightarrow> Some (rec, rest) | _ \<Rightarrow> None)"

lemma write_record_Some:
  "write_record rec = Some bs \<longleftrightarrow> wf_record rec \<and> bs = record_header (rKind rec) (rDataType rec)
     (rTimestamp rec) (word_of_nat (length (rPayload rec))) @ rPayload rec"
  by (auto simp: write_record_def Write_eq)

interpretation diag: framing write_record read_record
  by unfold_locales (auto simp: write_record_Some read_record_def Read_Write Read_short)


text \<open>When the end of the input is reported.\<close>

lemma eof_source:
  "(\<exists>err rest. Read src = Some (Inl err, rest) \<and> is_EOF err) =
   (src = [] \<or> (\<exists>k t ts n. (k = KindAudio \<and> t = 0 \<or> k = KindData \<and> t \<noteq> 0) \<and>
      0 < n \<and> n \<le> (if k = KindData then 1160 else 1168) \<and> src = record_header k t ts n))"
proof (cases src rule: src_cases)
  case short
  have "src \<noteq> record_header k t ts n" for k t ts n
    using short length_raw_header [of recordMagic k 0 t ts n] by (auto simp: record_header_def)
  with short show ?thesis by (auto simp: Read_short)
next
  case (long m k fl t ts n r)
  have ne: "src \<noteq> []" using long by (simp add: raw_header_def)
  show ?thesis (is "?L = ?R")
  proof
    assume ?L
    then have "src = record_header k t ts n" "k = KindAudio \<and> t = 0 \<or> k = KindData \<and> t \<noteq> 0" "0 < n"
      "n \<le> (if k = KindData then 1160 else 1168)"
      by (auto simp: long Read_raw record_header_def not_less word_neq_0_conv split: if_splits)
    then show ?R by blast
  next
    assume ?R
    with ne obtain k t ts n where h: "k = KindAudio \<and> t = 0 \<or> k = KindData \<and> t \<noteq> 0" "0 < n"
      "n \<le> (if k = KindData then 1160 else 1168)" "src = raw_header recordMagic k 0 t ts n"
      by (auto simp: record_header_def)
    from h(1-3) have "Read (raw_header recordMagic k 0 t ts n @ []) = Some (Inl (TruncatedPayload 0), [])"
      by (subst Read_raw) (auto simp: unat_gt_0)
    then show ?L using h(4) by force
  qed
qed

section \<open>Properties\<close>

text \<open>
  Reading accepts exactly what writing produces: \<^verbatim>\<open>Read\<close> returns a record and leaves
  \<open>rest\<close> unread if and only if the input is the bytes that \<^verbatim>\<open>Write\<close> emits for that record,
  followed by \<open>rest\<close>. Neither function panics on any input.
\<close>

theorem record_read_iff_written:
  "(Read src = Some (Inr rec, rest)) = (\<exists>bs. Write rec = Some (Inr bs) \<and> src = bs @ rest) \<and>
   Read src \<noteq> None \<and> Write rec \<noteq> None"
proof -
  have "Read src \<noteq> None"
    by (cases src rule: src_cases) (simp_all add: Read_short Read_raw)
  moreover have "(Read src = Some (Inr rec, rest)) = (\<exists>bs. Write rec = Some (Inr bs) \<and> src = bs @ rest)"
    by (auto simp: Write_eq Read_Write dest!: Read_accepts)
  ultimately show ?thesis by (simp add: Write_eq)
qed

text \<open>
  A recording round trips: the concatenation of the encodings of any list of records is
  read back as exactly that list, with nothing left over.
\<close>

theorem recording_roundtrip:
  assumes "map write_record recs = map Some bss"
  shows "read_stream (length recs) read_record (concat bss) = (recs, [])"
  using diag.read_stream_concat [OF assms diag.rd_nonempty order.refl] by simp

theorem recording_roundtrip_witness:
  "\<exists>bss. read_stream 2 read_record (concat bss) =
     ([\<lparr>rKind = 1, rDataType = 0, rTimestamp = 960, rPayload = [1, 2, 3]\<rparr>,
       \<lparr>rKind = 2, rDataType = 7, rTimestamp = 1920, rPayload = [4]\<rparr>], [])"
proof -
  let ?a = "\<lparr>rKind = 1, rDataType = 0, rTimestamp = 960, rPayload = [1, 2, 3]\<rparr>"
  let ?b = "\<lparr>rKind = 2, rDataType = 7, rTimestamp = 1920, rPayload = [4]\<rparr>"
  have "wf_record ?a" "wf_record ?b" by (simp_all add: wf_record_def)
  then obtain x y where "write_record ?a = Some x" "write_record ?b = Some y"
    by (simp add: write_record_def Write_eq)
  then have "map write_record [?a, ?b] = map Some [x, y]" by simp
  from recording_roundtrip [OF this] have "read_stream 2 read_record (concat [x, y]) = ([?a, ?b], [])"
    by (simp only: list.size numeral_2_eq_2 add_Suc_right add_0_right)
  then show ?thesis by (rule exI)
qed

text \<open>
  C38. The end of the input as \<^verbatim>\<open>errors.Is(err, io.EOF)\<close> sees it: it is reported not only
  for an empty input but also for an input that stops right after a valid header, where the
  announced payload is missing altogether.
\<close>

theorem record_eof:
  "(\<exists>err rest. Read src = Some (Inl err, rest) \<and> is_EOF err) =
   (src = [] \<or> (\<exists>k t ts n. (k = KindAudio \<and> t = 0 \<or> k = KindData \<and> t \<noteq> 0) \<and>
      0 < n \<and> n \<le> (if k = KindData then 1160 else 1168) \<and> src = record_header k t ts n))"
  by (rule eof_source)

end
