(* ===== verification/Crypto.thy ===== *)
theory Crypto
  imports Prelude
begin

text \<open>
  The parts of \<^verbatim>\<open>crypto/sha256\<close> and \<^verbatim>\<open>crypto/hmac\<close> that the handshake uses: the SHA-256 hash of a
  byte string (FIPS 180-4) and the keyed hash over it (RFC 2104).
\<close>

section \<open>SHA-256\<close>

text \<open>
  The 64 round constants and 8 initial values of the standard are the first 32 bits of the fractional parts of the square
  and cube roots of the first primes. They are computed from this description: \<open>root_bits\<close>
  finds the integer root of a number bit by bit.
\<close>

definition small_primes :: "nat list" where
  "small_primes = filter (\<lambda>p. list_all (\<lambda>d. p mod d \<noteq> 0) [2..<p]) [2..<312]"

fun root_bits :: "nat \<Rightarrow> nat \<Rightarrow> int \<Rightarrow> int \<Rightarrow> int" where
  "root_bits 0 k n acc = acc"
| "root_bits (Suc b) k n acc = root_bits b k n (if (acc + 2 ^ b) ^ k \<le> n then acc + 2 ^ b else acc)"

definition root_fraction :: "nat \<Rightarrow> nat \<Rightarrow> u32" where
  "root_fraction k p = word_of_int (root_bits 40 k (int p * 2 ^ (32 * k)) 0)"

definition sha256_init :: "u32 list" where
  "sha256_init = map (root_fraction 2) [2, 3, 5, 7, 11, 13, 17, 19]"

definition sha256_k :: "u32 list" where
  "sha256_k = map (root_fraction 3) small_primes"

text \<open>The padded message: a one bit, zeros, and the length in bits, to a multiple of 64 bytes.\<close>

definition sha256_pad :: "bytes \<Rightarrow> bytes" where
  "sha256_pad m = m @ [0x80] @ replicate ((119 - length m mod 64) mod 64) 0 @ PutUint64 (word_of_nat (8 * length m))"

fun words_of :: "bytes \<Rightarrow> u32 list" where
  "words_of (a # b # c # d # r) = get_be [a, b, c, d] # words_of r"
| "words_of _ = []"

definition sigma0 :: "u32 \<Rightarrow> u32" where
  "sigma0 x = word_rotr 7 x XOR word_rotr 18 x XOR drop_bit 3 x"

definition sigma1 :: "u32 \<Rightarrow> u32" where
  "sigma1 x = word_rotr 17 x XOR word_rotr 19 x XOR drop_bit 10 x"

text \<open>The message schedule, kept with the newest word first.\<close>

fun schedule :: "nat \<Rightarrow> u32 list \<Rightarrow> u32 list" where
  "schedule 0 ws = ws"
| "schedule (Suc n) ws = schedule n ((sigma1 (ws ! 1) + ws ! 6 + sigma0 (ws ! 14) + ws ! 15) # ws)"

fun sha256_round :: "u32 list \<Rightarrow> u32 \<times> u32 \<Rightarrow> u32 list" where
  "sha256_round [a, b, c, d, e, f, g, h] (k, w) =
     (let s1 = word_rotr 6 e XOR word_rotr 11 e XOR word_rotr 25 e;
          ch = (e AND f) XOR (NOT e AND g);
          t1 = h + s1 + ch + k + w;
          s0 = word_rotr 2 a XOR word_rotr 13 a XOR word_rotr 22 a;
          maj = (a AND b) XOR (a AND c) XOR (b AND c);
          t2 = s0 + maj
      in [t1 + t2, a, b, c, d + t1, e, f, g])"
| "sha256_round s _ = s"

definition sha256_block :: "u32 list \<Rightarrow> bytes \<Rightarrow> u32 list" where
  "sha256_block s block = map2 (+) s
     (foldl sha256_round s (zip sha256_k (rev (schedule 48 (rev (words_of block))))))"

fun sha256_blocks :: "nat \<Rightarrow> u32 list \<Rightarrow> bytes \<Rightarrow> u32 list" where
  "sha256_blocks 0 s m = s"
| "sha256_blocks (Suc n) s m = sha256_blocks n (sha256_block s (take 64 m)) (drop 64 m)"

definition sha256 :: "bytes \<Rightarrow> bytes" where
  "sha256 m = (let p = sha256_pad m in concat (map PutUint32 (sha256_blocks (length p div 64) sha256_init p)))"

section \<open>HMAC\<close>

definition hmac_sha256 :: "bytes \<Rightarrow> bytes \<Rightarrow> bytes" where
  "hmac_sha256 key m =
     (let k = (if length key > 64 then sha256 key else key);
          block = k @ replicate (64 - length k) 0
      in sha256 (map (\<lambda>b. b XOR 0x5c) block @ sha256 (map (\<lambda>b. b XOR 0x36) block @ m)))"

lemma length_sha256_round: "length s = 8 \<Longrightarrow> length (sha256_round s kw) = 8"
  by (cases "(s, kw)" rule: sha256_round.cases) (auto simp: Let_def)

lemma length_sha256_rounds: "length s = 8 \<Longrightarrow> length (foldl sha256_round s kws) = 8"
  by (induction kws arbitrary: s) (auto simp: length_sha256_round)

lemma length_sha256_blocks: "length s = 8 \<Longrightarrow> length (sha256_blocks n s m) = 8"
  by (induction n arbitrary: s m) (auto simp: sha256_block_def length_sha256_rounds)

lemma length_sha256_init: "length sha256_init = 8"
  by (simp add: sha256_init_def)

lemma length_sha256 [simp]: "length (sha256 m) = 32"
proof -
  have "length (concat (map PutUint32 ws)) = 4 * length ws" for ws
    by (induction ws) auto
  then show ?thesis
    by (simp add: sha256_def Let_def length_sha256_blocks length_sha256_init)
qed

lemma length_hmac_sha256 [simp]: "length (hmac_sha256 key m) = 32"
  by (simp add: hmac_sha256_def Let_def)

end
