(* ===== verification/Reflector.thy ===== *)
theory Reflector
  imports Validate Helpers Engine Transport Crypto "HOL-Library.Signed_Division"
begin

text \<open>
  \<^verbatim>\<open>pkg/server/reflector.go\<close>: the server that connects the transport, the wire format and the
  policy engine. One goroutine owns the reflector, so a handler is a function on its state.

  A handler returns \<^term>\<open>None\<close> where the source panics. A peer is identified by its session:
  the pointers of the source are to the entries of the map \<^verbatim>\<open>peers\<close>, and an update through a
  pointer whose entry was deleted is not visible in the map. The clock is the one the engine
  holds, and each call of it takes the next reading. The random source is the list of bytes it
  still delivers before it fails. The calls of the metric and event sinks are logged in order.
  \<open>unicode\<close> is the non-ASCII branch of \<^verbatim>\<open>strings.ToUpper\<close>.
\<close>

section \<open>State\<close>

record ReflectorOptions =
  oID :: string
  oDisplayName :: string
  oSharedKey :: bytes
  oLimits :: Limits
  oInboundQueuePackets :: int
  oOutboundControlQueuePackets :: int
  oOutboundMediaQueueFrames :: int
  oMaxPendingChallenges :: int
  oMaxPendingNotifications :: int
  oMaxPendingNotificationsPerClient :: int
  oMaxCompletedTransactionsPerSession :: int
  oMaxDatagramBytes :: int
  oShutdownGrace :: duration

datatype detail = DSession u64 | DStream u32 | DText string | DCount u64 | DReason EndReason

record EventRecord =
  evType :: string
  evSeverity :: string
  evDetails :: "(string \<times> detail) list"

definition ReflectorOptions_defaults :: "ReflectorOptions \<Rightarrow> ReflectorOptions" where
  "ReflectorOptions_defaults q = q\<lparr>
     oInboundQueuePackets := (if oInboundQueuePackets q = 0 then 256 else oInboundQueuePackets q),
     oMaxDatagramBytes := (if oMaxDatagramBytes q = 0 then int MaxDatagramSize else oMaxDatagramBytes q),
     oOutboundControlQueuePackets :=
       (if oOutboundControlQueuePackets q = 0 then 64 else oOutboundControlQueuePackets q),
     oOutboundMediaQueueFrames :=
       (if oOutboundMediaQueueFrames q = 0 then 256 else oOutboundMediaQueueFrames q),
     oMaxPendingChallenges := (if oMaxPendingChallenges q = 0 then 100 else oMaxPendingChallenges q),
     oMaxPendingNotifications :=
       (if oMaxPendingNotifications q = 0 then 200 else oMaxPendingNotifications q),
     oMaxPendingNotificationsPerClient :=
       (if oMaxPendingNotificationsPerClient q = 0 then 2 else oMaxPendingNotificationsPerClient q),
     oMaxCompletedTransactionsPerSession :=
       (if oMaxCompletedTransactionsPerSession q = 0 then 64 else oMaxCompletedTransactionsPerSession q),
     oShutdownGrace := (if oShutdownGrace q = 0 then 5 * Second else oShutdownGrace q)\<rparr>"

record challenge =
  cNode :: string
  cClient :: bytes
  cServer :: bytes
  cAt :: time

record peer =
  peId :: u64
  peAddress :: addr
  peNode :: string
  peReady :: bool
  peNotified :: bool
  peReceiving :: bool
  peConnected :: time
  peLast :: time

record completed =
  coFingerprint :: bytes
  coResponse :: bytes
  coAddress :: string
  coAt :: time

record notificationKey =
  nkListener :: u64
  nkTyp :: PacketType
  nkTx :: u64

record notification =
  noPacket :: Packet
  noAttempt :: nat
  noNext :: time

record ClientView =
  cvSessionID :: u64
  cvNodeCallsign :: string
  cvRemoteAddress :: string
  cvReady :: bool
  cvConnectedAt :: time
  cvLastActivity :: time

record RuntimeSnapshot =
  rsReady :: bool
  rsClients :: "ClientView list"
  rsFloor :: FloorSnapshot
  rsUpdated :: time
  rsInboundDrops :: u64
  rsMediaDrops :: u64
  rsMediaDropRecipients :: u64
  rsControlFailures :: u64
  rsSequenceGaps :: u64

type_synonym metric_call = "string \<times> (string \<times> string) list \<times> u64"

record Reflector =
  options :: ReflectorOptions
  engine :: Engine
  transport :: UDP
  challenges :: "(string, challenge) gomap"
  peers :: "(u64, peer) gomap"
  transactions :: "(string, completed) gomap"
  pending :: "(notificationKey, notification) gomap"
  snapshot :: "RuntimeSnapshot option"
  random :: bytes
  unicode :: "string \<Rightarrow> string"
  metrics :: "metric_call list"
  events :: "EventRecord list"

section \<open>Options and construction\<close>

definition options_validate :: "ReflectorOptions \<Rightarrow> string option" where
  "options_validate q =
     (let capacities = [oInboundQueuePackets q, oOutboundControlQueuePackets q, oOutboundMediaQueueFrames q,
            oMaxPendingChallenges q, oMaxPendingNotifications q, oMaxPendingNotificationsPerClient q,
            oMaxCompletedTransactionsPerSession q, MaxClients (oLimits q), MaxCompletedTransactions (oLimits q)] in
      if list_ex (\<lambda>c. c \<le> 0) capacities then Some ''all queue and state capacities must be positive''
      else if oMaxPendingNotificationsPerClient q > oMaxPendingNotifications q \<or>
              oMaxCompletedTransactionsPerSession q > MaxCompletedTransactions (oLimits q)
      then Some ''per-session capacity exceeds the global capacity''
      else if oShutdownGrace q \<le> 0 \<or> SessionTimeout (oLimits q) \<le> 0 \<or> GrantTimeout (oLimits q) \<le> 0 \<or>
              MediaTimeout (oLimits q) \<le> 0 \<or> TransmitTimeLimit (oLimits q) \<le> 0
      then Some ''all timers must be positive''
      else None)"

section \<open>Sinks, clock and random source\<close>

definition metric :: "string \<Rightarrow> (string \<times> string) list \<Rightarrow> u64 \<Rightarrow> Reflector \<Rightarrow> Reflector" where
  "metric name labels value r = r\<lparr>metrics := metrics r @ [(name, labels, value)]\<rparr>"

definition event :: "string \<Rightarrow> string \<Rightarrow> (string \<times> detail) list \<Rightarrow> Reflector \<Rightarrow> Reflector" where
  "event typ severity details r =
     r\<lparr>events := events r @ [\<lparr>evType = typ, evSeverity = severity, evDetails = details\<rparr>]\<rparr>"

definition Clock :: "Reflector \<Rightarrow> time \<times> Reflector" where
  "Clock r = (let (t, e) = now (engine r) in (t, r\<lparr>engine := e\<rparr>))"

definition ReadRandom :: "nat \<Rightarrow> Reflector \<Rightarrow> bytes option \<times> Reflector" where
  "ReadRandom n r =
     (case ReadFull n (random r) of
        (Inl _, rest) \<Rightarrow> (None, r\<lparr>random := rest\<rparr>)
      | (Inr b, rest) \<Rightarrow> (Some b, r\<lparr>random := rest\<rparr>))"

definition EngineSnapshot :: "Reflector \<Rightarrow> Snapshot \<times> Reflector" where
  "EngineSnapshot r = (let (s, e) = Snapshot (engine r) in (s, r\<lparr>engine := e\<rparr>))"

text \<open>An update through the pointer to a peer.\<close>

definition set_peer :: "u64 \<Rightarrow> (peer \<Rightarrow> peer) \<Rightarrow> Reflector \<Rightarrow> Reflector" where
  "set_peer sid f r =
     (case map_of (peers r) sid of
        None \<Rightarrow> r
      | Some p \<Rightarrow> r\<lparr>peers := AList.update sid (f p) (peers r)\<rparr>)"

text \<open>\<^verbatim>\<open>v, _ := wire.Find(p, t)\<close> and \<^verbatim>\<open>d, _ := wire.Encode(p)\<close>: an absent value is \<^verbatim>\<open>nil\<close>.\<close>

definition found :: "Packet \<Rightarrow> TLVType \<Rightarrow> bytes" where
  "found p t = (case Find p t of None \<Rightarrow> [] | Some v \<Rightarrow> v)"

definition encoded :: "Packet \<Rightarrow> bytes" where
  "encoded p = (case Encode p of Some (Inr d) \<Rightarrow> d | _ \<Rightarrow> [])"

definition identifier_or_nil :: "identifier_error + bytes \<Rightarrow> bytes" where
  "identifier_or_nil x = (case x of Inl _ \<Rightarrow> [] | Inr d \<Rightarrow> d)"

definition packetName :: "PacketType \<Rightarrow> string" where
  "packetName typ = (case map_of [(PacketHello, ''hello''), (PacketChallenge, ''challenge''),
     (PacketAuthenticate, ''authenticate''), (PacketWelcome, ''welcome''), (PacketKeepalive, ''keepalive''),
     (PacketDisconnect, ''disconnect''), (PacketError, ''error''), (PacketStreamRequest, ''stream_request''),
     (PacketStreamGrant, ''stream_grant''), (PacketStreamBusy, ''stream_busy''),
     (PacketStreamStart, ''stream_start''), (PacketStreamEnd, ''stream_end''),
     (PacketStreamRevoke, ''stream_revoke''), (PacketAudio, ''audio''), (PacketData, ''data'')] typ of
       None \<Rightarrow> [] | Some s \<Rightarrow> s)"

definition reason_text :: "EndReason \<Rightarrow> string" where
  "reason_text reason =
     (case reason of EndNormal \<Rightarrow> ''normal'' | EndOwnerDisconnect \<Rightarrow> ''owner_disconnect''
      | EndGrantTimeout \<Rightarrow> ''grant_timeout'' | EndMediaInactivity \<Rightarrow> ''media_inactivity''
      | EndTransmitTimeLimit \<Rightarrow> ''transmit_time_limit'' | EndServerShutdown \<Rightarrow> ''server_shutdown'')"

definition endReason :: "EndReason \<Rightarrow> u16" where
  "endReason reason =
     (case reason of EndOwnerDisconnect \<Rightarrow> EndReasonOwnerDisconnect | EndGrantTimeout \<Rightarrow> EndReasonGrantTimeout
      | EndMediaInactivity \<Rightarrow> EndReasonMediaInactivity | EndTransmitTimeLimit \<Rightarrow> EndReasonTransmitTimeLimit
      | EndServerShutdown \<Rightarrow> EndReasonServerShutdown | EndNormal \<Rightarrow> EndReasonNormal)"

definition wire_reason :: "wire_error \<Rightarrow> string" where
  "wire_reason err = (case err of ErrUnsupportedVersion \<Rightarrow> ''unsupported_version'' | _ \<Rightarrow> ''malformed'')"

definition validation_reason :: "ValidationError \<Rightarrow> string" where
  "validation_reason v =
     (case veReason v of ReasonMalformed \<Rightarrow> ''malformed'' | ReasonUnsupportedVersion \<Rightarrow> ''unsupported_version''
      | ReasonInvalidSession \<Rightarrow> ''invalid_session'' | ReasonInvalidStream \<Rightarrow> ''invalid_stream''
      | ReasonUnsupportedType \<Rightarrow> ''unsupported_type'' | ReasonLimitExceeded \<Rightarrow> ''limit_exceeded''
      | ReasonTransactionConflict \<Rightarrow> ''transaction_conflict'')"

definition packet_error :: "string \<Rightarrow> Reflector \<Rightarrow> Reflector" where
  "packet_error reason = metric ''opusref_packet_errors_total'' [(''reason'', reason)] 1"

definition malformed_packet :: "string \<Rightarrow> Reflector \<Rightarrow> Reflector" where
  "malformed_packet reason r = event ''malformed_packet'' ''warn'' [] (packet_error reason r)"

definition traffic :: "string \<Rightarrow> PacketType \<Rightarrow> nat \<Rightarrow> Reflector \<Rightarrow> Reflector" where
  "traffic direction typ size_bytes r =
     (let labels = [(''direction'', direction), (''packet_type'', packetName typ)] in
      metric ''opusref_bytes_total'' labels (word_of_nat size_bytes)
        (metric ''opusref_packets_total'' labels 1 r))"

definition queueDrop :: "string \<Rightarrow> string \<Rightarrow> u64 \<Rightarrow> u64 \<Rightarrow> Reflector \<Rightarrow> Reflector" where
  "queueDrop queue item frames recipients r =
     (let labels = [(''queue'', queue), (''item_type'', item)];
          r = metric ''opusref_queue_drops_total'' labels frames r;
          r = (if recipients > 0 then metric ''opusref_queue_drop_recipients_total'' labels recipients r else r) in
      event ''queue_drop'' ''warn'' [(''queue'', DText queue), (''item_type'', DText item),
        (''frame_count'', DCount frames), (''recipient_count'', DCount recipients)] r)"

definition auth_mode :: "Reflector \<Rightarrow> string" where
  "auth_mode r = (if oSharedKey (options r) \<noteq> [] then ''shared_key'' else ''open'')"

definition auth_metric :: "string \<Rightarrow> Reflector \<Rightarrow> Reflector" where
  "auth_metric result r = metric ''opusref_authentication_total'' [(''result'', result), (''mode'', auth_mode r)] 1 r"

definition authenticationFailure :: "string \<Rightarrow> Reflector \<Rightarrow> Reflector" where
  "authenticationFailure result r = event ''authentication_failed'' ''warn'' [] (auth_metric result r)"


section \<open>Peers and outgoing control traffic\<close>

definition disconnectPeer :: "u64 \<Rightarrow> string \<Rightarrow> Reflector \<Rightarrow> StreamEnd option \<times> Reflector" where
  "disconnectPeer sid reason r =
     (case map_of (peers r) sid of
        None \<Rightarrow> (None, r)
      | Some p \<Rightarrow>
          let (end, e) = Disconnect sid (engine r) in
          (end, event ''client_disconnected'' ''info'' [(''session_id'', DSession sid),
              (''node_callsign'', DText (peNode p)), (''reason'', DText reason)]
            (r\<lparr>engine := e, peers := AList.delete sid (peers r)\<rparr>)))"

text \<open>The loop of \<^verbatim>\<open>transactionID\<close> draws until it gets a nonzero number that no pending notification uses.\<close>

function transactionID :: "Reflector \<Rightarrow> u64 \<times> Reflector" where
  "transactionID r =
     (case ReadRandom 8 r of
        (None, r) \<Rightarrow> (0, r)
      | (Some raw, r) \<Rightarrow>
          let i = get_be raw in
          if i = 0 then transactionID r
          else if list_ex (\<lambda>(key, _). nkTx key = i) (pending r) then transactionID r
          else (i, r))"
  by pat_completeness auto
termination
proof (relation "measure (\<lambda>r. length (random r))")
  show "wf (measure (\<lambda>r. length (random r)))" by simp
qed (auto simp: ReadRandom_def ReadFull_def split: if_splits)

declare transactionID.simps [simp del]

text \<open>
  \<^verbatim>\<open>sendControl\<close>, \<^verbatim>\<open>controlOverload\<close>, \<^verbatim>\<open>startNotification\<close> and \<^verbatim>\<open>notifyEnd\<close> call each other: a
  full queue disconnects the peer, which may end its stream, which is notified. The argument
  \<open>again\<close> stands for the inner call of \<^verbatim>\<open>notifyEnd\<close>; the recursion is closed below.
\<close>

type_synonym notifier = "StreamEnd \<Rightarrow> Reflector \<Rightarrow> Reflector option"

definition controlOverload_with :: "notifier \<Rightarrow> u64 \<Rightarrow> Reflector \<Rightarrow> Reflector option" where
  "controlOverload_with again sid r =
     (let (end, r) = disconnectPeer sid ''control_overload'' r;
          r = r\<lparr>pending := filter (\<lambda>(key, _). nkListener key \<noteq> sid) (pending r)\<rparr>;
          r = event ''control_overload'' ''error'' [(''session_id'', DSession sid)] r in
      case end of None \<Rightarrow> Some r | Some x \<Rightarrow> again x r)"

definition sendControl_with :: "notifier \<Rightarrow> addr \<Rightarrow> Packet \<Rightarrow> Reflector \<Rightarrow> Reflector option" where
  "sendControl_with again a p r =
     (case Encode p of
        None \<Rightarrow> None
      | Some (Inl _) \<Rightarrow> Some r
      | Some (Inr data) \<Rightarrow>
          let (sent, u) = EnqueueControl \<lparr>dAddress = a, dData = data\<rparr> (transport r);
              r = r\<lparr>transport := u\<rparr> in
          if sent then Some (traffic ''tx'' (hType (pHeader p)) (length data) r)
          else let r = queueDrop ''server_control'' ''control'' 1 1 r in
            case find (\<lambda>(_, q). peAddress q = a) (peers r) of
              None \<Rightarrow> Some r
            | Some (sid, _) \<Rightarrow> controlOverload_with again sid r)"

definition startNotification_with :: "notifier \<Rightarrow> u64 \<Rightarrow> addr \<Rightarrow> Packet \<Rightarrow> Reflector \<Rightarrow> Reflector option" where
  "startNotification_with again sid a p r =
     (if int (length (pending r)) \<ge> oMaxPendingNotifications (options r) then controlOverload_with again sid r
      else if int (length (filter (\<lambda>(key, _). nkListener key = sid) (pending r)))
                \<ge> oMaxPendingNotificationsPerClient (options r)
      then controlOverload_with again sid r
      else case Find p TLVTransactionID of
        None \<Rightarrow> controlOverload_with again sid r
      | Some raw \<Rightarrow>
          if length raw \<noteq> 8 then controlOverload_with again sid r
          else do {
            t \<leftarrow> Uint64 raw;
            let key = \<lparr>nkListener = sid, nkTyp = hType (pHeader p), nkTx = t\<rparr>;
                (at, r) = Clock r;
                r = r\<lparr>pending := AList.update key
                  \<lparr>noPacket = p, noAttempt = 1, noNext = at + 500 * Millisecond\<rparr> (pending r)\<rparr>;
                r = (if hType (pHeader p) = PacketStreamStart
                     then set_peer sid (\<lambda>q. q\<lparr>peReceiving := True\<rparr>) r else r) in
            sendControl_with again a p r
          })"

definition revoke_packet :: "StreamEnd \<Rightarrow> u64 \<Rightarrow> Packet" where
  "revoke_packet end i = \<lparr>pHeader = zeroHeader\<lparr>hVersion := 1, hType := PacketStreamRevoke,
       hSessionID := seSessionID end, hStreamID := seStreamID end, hSequence := seSequence end,
       hTimestamp := seTimestamp end\<rparr>,
     pExtensions = [Uint64TLV TLVTransactionID i, Uint16TLV TLVEndReason (endReason (seReason end))],
     pPayload = []\<rparr>"

definition notify_listener :: "notifier \<Rightarrow> StreamEnd \<Rightarrow> u64 \<Rightarrow> peer \<Rightarrow> Reflector \<Rightarrow> Reflector option" where
  "notify_listener again end sid q r =
     (if sid = seSessionID end \<and> seReason end = EndNormal then Some r
      else if sid \<noteq> seSessionID end \<and> \<not> peNotified q then Some r
      else let (i, r) = transactionID r;
               r = set_peer sid (\<lambda>q. q\<lparr>peReceiving := False\<rparr>) r in
        startNotification_with again sid (peAddress q) (revoke_packet end i) r)"

definition stream_details :: "StreamEnd \<Rightarrow> (string \<times> detail) list" where
  "stream_details end = [(''session_id'', DSession (seSessionID end)),
     (''stream_id'', DStream (seStreamID end)), (''reason'', DReason (seReason end))]"

text \<open>The observation of the duration, in nanoseconds, is logged with the metric calls.\<close>

definition log_end :: "StreamEnd \<Rightarrow> Reflector \<Rightarrow> Reflector" where
  "log_end end r =
     (let r = metric ''opusref_stream_end_total'' [(''reason'', reason_text (seReason end))] 1 r;
          r = (if seDuration end > 0
               then metric ''ObserveStreamDuration'' [] (word_of_int (seDuration end)) r else r);
          r = event ''stream_ended'' ''info'' (stream_details end) r in
      if seReason end = EndGrantTimeout \<or> seReason end = EndMediaInactivity
      then event ''stream_timeout'' ''warn'' (stream_details end) r
      else if seReason end = EndTransmitTimeLimit
      then event ''transmit_time_limit'' ''warn'' (stream_details end) r
      else r)"

definition notifyEnd_with :: "notifier \<Rightarrow> StreamEnd \<Rightarrow> Reflector \<Rightarrow> Reflector option" where
  "notifyEnd_with again end r =
     (let r = log_end end r;
          r = r\<lparr>pending := filter (\<lambda>(key, _). nkTyp key \<noteq> PacketStreamStart) (pending r)\<rparr> in
      range_loop peers (notify_listener again end) (map fst (peers r)) r)"

text \<open>
  The recursion, with a bound on its depth; running out of it is \<^term>\<open>None\<close>. Only the holder of
  the floor produces an end, and its disconnect releases the floor, so depth 2 is enough: that
  no handler returns \<^term>\<open>None\<close> is proved below.
\<close>

fun notifyEnd_depth :: "nat \<Rightarrow> notifier" where
  "notifyEnd_depth 0 end r = None"
| "notifyEnd_depth (Suc n) end r = notifyEnd_with (notifyEnd_depth n) end r"

definition notifyEnd :: notifier where
  "notifyEnd = notifyEnd_depth 2"

definition controlOverload :: "u64 \<Rightarrow> Reflector \<Rightarrow> Reflector option" where
  "controlOverload = controlOverload_with notifyEnd"

definition sendControl :: "addr \<Rightarrow> Packet \<Rightarrow> Reflector \<Rightarrow> Reflector option" where
  "sendControl = sendControl_with notifyEnd"

definition startNotification :: "u64 \<Rightarrow> addr \<Rightarrow> Packet \<Rightarrow> Reflector \<Rightarrow> Reflector option" where
  "startNotification = startNotification_with notifyEnd"

definition limit_seconds :: "Reflector \<Rightarrow> u32" where
  "limit_seconds r = word_of_int (TransmitTimeLimit (limits (engine r)) sdiv Second)"

definition notifyStart :: "u64 \<Rightarrow> FloorSnapshot \<Rightarrow> Reflector \<Rightarrow> Reflector option" where
  "notifyStart sid fl r =
     (case map_of (peers r) (fsSessionID fl) of
        None \<Rightarrow> Some r
      | Some owner \<Rightarrow>
          let node = identifier_or_nil (Callsign (unicode r) (peNode owner));
              source = identifier_or_nil (Callsign (unicode r) (fsSourceCallsign fl));
              (i, r) = transactionID r;
              p = \<lparr>pHeader = zeroHeader\<lparr>hVersion := 1, hType := PacketStreamStart,
                     hSessionID := fsSessionID fl, hStreamID := fsStreamID fl\<rparr>,
                   pExtensions = [Uint64TLV TLVTransactionID i, tlv TLVNodeCallsign node,
                     tlv TLVSourceCallsign source, Uint32TLV TLVTransmitTimeLimit (limit_seconds r)],
                   pPayload = []\<rparr> in
          case map_of (peers r) sid of
            None \<Rightarrow> Some r
          | Some listener \<Rightarrow>
              startNotification sid (peAddress listener) p (set_peer sid (\<lambda>q. q\<lparr>peNotified := True\<rparr>) r))"

definition enqueueRaw :: "addr \<Rightarrow> bytes \<Rightarrow> Reflector \<Rightarrow> bool \<times> Reflector" where
  "enqueueRaw a data r =
     (let (sent, u) = EnqueueControl \<lparr>dAddress = a, dData = data\<rparr> (transport r);
          r = r\<lparr>transport := u\<rparr> in
      if sent then
        (True, case accepted (Decode data) of Some p \<Rightarrow> traffic ''tx'' (hType (pHeader p)) (length data) r | None \<Rightarrow> r)
      else (False, queueDrop ''server_control'' ''control'' 1 1 r))"

definition errorResponse :: "Packet \<Rightarrow> u16 \<Rightarrow> Packet" where
  "errorResponse request code =
     (let ext = Uint16TLV TLVErrorCode code #
            (case Find request TLVTransactionID of Some t \<Rightarrow> [tlv TLVTransactionID t] | None \<Rightarrow> []);
          response = \<lparr>pHeader = zeroHeader\<lparr>hVersion := 1, hType := PacketError, hFlags := FlagResponse,
              hSessionID := hSessionID (pHeader request), hStreamID := hStreamID (pHeader request)\<rparr>,
            pExtensions = ext, pPayload = []\<rparr> in
      if length (encoded response) > length (encoded request)
      then response\<lparr>pExtensions := take 1 ext\<rparr> else response)"

definition sendError :: "addr \<Rightarrow> Packet \<Rightarrow> u16 \<Rightarrow> Reflector \<Rightarrow> Reflector option" where
  "sendError a p code r =
     (let response = errorResponse p code in
      if hSessionID (pHeader p) = 0 \<or> length (encoded response) > length (encoded p) then Some r
      else sendControl a response r)"

definition replayOverload :: "addr \<Rightarrow> bytes \<Rightarrow> Reflector \<Rightarrow> Reflector option" where
  "replayOverload a response r =
     (case accepted (Decode response) of
        None \<Rightarrow> Some r
      | Some p \<Rightarrow>
          if hSessionID (pHeader p) = 0 then Some r
          else case map_of (peers r) (hSessionID (pHeader p)) of
            None \<Rightarrow> Some r
          | Some q \<Rightarrow> if peAddress q = a then controlOverload (hSessionID (pHeader p)) r else Some r)"


section \<open>Transactions\<close>

definition transactionKey :: "addr \<Rightarrow> Packet \<Rightarrow> u64 \<Rightarrow> string" where
  "transactionKey a p t =
     (let h = pHeader p; rest = ''/'' @ decimal (unat (hType h)) @ ''/'' @ decimal (unat t) in
      if hSessionID h = 0 then a @ rest else decimal (unat (hSessionID h)) @ rest)"

text \<open>
  \<^verbatim>\<open>sort.Slice\<close> sorts the extensions in place, and \<^verbatim>\<open>normalized\<close> shares them with \<^verbatim>\<open>p\<close>: the
  packet is sorted too, and only the flags differ. The types of a decoded packet are distinct,
  so the order of the sorted extensions is determined.
\<close>

definition sort_extensions :: "Packet \<Rightarrow> Packet" where
  "sort_extensions p = p\<lparr>pExtensions := sort_key tType (pExtensions p)\<rparr>"

definition normalize :: "Packet \<Rightarrow> Packet" where
  "normalize p = sort_extensions (p\<lparr>pHeader := (pHeader p)\<lparr>hFlags := hFlags (pHeader p) AND NOT FlagRetry\<rparr>\<rparr>)"

text \<open>The result holds whether the datagram was a replay, and the packet with its extensions as they are now.\<close>

definition replayDisconnect :: "addr \<Rightarrow> Packet \<Rightarrow> Reflector \<Rightarrow> ((bool \<times> Packet) \<times> Reflector) option" where
  "replayDisconnect a p r =
     (if Validate p \<lparr>cDirection = ClientToServer, cPhase = Ready\<rparr> \<noteq> None then Some ((False, p), r)
      else case Find p TLVTransactionID of
        None \<Rightarrow> Some ((False, p), r)
      | Some raw \<Rightarrow> do {
          t \<leftarrow> Uint64 raw;
          case map_of (transactions r) (transactionKey a p t) of
            None \<Rightarrow> Some ((False, p), r)
          | Some old \<Rightarrow>
              if coAddress old \<noteq> a then Some ((False, p), r)
              else (case Encode (normalize p) of
                  None \<Rightarrow> None
                | Some (Inl _) \<Rightarrow> Some ((False, sort_extensions p), r)
                | Some (Inr fingerprint) \<Rightarrow>
                    if coFingerprint old \<noteq> fingerprint then Some ((False, sort_extensions p), r)
                    else (case enqueueRaw a (coResponse old) r of
                        (True, r) \<Rightarrow> Some ((True, sort_extensions p), r)
                      | (False, r) \<Rightarrow> do {
                          r \<leftarrow> replayOverload a (coResponse old) r;
                          Some ((False, sort_extensions p), r)
                        }))
        })"

text \<open>What \<^verbatim>\<open>transact\<close> undoes when the response could not be enqueued.\<close>

definition undo_delivery :: "addr \<Rightarrow> Packet \<Rightarrow> Reflector \<Rightarrow> Reflector option" where
  "undo_delivery a p r =
     (if hSessionID (pHeader p) = 0 then
        if hType (pHeader p) = PacketHello then
          Some (r\<lparr>challenges := AList.delete (a @ string_of (found p TLVTransactionID)) (challenges r)\<rparr>)
        else if hType (pHeader p) = PacketAuthenticate then
          range_loop peers
            (\<lambda>sid q r. if peAddress q = a then Some (snd (disconnectPeer sid ''admission_delivery_failure'' r)) else Some r)
            (map fst (peers r)) r
        else Some r
      else case map_of (peers r) (hSessionID (pHeader p)) of
        None \<Rightarrow> Some r
      | Some _ \<Rightarrow> controlOverload (hSessionID (pHeader p)) r)"

text \<open>A listener whose first keepalive arrives during a stream is told about the stream.\<close>

definition late_start :: "Packet \<Rightarrow> Reflector \<Rightarrow> Reflector option" where
  "late_start p r =
     (if hType (pHeader p) = PacketKeepalive \<and> hSessionID (pHeader p) \<noteq> 0 then
        case map_of (peers r) (hSessionID (pHeader p)) of
          None \<Rightarrow> Some r
        | Some q \<Rightarrow>
            let (s, r) = EngineSnapshot r; fl = snFloor s in
            if fsActive fl \<and> fsSessionID fl \<noteq> hSessionID (pHeader p) \<and> \<not> peNotified q
            then notifyStart (hSessionID (pHeader p)) fl r
            else Some r
      else Some r)"

definition transact :: "addr \<Rightarrow> Packet \<Rightarrow> (Packet \<Rightarrow> Reflector \<Rightarrow> (Packet \<times> Reflector) option) \<Rightarrow>
    Reflector \<Rightarrow> (bool \<times> Reflector) option" where
  "transact a p0 apply r =
     (case Find p0 TLVTransactionID of
        None \<Rightarrow> Some (False, r)
      | Some raw \<Rightarrow> do {
          t \<leftarrow> Uint64 raw;
          let key = transactionKey a p0 t;
              fingerprint = encoded (normalize p0);
              p = sort_extensions p0 in
          case map_of (transactions r) key of
            Some old \<Rightarrow>
              if coFingerprint old = fingerprint then
                (case enqueueRaw a (coResponse old) r of
                   (False, r) \<Rightarrow> do { r \<leftarrow> replayOverload a (coResponse old) r; Some (False, r) }
                 | (True, r) \<Rightarrow>
                     Some (case accepted (Decode (coResponse old)) of
                             Some response \<Rightarrow> hType (pHeader response) \<noteq> PacketError
                           | None \<Rightarrow> False, r))
              else do {
                r \<leftarrow> sendError a p ErrorMalformedPacket (packet_error ''transaction_conflict'' r);
                Some (False, r)
              }
          | None \<Rightarrow>
              if int (length (transactions r)) \<ge> MaxCompletedTransactions (limits (engine r)) \<or>
                 hSessionID (pHeader p) \<noteq> 0 \<and>
                 int (length (filter (\<lambda>(k, _). HasPrefix k (decimal (unat (hSessionID (pHeader p))) @ ''/'')) (transactions r)))
                   \<ge> oMaxCompletedTransactionsPerSession (options r)
              then do {
                r \<leftarrow> sendError a p ErrorLimitExceeded (packet_error ''limit_exceeded'' r);
                Some (False, r)
              }
              else do {
                (response, r) \<leftarrow> apply p r;
                if hType (pHeader response) = 0 then Some (False, r)
                else case Encode response of
                  None \<Rightarrow> None
                | Some (Inl _) \<Rightarrow> Some (False, r)
                | Some (Inr data) \<Rightarrow>
                    let (at, r) = Clock r;
                        r = r\<lparr>transactions := AList.update key \<lparr>coFingerprint = fingerprint,
                          coResponse = data, coAddress = a, coAt = at\<rparr> (transactions r)\<rparr> in
                    (case enqueueRaw a data r of
                       (False, r) \<Rightarrow> do {
                         let r = (if hType (pHeader p) = PacketDisconnect \<and> hSessionID (pHeader p) \<noteq> 0 then r
                                  else r\<lparr>transactions := AList.delete key (transactions r)\<rparr>);
                         r \<leftarrow> undo_delivery a p r;
                         Some (False, r)
                       }
                     | (True, r) \<Rightarrow> do {
                         r \<leftarrow> late_start p r;
                         Some (hType (pHeader response) \<noteq> PacketError, r)
                       })
              }
        })"

section \<open>Handshake\<close>

definition hello :: "addr \<Rightarrow> Packet \<Rightarrow> Reflector \<Rightarrow> Packet \<times> Reflector" where
  "hello a p r =
     (let t = found p TLVTransactionID; node = found p TLVNodeCallsign; client = found p TLVClientNonce;
          key = a @ string_of t in
      if int (length (challenges r)) \<ge> oMaxPendingChallenges (options r)
      then (zeroPacket, auth_metric ''overloaded'' r)
      else case ReadRandom 32 r of
        (None, r) \<Rightarrow> (zeroPacket, r)
      | (Some server, r) \<Rightarrow>
          let (at, r) = Clock r;
              r = r\<lparr>challenges := AList.update key \<lparr>cNode = TrimSpace (string_of node), cClient = client,
                cServer = server, cAt = at\<rparr> (challenges r)\<rparr> in
          (\<lparr>pHeader = zeroHeader\<lparr>hVersion := 1, hType := PacketChallenge, hFlags := FlagResponse\<rparr>,
            pExtensions = [tlv TLVTransactionID t, tlv TLVServerNonce server,
              tlv TLVReflectorID (identifier_or_nil (ReflectorID (unicode r) (oID (options r)))),
              tlv TLVDisplayName (bytes_of (oDisplayName (options r)))],
            pPayload = []\<rparr>, r))"

text \<open>The message that the authentication tag signs.\<close>

definition auth_message :: "challenge \<Rightarrow> Reflector \<Rightarrow> bytes" where
  "auth_message c r = bytes_of ''OPRF-AUTH-V1'' @ identifier_or_nil (Callsign (unicode r) (cNode c)) @
     cClient c @ cServer c @ identifier_or_nil (ReflectorID (unicode r) (oID (options r)))"

text \<open>The loop of \<^verbatim>\<open>authenticate\<close> that draws session identifiers until the engine accepts one.\<close>

function admit :: "addr \<Rightarrow> string \<Rightarrow> string \<Rightarrow> bytes \<Rightarrow> Reflector \<Rightarrow> Packet \<times> Reflector" where
  "admit a key node t r =
     (case ReadRandom 8 r of
        (None, r) \<Rightarrow> (zeroPacket, r)
      | (Some raw, r) \<Rightarrow>
          let sid = get_be raw;
              (added, e) = (if sid \<noteq> 0 then AddSession sid a node False (engine r) else (False, engine r)) in
          if \<not> added then admit a key node t (r\<lparr>engine := e\<rparr>)
          else
            let r = auth_metric ''accepted'' (r\<lparr>engine := e\<rparr>);
                r = event ''client_connected'' ''info'' [(''session_id'', DSession sid), (''node_callsign'', DText node)] r;
                (at, r) = Clock r;
                r = r\<lparr>peers := AList.update sid \<lparr>peId = sid, peAddress = a, peNode = node, peReady = False,
                      peNotified = False, peReceiving = False, peConnected = at, peLast = at\<rparr> (peers r),
                    challenges := AList.delete key (challenges r)\<rparr> in
            (\<lparr>pHeader = zeroHeader\<lparr>hVersion := 1, hType := PacketWelcome, hFlags := FlagResponse, hSessionID := sid\<rparr>,
              pExtensions = [tlv TLVTransactionID t,
                tlv TLVReflectorID (identifier_or_nil (ReflectorID (unicode r) (oID (options r)))),
                tlv TLVDisplayName (bytes_of (oDisplayName (options r)))],
              pPayload = []\<rparr>, r))"
  by pat_completeness auto
termination
proof (relation "measure (\<lambda>(_, _, _, _, r). length (random r))")
  show "wf (measure (\<lambda>(_ :: addr, _ :: string, _ :: string, _ :: bytes, r). length (random r)))" by simp
qed (auto simp: ReadRandom_def ReadFull_def split: if_splits)

declare admit.simps [simp del]

definition authenticate :: "addr \<Rightarrow> Packet \<Rightarrow> Reflector \<Rightarrow> Packet \<times> Reflector" where
  "authenticate a p r =
     (let t = found p TLVTransactionID; key = a @ string_of t;
          rejected = (\<lambda>r. (zeroPacket, authenticationFailure ''rejected'' r)) in
      case map_of (challenges r) key of
        None \<Rightarrow> rejected r
      | Some c \<Rightarrow>
          let (at, r) = Clock r in
          if Sub at (cAt c) > 10 * Second then rejected r
          else if found p TLVClientNonce \<noteq> cClient c \<or> found p TLVServerNonce \<noteq> cServer c then rejected r
          else if oSharedKey (options r) \<noteq> [] \<and>
                  (case Find p TLVAuthenticationTag of
                     None \<Rightarrow> True
                   | Some tag \<Rightarrow> tag \<noteq> hmac_sha256 (oSharedKey (options r)) (auth_message c r))
          then rejected r
          else let (s, r) = EngineSnapshot r in
            if int (snSessions s) \<ge> MaxClients (limits (engine r))
            then (zeroPacket, event ''authentication_failed'' ''warn'' [] (auth_metric ''overloaded'' r))
            else admit a key (cNode c) t r)"


section \<open>Requests of admitted peers\<close>

definition response_packet :: "PacketType \<Rightarrow> u64 \<Rightarrow> Packet \<Rightarrow> TLV list \<Rightarrow> Packet" where
  "response_packet typ sid request ext = \<lparr>pHeader = zeroHeader\<lparr>hVersion := 1, hType := typ,
       hFlags := FlagResponse, hSessionID := sid, hStreamID := hStreamID (pHeader request),
       hSequence := hSequence (pHeader request), hTimestamp := hTimestamp (pHeader request)\<rparr>,
     pExtensions = ext, pPayload = []\<rparr>"

text \<open>\<^verbatim>\<open>notifyEnd\<close> of a pointer: the source dereferences it without a test.\<close>

definition notifyEnd_ptr :: "StreamEnd option \<Rightarrow> Reflector \<Rightarrow> Reflector option" where
  "notifyEnd_ptr end r = (case end of None \<Rightarrow> None | Some x \<Rightarrow> notifyEnd x r)"

definition control :: "u64 \<Rightarrow> Packet \<Rightarrow> Reflector \<Rightarrow> (Packet \<times> Reflector) option" where
  "control sid p r =
     (let typ = hType (pHeader p); ext = [tlv TLVTransactionID (found p TLVTransactionID)];
          stream = hStreamID (pHeader p) in
      if typ = PacketKeepalive then
        let r = set_peer sid (\<lambda>q. q\<lparr>peReady := True\<rparr>) r in
        Some (response_packet typ sid p ext, r\<lparr>engine := snd (SetReady sid (engine r))\<rparr>)
      else if typ = PacketDisconnect then
        (case disconnectPeer sid ''client_request'' r of
           (None, r) \<Rightarrow> Some (response_packet typ sid p ext, r)
         | (Some end, r) \<Rightarrow> do { r \<leftarrow> notifyEnd end r; Some (response_packet typ sid p ext, r) })
      else if typ = PacketStreamRequest then
        let (result, e) = RequestFloor sid stream (TrimSpace (string_of (found p TLVSourceCallsign))) (engine r);
            r = r\<lparr>engine := e\<rparr> in
        if result = FloorGranted then
          let r = metric ''opusref_streams_total'' [(''result'', ''granted'')] 1 r;
              r = event ''stream_granted'' ''info'' [(''session_id'', DSession sid), (''stream_id'', DStream stream)] r;
              ext = ext @ [Uint32TLV TLVTransmitTimeLimit (limit_seconds r)];
              (s, r) = EngineSnapshot r in
          do {
            r \<leftarrow> range_loop peers
              (\<lambda>lid q r. if lid \<noteq> sid \<and> peReady q then notifyStart lid (snFloor s) r else Some r)
              (map fst (peers r)) r;
            Some (response_packet PacketStreamGrant sid p ext, r)
          }
        else
          let r = metric ''opusref_streams_total'' [(''result'', ''busy'')] 1 r;
              r = metric ''opusref_busy_total'' [] 1 r;
              r = event ''stream_busy'' ''info'' [] r in
          Some (response_packet PacketStreamBusy sid p ext, r)
      else if typ = PacketStreamEnd then
        let (result, e) = End sid stream (hSequence (pHeader p)) (hTimestamp (pHeader p)) EndNormal (engine r);
            r = r\<lparr>engine := e\<rparr> in
        (case result of
           Inl _ \<Rightarrow> Some (errorResponse p ErrorInvalidStream, r)
         | Inr end \<Rightarrow> do {
             r \<leftarrow> notifyEnd_ptr end r;
             Some (response_packet typ sid p (ext @ [Uint16TLV TLVEndReason EndReasonNormal]), r)
           })
      else Some (response_packet typ sid p ext, r))"

definition ack :: "u64 \<Rightarrow> Packet \<Rightarrow> Reflector \<Rightarrow> (bool \<times> Reflector) option" where
  "ack sid p r =
     (let h = pHeader p in
      case Find p TLVTransactionID of
        None \<Rightarrow> Some (False, r)
      | Some raw \<Rightarrow>
          if length raw \<noteq> 8 then Some (False, r)
          else do {
            t \<leftarrow> Uint64 raw;
            let key = \<lparr>nkListener = sid, nkTyp = hType h, nkTx = t\<rparr> in
            case map_of (pending r) key of
              None \<Rightarrow> Some (False, r)
            | Some n \<Rightarrow>
                let g = pHeader (noPacket n) in
                if hStreamID h \<noteq> hStreamID g \<or> hSequence h \<noteq> hSequence g \<or> hTimestamp h \<noteq> hTimestamp g
                then Some (False, r)
                else let r = r\<lparr>pending := AList.delete key (pending r)\<rparr> in
                  Some (True,
                    if hType h = PacketStreamStart then set_peer sid (\<lambda>q. q\<lparr>peReceiving := True\<rparr>) r
                    else if hType h = PacketStreamRevoke
                    then set_peer sid (\<lambda>q. q\<lparr>peNotified := False, peReceiving := False\<rparr>) r
                    else if hType h = PacketDisconnect then snd (disconnectPeer sid ''server_shutdown'' r)
                    else r)
          })"

definition recipients_of :: "Fanout list \<Rightarrow> Reflector \<Rightarrow> addr list" where
  "recipients_of effects r =
     List.map_filter (\<lambda>x. case map_of (peers r) (foSessionID x) of
       Some q \<Rightarrow> if peReceiving q then Some (peAddress q) else None
     | None \<Rightarrow> None) effects"

definition enqueue_batch :: "Packet \<Rightarrow> bytes \<Rightarrow> addr list \<Rightarrow> Reflector \<Rightarrow> Reflector" where
  "enqueue_batch p raw recipients r =
     (let typ = hType (pHeader p);
          item = (if typ = PacketData then ''data'' else ''audio'');
          kind = (if typ = PacketData then MediaData else MediaAudio);
          n = word_of_nat (length recipients);
          (queued, u) = EnqueueMedia \<lparr>mbData = raw, mbRecipients = recipients, mbKind = kind\<rparr> (transport r);
          r = r\<lparr>transport := u\<rparr> in
      if queued then metric ''opusref_fanout_recipients_total'' [(''item_type'', item)] n
                       (metric ''opusref_fanout_frames_total'' [(''item_type'', item)] 1 r)
      else queueDrop ''server_media'' item 1 n r)"

definition media :: "u64 \<Rightarrow> addr \<Rightarrow> Packet \<Rightarrow> bytes \<Rightarrow> Reflector \<Rightarrow> bool \<times> Reflector" where
  "media sid a p raw r =
     (let h = pHeader p;
          (snap0, r) = EngineSnapshot r;
          (result, e) = Media sid a (hStreamID h) (hSequence h) (hTimestamp h) (pPayload p) (engine r);
          r = r\<lparr>engine := e\<rparr> in
      case result of
        Inl _ \<Rightarrow> (False, r)
      | Inr effects \<Rightarrow>
          let (snap1, r) = EngineSnapshot r;
              r = (if IsZero (fsStartedAt (snFloor snap0)) \<and> \<not> IsZero (fsStartedAt (snFloor snap1)) \<and>
                      fsSessionID (snFloor snap1) = sid \<and> fsStreamID (snFloor snap1) = hStreamID h
                   then event ''stream_active'' ''info'' [(''session_id'', DSession sid), (''stream_id'', DStream (hStreamID h))] r
                   else r);
              recipients = recipients_of effects r in
          (True, if recipients = [] then r else enqueue_batch p raw recipients r))"

section \<open>Published state\<close>

definition client_view :: "u64 \<times> peer \<Rightarrow> ClientView" where
  "client_view = (\<lambda>(sid, p). \<lparr>cvSessionID = peId p, cvNodeCallsign = peNode p,
     cvRemoteAddress = (case SplitHostPort (peAddress p) of
        Some (host, _) \<Rightarrow> JoinHostPort host ''0'' | None \<Rightarrow> peAddress p),
     cvReady = peReady p, cvConnectedAt = peConnected p, cvLastActivity = peLast p\<rparr>)"

definition publish :: "Reflector \<Rightarrow> Reflector" where
  "publish r =
     (let (s, r) = EngineSnapshot r; (at, r) = Clock r; u = transport r in
      r\<lparr>snapshot := Some \<lparr>rsReady = \<not> draining (engine r), rsClients = map client_view (peers r),
          rsFloor = snFloor s, rsUpdated = at, rsInboundDrops = uInboundDrops u, rsMediaDrops = uMediaDrops u,
          rsMediaDropRecipients = uMediaDropRecipients u, rsControlFailures = uControlFailures u,
          rsSequenceGaps = snSequenceGaps s\<rparr>\<rparr>)"

definition NewReflector :: "ReflectorOptions \<Rightarrow> (nat \<Rightarrow> time) \<Rightarrow> bytes \<Rightarrow> (string \<Rightarrow> string) \<Rightarrow> string + Reflector" where
  "NewReflector q c rnd uni =
     (case ReflectorID uni (oID q) of
        Inl _ \<Rightarrow> Inl ''reflector ID''
      | Inr _ \<Rightarrow>
          if oDisplayName q = [] \<or> length (oDisplayName q) > 64 then Inl ''display name is required''
          else
            let q = ReflectorOptions_defaults q; q = q\<lparr>oLimits := Limits_defaults (oLimits q)\<rparr> in
            case options_validate q of
              Some err \<Rightarrow> Inl err
            | None \<Rightarrow>
                if oMaxDatagramBytes q < int BaseHeaderSize \<or> oMaxDatagramBytes q > int MaxDatagramSize
                then Inl ''maximum datagram size is invalid''
                else case NewUDP (oInboundQueuePackets q) (oOutboundControlQueuePackets q) (oOutboundMediaQueueFrames q) of
                  None \<Rightarrow> Inl ''transport queue capacities must be positive''
                | Some u \<Rightarrow>
                    Inr (publish \<lparr>options = q, engine = NewEngine (oLimits q) c, transport = u, challenges = [],
                      peers = [], transactions = [], pending = [], snapshot = None, random = rnd, unicode = uni,
                      metrics = [], events = []\<rparr>))"

definition zeroRuntimeSnapshot :: RuntimeSnapshot where
  "zeroRuntimeSnapshot = \<lparr>rsReady = False, rsClients = [], rsFloor = zeroFloorSnapshot, rsUpdated = 0,
     rsInboundDrops = 0, rsMediaDrops = 0, rsMediaDropRecipients = 0, rsControlFailures = 0, rsSequenceGaps = 0\<rparr>"

definition Reflector_Snapshot :: "Reflector \<Rightarrow> RuntimeSnapshot" where
  "Reflector_Snapshot r = (case snapshot r of None \<Rightarrow> zeroRuntimeSnapshot | Some s \<Rightarrow> s)"

section \<open>Datagrams\<close>

definition pre_admission :: ValidationContext where
  "pre_admission = \<lparr>cDirection = ClientToServer, cPhase = PreAdmission\<rparr>"

definition handshake :: "addr \<Rightarrow> Packet \<Rightarrow> (addr \<Rightarrow> Packet \<Rightarrow> Reflector \<Rightarrow> Packet \<times> Reflector) \<Rightarrow>
    Reflector \<Rightarrow> Reflector option" where
  "handshake a p respond r =
     (case Validate p pre_admission of
        None \<Rightarrow> do { (_, r) \<leftarrow> transact a p (\<lambda>p r. Some (respond a p r)) r; Some r }
      | Some v \<Rightarrow> Some (malformed_packet (validation_reason v) r))"

text \<open>The part of \<^verbatim>\<open>handle\<close> that dispatches a packet of an admitted peer.\<close>

definition dispatch :: "addr \<Rightarrow> u64 \<Rightarrow> Packet \<Rightarrow> bytes \<Rightarrow> Reflector \<Rightarrow> (bool \<times> Reflector) option" where
  "dispatch a sid p data r =
     (let typ = hType (pHeader p) in
      if typ = PacketKeepalive \<or> typ = PacketDisconnect \<or> typ = PacketStreamRequest \<or> typ = PacketStreamEnd
      then transact a p (control sid) r
      else if typ = PacketStreamStart \<or> typ = PacketStreamRevoke then ack sid p r
      else if typ = PacketAudio \<or> typ = PacketData then Some (media sid a p data r)
      else Some (False, r))"

definition handle_peer :: "addr \<Rightarrow> Packet \<Rightarrow> bytes \<Rightarrow> Reflector \<Rightarrow> Reflector option" where
  "handle_peer a p data r =
     (let sid = hSessionID (pHeader p) in
      case map_of (peers r) sid of
        None \<Rightarrow> Some (packet_error ''invalid_session'' r)
      | Some q \<Rightarrow>
          if peAddress q \<noteq> a then Some (packet_error ''address_mismatch'' r)
          else case Validate p \<lparr>cDirection = ClientToServer, cPhase = (if peReady q then Ready else Connected)\<rparr> of
            Some v \<Rightarrow> Some (malformed_packet (validation_reason v) r)
          | None \<Rightarrow> do {
              (accepted, r) \<leftarrow> dispatch a sid p data r;
              if accepted \<and> map_of (peers r) sid \<noteq> None then
                let (at, r) = Clock r;
                    r = set_peer sid (\<lambda>q. q\<lparr>peLast := at\<rparr>) r in
                Some (r\<lparr>engine := snd (Touch sid a (engine r))\<rparr>)
              else Some r
            })"

definition handle_packet :: "addr \<Rightarrow> Packet \<Rightarrow> bytes \<Rightarrow> Reflector \<Rightarrow> Reflector option" where
  "handle_packet a p data r =
     (if hType (pHeader p) = PacketHello then handshake a p hello r
      else if hType (pHeader p) = PacketAuthenticate then handshake a p authenticate r
      else if hType (pHeader p) = PacketDisconnect then do {
        ((replayed, p), r) \<leftarrow> replayDisconnect a p r;
        if replayed then Some r else handle_peer a p data r
      }
      else handle_peer a p data r)"

definition handle :: "addr \<Rightarrow> bytes \<Rightarrow> Reflector \<Rightarrow> Reflector option" where
  "handle a data r = do {
     r \<leftarrow> (if int (length data) > oMaxDatagramBytes (options r) then Some (malformed_packet ''limit_exceeded'' r)
          else case Decode data of
            None \<Rightarrow> None
          | Some (Inl err) \<Rightarrow> Some (malformed_packet (wire_reason err) r)
          | Some (Inr p) \<Rightarrow> handle_packet a p data (traffic ''rx'' (hType (pHeader p)) (length data) r));
     Some (publish r)
   }"

definition handleDrain :: "addr \<Rightarrow> bytes \<Rightarrow> Reflector \<Rightarrow> Reflector option" where
  "handleDrain a data r =
     (if int (length data) > oMaxDatagramBytes (options r) then Some r
      else case Decode data of
        None \<Rightarrow> None
      | Some (Inl _) \<Rightarrow> Some r
      | Some (Inr p) \<Rightarrow>
          let sid = hSessionID (pHeader p); typ = hType (pHeader p) in
          case map_of (peers r) sid of
            None \<Rightarrow> Some r
          | Some q \<Rightarrow>
              if peAddress q \<noteq> a then Some r
              else if Validate p \<lparr>cDirection = ClientToServer, cPhase = Ready\<rparr> \<noteq> None then Some r
              else if (typ = PacketStreamRevoke \<or> typ = PacketDisconnect) \<and> hFlags (pHeader p) = FlagResponse
              then do { (_, r) \<leftarrow> ack sid p r; Some r }
              else if typ = PacketDisconnect then do { (_, r) \<leftarrow> transact a p (control sid) r; Some r }
              else Some r)"

section \<open>Timers\<close>

definition tick_peer :: "time \<Rightarrow> u64 \<Rightarrow> peer \<Rightarrow> Reflector \<Rightarrow> Reflector option" where
  "tick_peer t sid q r =
     (if Sub t (peLast q) > SessionTimeout (limits (engine r)) then
        let r = metric ''opusref_timeouts_total'' [(''kind'', ''session'')] 1 r in
        (case disconnectPeer sid ''session_timeout'' r of
           (None, r) \<Rightarrow> Some r
         | (Some end, r) \<Rightarrow> notifyEnd end r)
      else Some r)"

definition tick_engine :: "Reflector \<Rightarrow> Reflector option" where
  "tick_engine r =
     (let (end, e) = Tick (engine r); r = r\<lparr>engine := e\<rparr> in
      case end of
        None \<Rightarrow> Some r
      | Some x \<Rightarrow>
          let kind = (if seReason x = EndMediaInactivity then ''media_inactivity''
                      else if seReason x = EndTransmitTimeLimit then ''transmit_time_limit'' else ''grant'') in
          notifyEnd x (metric ''opusref_timeouts_total'' [(''kind'', kind)] 1 r))"

definition retry_delays :: "duration list" where
  "retry_delays = [500 * Millisecond, Second, 2 * Second]"

definition tick_pending :: "time \<Rightarrow> notificationKey \<Rightarrow> notification \<Rightarrow> Reflector \<Rightarrow> Reflector option" where
  "tick_pending t key n r =
     (if t < noNext n then Some r
      else if noAttempt n \<ge> 4 then
        let r = metric ''opusref_timeouts_total'' [(''kind'', ''transaction'')] 1 r;
            r = r\<lparr>pending := AList.delete key (pending r)\<rparr> in
        Some (if nkTyp key = PacketStreamStart
              then set_peer (nkListener key) (\<lambda>q. q\<lparr>peReceiving := False\<rparr>) r else r)
      else do {
        let p = noPacket n;
        let p = p\<lparr>pHeader := (pHeader p)\<lparr>hFlags := hFlags (pHeader p) OR FlagRetry\<rparr>\<rparr>;
        let attempt = noAttempt n + 1;
        next_at \<leftarrow> (if attempt < 4 then do { d \<leftarrow> at retry_delays (attempt - 1); Some (t + d) } else Some t);
        let r = r\<lparr>pending := AList.update key \<lparr>noPacket = p, noAttempt = attempt, noNext = next_at\<rparr> (pending r)\<rparr>;
        (case map_of (peers r) (nkListener key) of
           None \<Rightarrow> Some r
         | Some q \<Rightarrow> sendControl (peAddress q) p r)
      })"

definition tick :: "Reflector \<Rightarrow> Reflector option" where
  "tick r = do {
     let (t, r) = Clock r;
     let expired = filter (\<lambda>(_, c). Sub t (cAt c) > 10 * Second) (challenges r);
     let r = fold (\<lambda>_. metric ''opusref_timeouts_total'' [(''kind'', ''challenge'')] 1) expired r;
     let r = r\<lparr>challenges := filter (\<lambda>(_, c). \<not> Sub t (cAt c) > 10 * Second) (challenges r),
               transactions := filter (\<lambda>(_, c). \<not> Sub t (coAt c) > 30 * Second) (transactions r)\<rparr>;
     r \<leftarrow> range_loop peers (tick_peer t) (map fst (peers r)) r;
     r \<leftarrow> tick_engine r;
     r \<leftarrow> range_loop pending (tick_pending t) (map fst (pending r)) r;
     Some (publish r)
   }"

section \<open>Shutdown\<close>

text \<open>
  What happens beside the goroutine of \<^verbatim>\<open>Run\<close>: the socket reader stores a datagram, the writer takes a control
  datagram or a media batch. Go iterates over maps in any order, so the entries of the maps may also be
  permuted at any moment.
\<close>

datatype background =
    BReceive Datagram
  | BWriteControl
  | BWriteMedia
  | BReorder "(u64, session) gomap" "(u64, peer) gomap" "(notificationKey, notification) gomap"

fun background_step :: "background \<Rightarrow> Reflector \<Rightarrow> Reflector" where
  "background_step (BReceive d) r =
     r\<lparr>transport := Read_round (nat (oMaxDatagramBytes (options r) + 1)) d (transport r)\<rparr>"
| "background_step BWriteControl r =
     (case try_recv (uControl (transport r)) of
        None \<Rightarrow> r | Some (_, c) \<Rightarrow> r\<lparr>transport := (transport r)\<lparr>uControl := c\<rparr>\<rparr>)"
| "background_step BWriteMedia r =
     (case try_recv (uMedia (transport r)) of
        None \<Rightarrow> r | Some (_, c) \<Rightarrow> r\<lparr>transport := (transport r)\<lparr>uMedia := c\<rparr>\<rparr>)"
| "background_step (BReorder ss ps ns) r =
     (if mset ss = mset (sessions (engine r)) \<and> mset ps = mset (peers r) \<and> mset ns = mset (pending r)
      then r\<lparr>engine := (engine r)\<lparr>sessions := ss\<rparr>, peers := ps, pending := ns\<rparr> else r)"

text \<open>
  \<^verbatim>\<open>drainPending\<close> runs until nothing is pending or the context is done. Which of its cases a
  round takes is the environment's choice: a datagram of the inbound queue, a timer, or the end of the context,
  which is also the end of the script. The reader and the writer keep running until \<^verbatim>\<open>Run\<close> returns, so their steps
  come between the rounds, and before and after them.
\<close>

datatype drain_event = DrainBackground background | DrainDatagram | DrainTimer | DrainDone

fun drainPending :: "drain_event list \<Rightarrow> Reflector \<Rightarrow> Reflector option" where
  "drainPending [] r = Some r"
| "drainPending (DrainBackground b # evs) r = drainPending evs (background_step b r)"
| "drainPending (DrainDone # evs) r = Some r"
| "drainPending (DrainDatagram # evs) r =
     (if pending r = [] then Some r
      else case try_recv (uInbound (transport r)) of
        None \<Rightarrow> drainPending evs r
      | Some (d, c) \<Rightarrow> do {
          r \<leftarrow> handleDrain (dAddress d) (dData d) (r\<lparr>transport := (transport r)\<lparr>uInbound := c\<rparr>\<rparr>);
          drainPending evs r
        })"
| "drainPending (DrainTimer # evs) r = (if pending r = [] then Some r else do { r \<leftarrow> tick r; drainPending evs r })"

definition log_drop :: "MediaKind \<times> MediaDrops \<Rightarrow> Reflector \<Rightarrow> Reflector" where
  "log_drop = (\<lambda>(kind, count) r. if mdFrames count > 0
     then queueDrop ''server_media'' (if kind = MediaData then ''data'' else ''audio'') (mdFrames count) (mdRecipients count) r
     else r)"

definition begin_drain :: "Reflector \<Rightarrow> Reflector option" where
  "begin_drain r = do {
     let (drops, u) = DisableMedia (transport r);
     let r = fold log_drop drops (r\<lparr>transport := u\<rparr>);
     let (end, e) = BeginShutdown (engine r);
     let r = r\<lparr>engine := e\<rparr>;
     r \<leftarrow> (case end of None \<Rightarrow> Some r | Some x \<Rightarrow> notifyEnd x r);
     Some (publish r)
   }"

definition disconnect_packet :: "u64 \<Rightarrow> u64 \<Rightarrow> Packet" where
  "disconnect_packet sid i = \<lparr>pHeader = zeroHeader\<lparr>hVersion := 1, hType := PacketDisconnect, hSessionID := sid\<rparr>,
     pExtensions = [Uint64TLV TLVTransactionID i], pPayload = []\<rparr>"

definition say_goodbye :: "Reflector \<Rightarrow> Reflector option" where
  "say_goodbye r =
     (let r = (if pending r \<noteq> [] then metric ''opusref_timeouts_total'' [(''kind'', ''shutdown'')] 1 r else r) in
      range_loop peers
        (\<lambda>sid q r. let (i, r) = transactionID r in startNotification sid (peAddress q) (disconnect_packet sid i) r)
        (map fst (peers r)) r)"

definition drop_peers :: "Reflector \<Rightarrow> Reflector option" where
  "drop_peers r =
     range_loop peers
       (\<lambda>sid q r. case disconnectPeer sid ''server_shutdown'' r of
          (None, r) \<Rightarrow> Some r
        | (Some end, r) \<Rightarrow> notifyEnd end r)
       (map fst (peers r)) r"

definition drain :: "drain_event list \<Rightarrow> drain_event list \<Rightarrow> Reflector \<Rightarrow> Reflector option" where
  "drain evs1 evs2 r = do {
     r \<leftarrow> begin_drain r;
     r \<leftarrow> drainPending evs1 r;
     r \<leftarrow> say_goodbye r;
     r \<leftarrow> drainPending evs2 r;
     drop_peers r
   }"

end
