(* ===== verification/ReflectorLaws.thy ===== *)
theory ReflectorLaws
  imports Reflector EngineLaws
begin

text \<open>
  The laws of the reflector: the invariant that ties its tables to the engine's state, and
  that every handler returns (no panic, no unbounded recursion) and keeps the invariant.
\<close>

section \<open>The invariant\<close>

definition good_call :: "(string \<Rightarrow> string) \<Rightarrow> string \<Rightarrow> bool" where
  "good_call uni n \<longleftrightarrow> (\<exists>d. Callsign uni n = Inr d)"

text \<open>Every session of the engine belongs to a peer with the same address and callsign.\<close>

definition sync_ok :: "(u64, session) gomap \<Rightarrow> (u64, peer) gomap \<Rightarrow> bool" where
  "sync_ok ss ps \<longleftrightarrow> (\<forall>sid s. map_of ss sid = Some s \<longrightarrow>
     (\<exists>q. map_of ps sid = Some q \<and> peAddress q = sAddress s \<and> peNode q = sCallsign s \<and> (sReady s \<longrightarrow> peReady q)))"

definition peers_ok :: "(string \<Rightarrow> string) \<Rightarrow> (u64, peer) gomap \<Rightarrow> bool" where
  "peers_ok uni ps \<longleftrightarrow> wf_map ps \<and>
     (\<forall>sid q. map_of ps sid = Some q \<longrightarrow> peId q = sid \<and> sid \<noteq> 0 \<and> good_call uni (peNode q))"

definition note_ok :: "notificationKey \<Rightarrow> notification \<Rightarrow> bool" where
  "note_ok key n \<longleftrightarrow> 1 \<le> noAttempt n \<and> noAttempt n \<le> 4 \<and> hType (pHeader (noPacket n)) = nkTyp key \<and>
     Find (noPacket n) TLVTransactionID = Some (PutUint64 (nkTx key))"

definition pending_of :: "u64 \<Rightarrow> (notificationKey, notification) gomap \<Rightarrow> nat" where
  "pending_of sid m = length (filter (\<lambda>(key, _). nkListener key = sid) m)"

definition pending_ok :: "ReflectorOptions \<Rightarrow> (notificationKey, notification) gomap \<Rightarrow> bool" where
  "pending_ok q m \<longleftrightarrow> wf_map m \<and> int (length m) \<le> oMaxPendingNotifications q \<and>
     (\<forall>sid. int (pending_of sid m) \<le> oMaxPendingNotificationsPerClient q) \<and>
     (\<forall>key n. map_of m key = Some n \<longrightarrow> note_ok key n)"

definition challenges_ok :: "ReflectorOptions \<Rightarrow> (string \<Rightarrow> string) \<Rightarrow> (string, challenge) gomap \<Rightarrow> bool" where
  "challenges_ok q uni m \<longleftrightarrow> wf_map m \<and> int (length m) \<le> oMaxPendingChallenges q \<and>
     (\<forall>key c. map_of m key = Some c \<longrightarrow> good_call uni (cNode c))"

definition transactions_ok :: "ReflectorOptions \<Rightarrow> (string, completed) gomap \<Rightarrow> bool" where
  "transactions_ok q m \<longleftrightarrow> wf_map m \<and> int (length m) \<le> MaxCompletedTransactions (oLimits q) \<and>
     (\<forall>key c. map_of m key = Some c \<longrightarrow> (\<exists>p. Decode (coResponse c) = ok p))"

definition transport_ok :: "UDP \<Rightarrow> bool" where
  "transport_ok u \<longleftrightarrow> wf_chan (uInbound u) \<and> wf_chan (uControl u) \<and> wf_chan (uMedia u)"

definition refl_inv :: "Reflector \<Rightarrow> bool" where
  "refl_inv r \<longleftrightarrow> engine_inv (engine r) \<and> sync_ok (sessions (engine r)) (peers r) \<and>
     peers_ok (unicode r) (peers r) \<and> pending_ok (options r) (pending r) \<and>
     challenges_ok (options r) (unicode r) (challenges r) \<and> transactions_ok (options r) (transactions r) \<and>
     transport_ok (transport r) \<and> limits (engine r) = oLimits (options r) \<and> options_validate (options r) = None"

text \<open>
  What the internal notification machinery leaves alone: options, transactions and challenges
  stay, sessions and peers only go, no peer changes its identity, and the floor is at most
  released.
\<close>

definition peers_from :: "(u64, peer) gomap \<Rightarrow> (u64, peer) gomap \<Rightarrow> bool" where
  "peers_from ps ps' \<longleftrightarrow> (\<forall>sid q'. map_of ps' sid = Some q' \<longrightarrow>
     (\<exists>q. map_of ps sid = Some q \<and> peAddress q' = peAddress q \<and> peNode q' = peNode q))"

lemma peers_from_refl [simp]: "peers_from ps ps"
  by (simp add: peers_from_def)

lemma peers_from_trans: "peers_from a b \<Longrightarrow> peers_from b c \<Longrightarrow> peers_from a c"
  unfolding peers_from_def by metis

lemma peers_from_delete: "peers_from ps (AList.delete sid ps)"
  by (simp add: peers_from_def map_simps)


definition quiet :: "Reflector \<Rightarrow> Reflector \<Rightarrow> bool" where
  "quiet r0 r \<longleftrightarrow> options r = options r0 \<and> unicode r = unicode r0 \<and> transactions r = transactions r0 \<and>
     challenges r = challenges r0 \<and> draining (engine r) = draining (engine r0) \<and>
     limits (engine r) = limits (engine r0) \<and> clock (engine r) = clock (engine r0) \<and>
     map_of (sessions (engine r)) \<subseteq>\<^sub>m map_of (sessions (engine r0)) \<and>
     peers_from (peers r0) (peers r) \<and>
     floor_of (engine r) \<in> {None, floor_of (engine r0)}"

definition kept :: "Reflector \<Rightarrow> Reflector \<Rightarrow> bool" where
  "kept r0 r \<longleftrightarrow> refl_inv r \<and> quiet r0 r"

lemma quiet_refl [simp, intro]: "quiet r r"
  by (simp add: quiet_def)

lemma quiet_trans: "quiet r0 r1 \<Longrightarrow> quiet r1 r2 \<Longrightarrow> quiet r0 r2"
  unfolding quiet_def by (auto intro: map_le_trans peers_from_trans)

lemma kept_refl: "refl_inv r \<Longrightarrow> kept r r"
  by (simp add: kept_def)

lemma kept_trans: "kept r0 r1 \<Longrightarrow> kept r1 r2 \<Longrightarrow> kept r0 r2"
  unfolding kept_def by (blast intro: quiet_trans)

lemma kept_inv: "kept r0 r \<Longrightarrow> refl_inv r"
  by (simp add: kept_def)

section \<open>Updates that the invariant does not see\<close>

definition same_core :: "Reflector \<Rightarrow> Reflector \<Rightarrow> bool" where
  "same_core r r' \<longleftrightarrow> options r' = options r \<and> engine r' = engine r \<and> transport r' = transport r \<and>
     challenges r' = challenges r \<and> peers r' = peers r \<and> transactions r' = transactions r \<and>
     pending r' = pending r \<and> unicode r' = unicode r"

lemma same_core_inv: "same_core r r' \<Longrightarrow> refl_inv r' = refl_inv r"
  by (simp add: same_core_def refl_inv_def)

lemma same_core_quiet: "same_core r r' \<Longrightarrow> quiet r0 r' = quiet r0 r"
  by (simp add: same_core_def quiet_def)

lemma same_core_kept: "same_core r r' \<Longrightarrow> kept r0 r' = kept r0 r"
  by (simp add: kept_def same_core_inv same_core_quiet)

lemma same_core_trans: "same_core r r' \<Longrightarrow> same_core r' r'' \<Longrightarrow> same_core r r''"
  by (simp add: same_core_def)

lemma same_core_refl [simp]: "same_core r r"
  by (simp add: same_core_def)

named_theorems core_simps \<open>the sinks leave the core of the state alone\<close>

lemma same_core_metric [core_simps]: "same_core r (metric name labels value r)"
  by (simp add: same_core_def metric_def)

lemma same_core_event [core_simps]: "same_core r (event typ sev det r)"
  by (simp add: same_core_def event_def)

lemma same_core_random: "same_core r (r\<lparr>random := b\<rparr>)"
  by (simp add: same_core_def)

lemma same_core_queueDrop [core_simps]: "same_core r (queueDrop q i f n r)"
  by (simp add: queueDrop_def Let_def same_core_def event_def metric_def)

lemma same_core_traffic [core_simps]: "same_core r (traffic d t n r)"
  by (simp add: traffic_def Let_def same_core_def metric_def)

lemma same_core_packet_error [core_simps]: "same_core r (packet_error reason r)"
  by (simp add: packet_error_def core_simps)

lemma same_core_malformed [core_simps]: "same_core r (malformed_packet reason r)"
  by (simp add: malformed_packet_def packet_error_def same_core_def event_def metric_def)

lemma same_core_auth_metric [core_simps]: "same_core r (auth_metric result r)"
  by (simp add: auth_metric_def core_simps)

lemma same_core_auth_failure [core_simps]: "same_core r (authenticationFailure result r)"
  by (simp add: authenticationFailure_def auth_metric_def same_core_def event_def metric_def)

lemma same_core_log_end [core_simps]: "same_core r (log_end x r)"
  by (simp add: log_end_def Let_def same_core_def event_def metric_def)

lemmas core_fields = same_core_def [THEN iffD1]

lemma same_core_ReadRandom: "same_core r (snd (ReadRandom n r))"
  by (auto simp: ReadRandom_def ReadFull_def same_core_def)

lemma same_core_transactionID: "same_core r (snd (transactionID r))"
proof (induction r rule: transactionID.induct)
  case (1 r)
  obtain b r1 where b: "ReadRandom 8 r = (b, r1)" by force
  have core: "same_core r r1" using same_core_ReadRandom [of r 8] by (simp add: b)
  show ?case
  proof (cases b)
    case None
    with core b show ?thesis by (simp add: transactionID.simps [of r])
  next
    case (Some raw)
    with b have r1: "ReadRandom 8 r = (Some raw, r1)" by simp
    have "same_core r1 (snd (transactionID r1))"
      if "get_be raw = (0::u64) \<or> list_ex (\<lambda>(key, _). nkTx key = get_be raw) (pending r1)"
      using 1 r1 that by (cases "get_be raw = (0::u64)") auto
    with core show ?thesis
      by (auto simp: transactionID.simps [of r] r1 Let_def intro: same_core_trans)
  qed
qed


section \<open>Updates that keep the invariant\<close>

lemma kept_readings [simp]: "kept r0 (r\<lparr>engine := (engine r)\<lparr>readings := n\<rparr>\<rparr>) = kept r0 r"
  by (simp add: kept_def refl_inv_def quiet_def)

lemma Clock_eq: "Clock r = (clock (engine r) (readings (engine r)), r\<lparr>engine := (engine r)\<lparr>readings := Suc (readings (engine r))\<rparr>\<rparr>)"
  by (simp add: Clock_def now_def)

lemma kept_Clock [simp]: "kept r0 (snd (Clock r)) = kept r0 r"
  by (simp add: Clock_eq)

lemma Snapshot_readings: "\<exists>n. snd (Snapshot e) = e\<lparr>readings := n\<rparr>"
  by (auto simp: Snapshot_def Let_def now_def split: option.splits
      intro: exI [of _ "readings e"] exI [of _ "Suc (readings e)"])

lemma EngineSnapshot_eq: "\<exists>n. EngineSnapshot r = (fst (Snapshot (engine r)), r\<lparr>engine := (engine r)\<lparr>readings := n\<rparr>\<rparr>)"
  using Snapshot_readings [of "engine r"]
  by (auto simp: EngineSnapshot_def split: prod.splits intro: exI)

lemma kept_EngineSnapshot [simp]: "kept r0 (snd (EngineSnapshot r)) = kept r0 r"
  using EngineSnapshot_eq [of r] by (metis kept_readings snd_conv)

lemma kept_transactionID: "kept r0 (snd (transactionID r)) = kept r0 r"
  by (rule same_core_kept) (rule same_core_transactionID)

definition peer_update :: "(peer \<Rightarrow> peer) \<Rightarrow> bool" where
  "peer_update f \<longleftrightarrow> (\<forall>q. peId (f q) = peId q \<and> peAddress (f q) = peAddress q \<and> peNode (f q) = peNode q \<and>
     (peReady q \<longrightarrow> peReady (f q)))"

lemma sync_ok_update:
  assumes "sync_ok ss ps" and "map_of ps sid = Some q" and "peer_update f"
  shows "sync_ok ss (AList.update sid (f q) ps)"
  using assms unfolding sync_ok_def peer_update_def map_simps by (metis option.inject)

lemma kept_set_peer:
  assumes "kept r0 r" and "peer_update f"
  shows "kept r0 (set_peer sid f r)"
proof (cases "map_of (peers r) sid")
  case None
  with assms show ?thesis by (simp add: set_peer_def)
next
  case (Some q)
  have "peers_ok (unicode r) (AList.update sid (f q) (peers r))"
    using assms Some by (auto simp: kept_def refl_inv_def peers_ok_def peer_update_def map_simps)
  moreover have "sync_ok (sessions (engine r)) (AList.update sid (f q) (peers r))"
    using assms Some by (auto simp: kept_def refl_inv_def intro: sync_ok_update)
  moreover have "peers_from (peers r) (AList.update sid (f q) (peers r))"
    using assms(2) Some by (auto simp: peers_from_def peer_update_def map_simps)
  ultimately show ?thesis
    using assms Some by (auto simp: set_peer_def kept_def refl_inv_def quiet_def intro: peers_from_trans)
qed

lemma transport_ok_control: "transport_ok u \<Longrightarrow> transport_ok (snd (EnqueueControl d u))"
  by (auto simp: transport_ok_def EnqueueControl_eq wf_chan_def)

lemma transport_ok_media: "transport_ok u \<Longrightarrow> transport_ok (snd (EnqueueMedia b u))"
  by (auto simp: transport_ok_def EnqueueMedia_def Let_def try_send_def wf_chan_def)

lemma kept_transport: "kept r0 r \<Longrightarrow> transport_ok u \<Longrightarrow> kept r0 (r\<lparr>transport := u\<rparr>)"
  by (auto simp: kept_def refl_inv_def quiet_def)

lemma kept_transport_ok: "kept r0 r \<Longrightarrow> transport_ok (transport r)"
  by (simp add: kept_def refl_inv_def)

text \<open>The pending notifications.\<close>

lemma pending_of_filter: "pending_of sid (filter P m) \<le> pending_of sid m"
proof -
  have "filter (\<lambda>(key, _). nkListener key = sid) (filter P m) = filter P (filter (\<lambda>(key, _). nkListener key = sid) m)"
    by (simp add: conj_commute case_prod_beta)
  then show ?thesis by (simp only: pending_of_def length_filter_le)
qed

lemma pending_ok_filter:
  assumes "pending_ok q m"
  shows "pending_ok q (filter (\<lambda>(key, n). P key) m)"
proof -
  have "int (length (filter (\<lambda>(key, n). P key) m)) \<le> int (length m)" by simp
  moreover have "int (pending_of sid (filter (\<lambda>(key, n). P key) m)) \<le> int (pending_of sid m)" for sid
    using pending_of_filter by simp
  moreover have "map_of (filter (\<lambda>(key, n). P key) m) key = Some n \<Longrightarrow> map_of m key = Some n" for key n
    using assms map_of_filter_wf [of m "\<lambda>key n. P key" key]
    by (auto simp: pending_ok_def split: option.splits if_splits)
  ultimately show ?thesis
    using assms unfolding pending_ok_def by (meson order_trans wf_map_filter)
qed

lemma kept_pending: "kept r0 r \<Longrightarrow> pending_ok (options r) m \<Longrightarrow> kept r0 (r\<lparr>pending := m\<rparr>)"
  by (auto simp: kept_def refl_inv_def quiet_def)

lemma kept_pending_filter: "kept r0 r \<Longrightarrow> kept r0 (r\<lparr>pending := filter (\<lambda>(key, n). P key) (pending r)\<rparr>)"
  by (rule kept_pending) (auto intro: pending_ok_filter simp: kept_def refl_inv_def)

lemma kept_pending_delete: "kept r0 r \<Longrightarrow> kept r0 (r\<lparr>pending := AList.delete key (pending r)\<rparr>)"
  using kept_pending_filter [of r0 r "\<lambda>k. key \<noteq> k"]
  by (simp add: AList.delete_eq)

lemma pending_of_update:
  "pending_of sid (AList.update key n m) =
     (if map_of m key = None \<and> nkListener key = sid then Suc (pending_of sid m) else pending_of sid m)"
  by (induction m) (auto simp: pending_of_def split: if_splits)

lemma pending_ok_insert:
  assumes "pending_ok q m" and "note_ok key n"
    and "int (length m) < oMaxPendingNotifications q"
    and "int (pending_of (nkListener key) m) < oMaxPendingNotificationsPerClient q"
  shows "pending_ok q (AList.update key n m)"
  using assms by (auto simp: pending_ok_def map_simps pending_of_update)

lemma pending_ok_replace:
  assumes "pending_ok q m" and "note_ok key n" and "map_of m key = Some n'"
  shows "pending_ok q (AList.update key n m)"
  using assms by (auto simp: pending_ok_def map_simps pending_of_update)

text \<open>Disconnecting a peer.\<close>

lemma floor_None_Disconnect: "floor_of e = None \<Longrightarrow> fst (Disconnect sid e) = None"
  by (simp add: Disconnect_def releaseLocked_def)

lemma Disconnect_Some_floor: "fst (Disconnect sid e) = Some x \<Longrightarrow> floor_of (snd (Disconnect sid e)) = None"
  by (auto simp: Disconnect_def releaseLocked_eq split: option.splits if_splits)

lemma Disconnect_frame:
  "limits (snd (Disconnect sid e)) = limits e" "clock (snd (Disconnect sid e)) = clock e"
  "sessions (snd (Disconnect sid e)) = AList.delete sid (sessions e)"
  "floor_of (snd (Disconnect sid e)) \<in> {None, floor_of e}"
  by (auto simp: Disconnect_def releaseLocked_eq split: option.splits)

lemma kept_disconnectPeer:
  assumes "kept r0 r"
  shows "kept r0 (snd (disconnectPeer sid reason r))"
proof (cases "map_of (peers r) sid")
  case None
  with assms show ?thesis by (simp add: disconnectPeer_def)
next
  case (Some q)
  let ?e = "snd (Disconnect sid (engine r))"
  let ?r = "r\<lparr>engine := ?e, peers := AList.delete sid (peers r)\<rparr>"
  have inv: "refl_inv r" and q: "quiet r0 r" using assms by (auto simp: kept_def)
  have "sync_ok (sessions ?e) (AList.delete sid (peers r))"
    using inv by (auto simp: refl_inv_def sync_ok_def Disconnect_frame map_simps)
  moreover have "peers_ok (unicode r) (AList.delete sid (peers r))"
    using inv by (auto simp: refl_inv_def peers_ok_def map_simps)
  ultimately have "refl_inv ?r"
    using inv by (simp add: refl_inv_def Disconnect_inv Disconnect_frame)
  moreover have "quiet r ?r"
    using Disconnect_frame(4) [of sid "engine r"]
    by (auto simp: quiet_def Disconnect_frame map_simps map_le_def peers_from_delete)
  ultimately have "kept r0 ?r" using q by (auto simp: kept_def intro: quiet_trans)
  then show ?thesis
    using same_core_kept [OF same_core_event] Some
    by (simp add: disconnectPeer_def split: prod.splits) (metis snd_conv)
qed

lemma disconnectPeer_floor:
  "floor_of (engine r) = None \<Longrightarrow> fst (disconnectPeer sid reason r) = None"
  "fst (disconnectPeer sid reason r) = Some x \<Longrightarrow> floor_of (engine (snd (disconnectPeer sid reason r))) = None"
  using floor_None_Disconnect [of "engine r" sid] Disconnect_Some_floor [of sid "engine r" x]
  by (auto simp: disconnectPeer_def event_def split: option.splits prod.splits)


section \<open>Notifications\<close>

text \<open>
  A notifier is good when it returns and keeps the invariant once the floor is free. It is
  only ever called when the peer that was disconnected held the floor, hence never when the
  floor is free from the start.
\<close>

definition good_notifier :: "notifier \<Rightarrow> bool" where
  "good_notifier again \<longleftrightarrow> (\<forall>x r0 r. kept r0 r \<longrightarrow> floor_of (engine r) = None \<longrightarrow>
     (\<exists>r'. again x r = Some r' \<and> kept r0 r'))"

definition usable :: "notifier \<Rightarrow> Reflector \<Rightarrow> bool" where
  "usable again r \<longleftrightarrow> floor_of (engine r) = None \<or> good_notifier again"

lemma usable_quiet: "usable again r0 \<Longrightarrow> quiet r0 r \<Longrightarrow> usable again r"
  by (auto simp: usable_def quiet_def)

lemma usable_kept: "usable again r0 \<Longrightarrow> kept r0 r \<Longrightarrow> usable again r"
  by (auto simp: kept_def intro: usable_quiet)

lemma controlOverload_with_kept:
  assumes "kept r0 r" and "usable again r"
  shows "\<exists>r'. controlOverload_with again sid r = Some r' \<and> kept r0 r'"
proof -
  obtain x r1 where d: "disconnectPeer sid ''control_overload'' r = (x, r1)" by force
  define r2 where "r2 = event ''control_overload'' ''error'' [(''session_id'', DSession sid)]
    (r1\<lparr>pending := filter (\<lambda>(key, _). nkListener key \<noteq> sid) (pending r1)\<rparr>)"
  have "kept r0 r1" using kept_disconnectPeer [OF assms(1), of sid] d by (metis snd_conv)
  then have k: "kept r0 r2"
    unfolding r2_def same_core_kept [OF same_core_event]
    using kept_pending_filter [of r0 r1 "\<lambda>key. nkListener key \<noteq> sid"] by simp
  have f: "floor_of (engine r2) = None \<and> good_notifier again" if "x = Some y" for y
    using that d assms(2) disconnectPeer_floor [where r = r and sid = sid and reason = "''control_overload''"]
    by (auto simp: usable_def r2_def event_def)
  have "controlOverload_with again sid r = (case x of None \<Rightarrow> Some r2 | Some y \<Rightarrow> again y r2)"
    unfolding controlOverload_with_def d r2_def Let_def by simp
  with k f show ?thesis
    by (cases x) (auto simp: good_notifier_def)
qed

lemma kept_enqueue:
  "kept r0 r \<Longrightarrow> kept r0 (r\<lparr>transport := snd (EnqueueControl d (transport r))\<rparr>)"
  by (intro kept_transport transport_ok_control kept_transport_ok)

lemma sendControl_with_kept:
  assumes "kept r0 r" and "usable again r"
  shows "\<exists>r'. sendControl_with again a p r = Some r' \<and> kept r0 r'"
proof -
  consider e where "Encode p = Some (Inl e)" | d where "Encode p = ok d"
    using Encode_total [of p] by (metis not_None_eq old.sum.exhaust)
  then show ?thesis
  proof cases
    case 1
    with assms show ?thesis by (simp add: sendControl_with_def)
  next
    case (2 d)
    let ?d = "\<lparr>dAddress = a, dData = d\<rparr>"
    obtain sent u where e: "EnqueueControl ?d (transport r) = (sent, u)" by force
    have k: "kept r0 (r\<lparr>transport := u\<rparr>)" using kept_enqueue [OF assms(1), of ?d] by (simp add: e)
    let ?r = "queueDrop ''server_control'' ''control'' 1 1 (r\<lparr>transport := u\<rparr>)"
    have c: "same_core (r\<lparr>transport := u\<rparr>) ?r" by (rule same_core_queueDrop)
    then have kr: "kept r0 ?r" using k by (simp add: same_core_kept)
    have "usable again ?r" using assms(2) c by (simp add: usable_def same_core_def)
    from controlOverload_with_kept [OF kr this] k kr same_core_kept [OF same_core_traffic] show ?thesis
      by (auto simp: sendControl_with_def 2 e Let_def split: option.splits)
  qed
qed

lemma peer_update_flags [simp]:
  "peer_update (\<lambda>q. q\<lparr>peReceiving := b\<rparr>)" "peer_update (\<lambda>q. q\<lparr>peNotified := b\<rparr>)"
  "peer_update (\<lambda>q. q\<lparr>peNotified := b, peReceiving := c\<rparr>)" "peer_update (\<lambda>q. q\<lparr>peReady := True\<rparr>)"
  "peer_update (\<lambda>q. q\<lparr>peLast := t\<rparr>)"
  by (simp_all add: peer_update_def)

lemma kept_if_set_peer:
  "kept r0 r \<Longrightarrow> peer_update f \<Longrightarrow> kept r0 (if c then set_peer sid f r else r)"
  by (simp add: kept_set_peer)

lemma set_peer_frame [simp]:
  "engine (set_peer sid f r) = engine r" "options (set_peer sid f r) = options r"
  "pending (set_peer sid f r) = pending r" "transport (set_peer sid f r) = transport r"
  "transactions (set_peer sid f r) = transactions r" "challenges (set_peer sid f r) = challenges r"
  by (simp_all add: set_peer_def split: option.splits)

lemma startNotification_with_kept:
  assumes "kept r0 r" and "usable again r"
    and "Find p TLVTransactionID = Some (PutUint64 i)"
  shows "\<exists>r'. startNotification_with again sid a p r = Some r' \<and> kept r0 r'"
proof -
  note over = controlOverload_with_kept [OF assms(1,2), of sid]
  let ?full = "int (length (pending r)) \<ge> oMaxPendingNotifications (options r) \<or>
    int (pending_of sid (pending r)) \<ge> oMaxPendingNotificationsPerClient (options r)"
  show ?thesis
  proof (cases ?full)
    case True
    with over show ?thesis by (auto simp: startNotification_with_def pending_of_def)
  next
    case False
    let ?key = "\<lparr>nkListener = sid, nkTyp = hType (pHeader p), nkTx = i\<rparr>"
    let ?t = "clock (engine r) (readings (engine r))"
    let ?n = "\<lparr>noPacket = p, noAttempt = 1, noNext = ?t + 500 * Millisecond\<rparr>"
    let ?r = "r\<lparr>engine := (engine r)\<lparr>readings := Suc (readings (engine r))\<rparr>,
      pending := AList.update ?key ?n (pending r)\<rparr>"
    let ?s = "if hType (pHeader p) = PacketStreamStart then set_peer sid (\<lambda>q. q\<lparr>peReceiving := True\<rparr>) ?r else ?r"
    have "note_ok ?key ?n" using assms(3) by (simp add: note_ok_def)
    then have "pending_ok (options r) (AList.update ?key ?n (pending r))"
      using False assms(1) by (intro pending_ok_insert) (auto simp: kept_def refl_inv_def)
    then have "kept r0 ?r"
      using kept_pending [of r0 "r\<lparr>engine := (engine r)\<lparr>readings := Suc (readings (engine r))\<rparr>\<rparr>"] assms(1) by simp
    then have "kept r0 ?s" by (rule kept_if_set_peer) simp
    moreover have "usable again ?s" using assms(2) by (simp add: usable_def)
    ultimately have "\<exists>r'. sendControl_with again a p ?s = Some r' \<and> kept r0 r'"
      by (rule sendControl_with_kept)
    moreover have "startNotification_with again sid a p r = sendControl_with again a p ?s"
      using False assms(3) by (simp add: startNotification_with_def pending_of_def Clock_eq)
    ultimately show ?thesis by simp
  qed
qed

lemma Find_Uint64TLV [simp]:
  "Find \<lparr>pHeader = h, pExtensions = Uint64TLV TLVTransactionID i # ext, pPayload = b\<rparr> TLVTransactionID = Some (PutUint64 i)"
  by (simp add: Find_def Uint64TLV_def tlv_def baseTLV_def)

lemma notify_listener_kept:
  assumes "kept r0 r" and "usable again r"
  shows "\<exists>r'. notify_listener again x sid q r = Some r' \<and> kept r0 r'"
proof -
  obtain i r1 where t: "transactionID r = (i, r1)" by force
  have c: "same_core r r1" using same_core_transactionID [of r] by (simp add: t)
  let ?r = "set_peer sid (\<lambda>q. q\<lparr>peReceiving := False\<rparr>) r1"
  have "kept r0 ?r" using assms(1) c by (simp add: kept_set_peer same_core_kept)
  moreover have "usable again ?r" using assms(2) c by (simp add: usable_def same_core_def)
  moreover have "Find (revoke_packet x i) TLVTransactionID = Some (PutUint64 i)"
    by (simp add: revoke_packet_def)
  ultimately have "\<exists>r'. startNotification_with again sid (peAddress q) (revoke_packet x i) ?r = Some r' \<and> kept r0 r'"
    by (rule startNotification_with_kept)
  with assms(1) show ?thesis by (simp add: notify_listener_def t)
qed

lemma notifyEnd_with_kept:
  assumes "kept r0 r" and "usable again r"
  shows "\<exists>r'. notifyEnd_with again x r = Some r' \<and> kept r0 r'"
proof -
  let ?l = "log_end x r"
  let ?r = "?l\<lparr>pending := filter (\<lambda>(key, _). nkTyp key \<noteq> PacketStreamStart) (pending ?l)\<rparr>"
  have c: "same_core r ?l" by (rule same_core_log_end)
  then have "kept r0 ?l" using assms(1) by (simp add: same_core_kept)
  then have k: "kept r0 ?r" by (rule kept_pending_filter)
  have u: "usable again ?r" using assms(2) c by (simp add: usable_def same_core_def)
  have "\<exists>s'. range_loop peers (notify_listener again x) (map fst (peers ?r)) ?r = Some s' \<and>
      (kept r0 s' \<and> usable again s')"
  proof (rule range_loop_keeps)
    show "kept r0 ?r \<and> usable again ?r" using k u by simp
  next
    fix sid q s
    assume s: "kept r0 s \<and> usable again s"
    then obtain s' where "notify_listener again x sid q s = Some s'" "kept s s'"
      using notify_listener_kept [of s s again x sid q] by (auto simp: kept_def)
    with s show "\<exists>s'. notify_listener again x sid q s = Some s' \<and> (kept r0 s' \<and> usable again s')"
      by (auto intro: kept_trans usable_kept)
  qed
  then show ?thesis by (auto simp: notifyEnd_with_def Let_def)
qed

text \<open>Depth 1 is enough once the floor is free, so depth 2 is enough for every caller.\<close>

lemma good_depth: "good_notifier (notifyEnd_depth (Suc n))"
  by (simp add: good_notifier_def notifyEnd_with_kept usable_def)

lemma good_notifyEnd: "good_notifier notifyEnd"
  unfolding notifyEnd_def numeral_2_eq_2 by (rule good_depth)

lemma usable_notifyEnd [simp]: "usable notifyEnd r"
  by (simp add: usable_def good_notifyEnd)

lemma notifyEnd_kept: "kept r0 r \<Longrightarrow> \<exists>r'. notifyEnd x r = Some r' \<and> kept r0 r'"
proof -
  have "usable (notifyEnd_depth 1) r" by (simp add: usable_def good_depth)
  then show "kept r0 r \<Longrightarrow> ?thesis"
    unfolding notifyEnd_def numeral_2_eq_2 by (simp add: notifyEnd_with_kept)
qed

lemmas controlOverload_kept = controlOverload_with_kept [OF _ usable_notifyEnd, folded controlOverload_def]
lemmas sendControl_kept = sendControl_with_kept [OF _ usable_notifyEnd, folded sendControl_def]
lemmas startNotification_kept = startNotification_with_kept [OF _ usable_notifyEnd, folded startNotification_def]


lemma kept_same_core: "kept r0 r \<Longrightarrow> same_core r r' \<Longrightarrow> kept r0 r'"
  by (simp add: same_core_kept)

lemma notifyStart_kept:
  assumes "kept r0 r"
  shows "\<exists>r'. notifyStart sid fl r = Some r' \<and> kept r0 r'"
proof (cases "map_of (peers r) (fsSessionID fl)")
  case None
  with assms show ?thesis by (simp add: notifyStart_def)
next
  case (Some owner)
  obtain i r1 where t: "transactionID r = (i, r1)" by force
  have k: "kept r0 r1" using assms kept_transactionID [of r0 r] by (simp add: t)
  then have k2: "kept r0 (set_peer sid (\<lambda>q. q\<lparr>peNotified := True\<rparr>) r1)" by (simp add: kept_set_peer)
  show ?thesis
    using k startNotification_kept [OF k2 Find_Uint64TLV]
    by (auto simp: notifyStart_def Some t Let_def split: option.splits)
qed

lemma enqueueRaw_kept: "kept r0 r \<Longrightarrow> kept r0 (snd (enqueueRaw a d r))"
proof -
  assume k: "kept r0 r"
  let ?d = "\<lparr>dAddress = a, dData = d\<rparr>"
  have "kept r0 (r\<lparr>transport := snd (EnqueueControl ?d (transport r))\<rparr>)" using k by (rule kept_enqueue)
  then show ?thesis
    by (auto simp: enqueueRaw_def Let_def split: prod.splits option.splits
        intro: kept_same_core same_core_queueDrop same_core_traffic)
qed

lemma replayOverload_kept: "kept r0 r \<Longrightarrow> \<exists>r'. replayOverload a d r = Some r' \<and> kept r0 r'"
  by (auto simp: replayOverload_def controlOverload_kept split: option.splits)

lemma sendError_kept: "kept r0 r \<Longrightarrow> \<exists>r'. sendError a p code r = Some r' \<and> kept r0 r'"
  by (simp add: sendError_def Let_def sendControl_kept)

section \<open>Handshake\<close>

text \<open>What a handler that answers a request may change: not the options and not the transactions.\<close>

definition answers :: "Reflector \<Rightarrow> Reflector \<Rightarrow> bool" where
  "answers r0 r \<longleftrightarrow> refl_inv r \<and> options r = options r0 \<and> unicode r = unicode r0 \<and>
     transactions r = transactions r0 \<and> peers_from (peers r0) (peers r)"

lemma answers_kept: "answers r0 r \<Longrightarrow> kept r r' \<Longrightarrow> answers r0 r'"
  by (auto simp: answers_def kept_def quiet_def intro: peers_from_trans)

lemma kept_answers: "kept r0 r \<Longrightarrow> answers r0 r"
  by (simp add: answers_def kept_def quiet_def)

lemma answers_same_core: "answers r0 r \<Longrightarrow> same_core r r' \<Longrightarrow> answers r0 r'"
  by (simp add: answers_def same_core_inv) (simp add: same_core_def)

lemma answers_readings [simp]: "answers r0 (r\<lparr>engine := (engine r)\<lparr>readings := n\<rparr>\<rparr>) = answers r0 r"
  by (simp add: answers_def refl_inv_def)

lemma answers_readings0 [simp]: "answers (r\<lparr>engine := e\<rparr>) r' = answers r r'"
  by (simp add: answers_def)

lemma refl_inv_readings [simp]: "refl_inv (r\<lparr>engine := (engine r)\<lparr>readings := n\<rparr>\<rparr>) = refl_inv r"
  by (simp add: refl_inv_def)

lemma answers_refl: "refl_inv r \<Longrightarrow> answers r r"
  by (simp add: answers_def)

lemma answers_challenges:
  "answers r0 r \<Longrightarrow> challenges_ok (options r) (unicode r) m \<Longrightarrow> answers r0 (r\<lparr>challenges := m\<rparr>)"
  by (auto simp: answers_def refl_inv_def)

lemma good_call_decoded:
  assumes "wf_packet p" and "Find p TLVNodeCallsign = Some v"
  shows "good_call uni (TrimSpace (string_of v))"
proof -
  from Find_valid [OF assms] have "validPaddedIdentifier v CallsignSize"
    by (auto simp: validateTLVValue_def Let_def split: if_splits)
  then show ?thesis unfolding good_call_def Callsign_def by (blast intro: padded_identifier_roundtrip)
qed

lemma hello_answers:
  assumes "refl_inv r" and "wf_packet p" and "Find p TLVNodeCallsign \<noteq> None"
  shows "answers r (snd (hello a p r))"
proof -
  obtain v where v: "found p TLVNodeCallsign = v" "Find p TLVNodeCallsign = Some v"
    using assms(3) by (auto simp: found_def)
  have call: "good_call uni (TrimSpace (string_of v))" for uni
    using good_call_decoded [OF assms(2) v(2)] .
  obtain b r1 where b: "ReadRandom 32 r = (b, r1)" by force
  have c: "same_core r r1" using same_core_ReadRandom [of r 32] by (simp add: b)
  have a0: "answers r r" using assms(1) by (simp add: answers_def)
  then have a1: "answers r r1" using c by (rule answers_same_core)
  show ?thesis
  proof (cases "int (length (challenges r)) \<ge> oMaxPendingChallenges (options r)")
    case True
    then show ?thesis
      using a0 by (auto simp: hello_def Let_def intro: answers_same_core same_core_auth_metric)
  next
    case False
    have "challenges_ok (options r1) (unicode r1) (AList.update k c' (challenges r1))"
      if "good_call (unicode r1) (cNode c')" for k c'
      using False assms(1) c that by (auto simp: refl_inv_def same_core_def challenges_ok_def map_simps)
    then have "answers r (r1\<lparr>engine := (engine r1)\<lparr>readings := n\<rparr>, challenges := AList.update k c' (challenges r1)\<rparr>)"
      if "good_call (unicode r1) (cNode c')" for k c' n
      using answers_challenges [of r "r1\<lparr>engine := (engine r1)\<lparr>readings := n\<rparr>\<rparr>"] a1 that by simp
    with False a1 call show ?thesis
      by (auto simp: hello_def Let_def b Clock_eq v split: option.splits)
  qed
qed


text \<open>Admission: the engine's session and the peer are added together.\<close>

lemma AddSession_False: "fst (AddSession sid a n b e) = False \<Longrightarrow> snd (AddSession sid a n b e) = e"
  by (auto simp: AddSession_def split: if_splits prod.splits)

lemma AddSession_True:
  assumes "fst (AddSession sid a n b e)"
  shows "snd (AddSession sid a n b e) = e\<lparr>readings := Suc (readings e), sessions := AList.update sid
      \<lparr>sAddress = a, sCallsign = n, sReady = b, sLast = clock e (readings e)\<rparr> (sessions e)\<rparr>"
    and "map_of (sessions e) sid = None" and "sid \<noteq> 0" and "\<not> draining e"
    and "int (length (sessions e)) < MaxClients (limits e)"
  using assms by (auto simp: AddSession_def now_def split: if_splits)

lemma AddSession_limits: "limits (snd (AddSession sid a n b e)) = limits e"
  by (simp add: AddSession_def now_def)

definition new_peer :: "u64 \<Rightarrow> addr \<Rightarrow> string \<Rightarrow> time \<Rightarrow> peer" where
  "new_peer sid a node t = \<lparr>peId = sid, peAddress = a, peNode = node, peReady = False,
     peNotified = False, peReceiving = False, peConnected = t, peLast = t\<rparr>"

lemma refl_inv_admit:
  assumes "refl_inv r" and "good_call (unicode r) node" and "fst (AddSession sid a node False (engine r))"
  shows "refl_inv (r\<lparr>engine := (snd (AddSession sid a node False (engine r)))\<lparr>readings := n\<rparr>,
    peers := AList.update sid (new_peer sid a node t) (peers r),
    challenges := AList.delete key (challenges r)\<rparr>)"
proof -
  let ?e = "snd (AddSession sid a node False (engine r))"
  note add = AddSession_True [OF assms(3)]
  have "engine_inv ?e" using assms(1) by (simp add: AddSession_inv refl_inv_def)
  moreover have "sync_ok (sessions ?e) (AList.update sid (new_peer sid a node t) (peers r))"
    using assms(1) by (auto simp: add(1) refl_inv_def sync_ok_def new_peer_def map_simps)
  moreover have "peers_ok (unicode r) (AList.update sid (new_peer sid a node t) (peers r))"
    using assms add(3) by (auto simp: refl_inv_def peers_ok_def new_peer_def map_simps)
  moreover have "challenges_ok (options r) (unicode r) (AList.delete key (challenges r))"
    using assms(1) length_delete_le [of key "challenges r"]
    by (auto simp: refl_inv_def challenges_ok_def map_simps)
  ultimately show ?thesis
    using assms(1) AddSession_limits [of sid a node False "engine r"] by (simp add: refl_inv_def)
qed

text \<open>
  What the admission loop returns: either nothing was admitted and only random bytes were
  consumed, or one new session with its peer was added and the challenge was used up.
\<close>

definition welcome_packet :: "u64 \<Rightarrow> bytes \<Rightarrow> Reflector \<Rightarrow> Packet" where
  "welcome_packet sid t r = \<lparr>pHeader = zeroHeader\<lparr>hVersion := 1, hType := PacketWelcome,
       hFlags := FlagResponse, hSessionID := sid\<rparr>,
     pExtensions = [tlv TLVTransactionID t,
       tlv TLVReflectorID (identifier_or_nil (ReflectorID (unicode r) (oID (options r)))),
       tlv TLVDisplayName (bytes_of (oDisplayName (options r)))], pPayload = []\<rparr>"

definition with_session :: "u64 \<Rightarrow> addr \<Rightarrow> string \<Rightarrow> string \<Rightarrow> Reflector \<Rightarrow> Reflector" where
  "with_session sid a key node r =
     (let e = snd (AddSession sid a node False (engine r)) in
      r\<lparr>engine := e\<lparr>readings := Suc (readings e)\<rparr>,
        peers := AList.update sid (new_peer sid a node (clock e (readings e))) (peers r),
        challenges := AList.delete key (challenges r)\<rparr>)"

definition admission :: "addr \<Rightarrow> string \<Rightarrow> string \<Rightarrow> bytes \<Rightarrow> Reflector \<Rightarrow> Packet \<times> Reflector \<Rightarrow> bool" where
  "admission a key node t r res \<longleftrightarrow>
     fst res = zeroPacket \<and> same_core r (snd res) \<or>
     (\<exists>sid. fst (AddSession sid a node False (engine r)) \<and>
        same_core (with_session sid a key node r) (snd res) \<and> fst res = welcome_packet sid t r)"

lemma admission_random: "admission a key node t (r\<lparr>random := b\<rparr>) res = admission a key node t r res"
  by (simp add: admission_def with_session_def welcome_packet_def same_core_def Let_def)

lemma admit_admission: "admission a key node t r (admit a key node t r)"
proof (induction a key node t r rule: admit.induct)
  case (1 a key node t r)
  obtain b r1 where b: "ReadRandom 8 r = (b, r1)" by force
  then obtain rn where r1: "r1 = r\<lparr>random := rn\<rparr>"
    by (auto simp: ReadRandom_def split: prod.splits sum.splits)
  show ?case
  proof (cases b)
    case None
    then show ?thesis by (simp add: admit.simps [of a key node t r] b r1 admission_def same_core_random)
  next
    case (Some raw)
    define sid where "sid = (get_be raw :: u64)"
    obtain added e where ae: "(if sid \<noteq> 0 then AddSession sid a node False (engine r1) else (False, engine r1)) = (added, e)"
      by force
    show ?thesis
    proof (cases added)
      case False
      with ae have "e = engine r1"
        using AddSession_False [of sid a node False "engine r1"] by (auto split: if_splits)
      then have eq: "admit a key node t r = admit a key node t r1"
        using False ae by (simp add: admit.simps [of a key node t r] b Some sid_def [symmetric] Let_def)
      have "admission a key node t (r1\<lparr>engine := e\<rparr>) (admit a key node t (r1\<lparr>engine := e\<rparr>))"
        using 1 [OF b [symmetric] Some sid_def refl ae [symmetric]] False by simp
      then show ?thesis
        unfolding eq using \<open>e = engine r1\<close> by (simp add: r1 admission_random)
    next
      case True
      with ae have add: "AddSession sid a node False (engine r) = (True, e)"
        by (auto simp: r1 split: if_splits)
      have nz: "sid \<noteq> 0" using True ae by (auto split: if_splits)
      have "same_core (with_session sid a key node r) (snd (admit a key node t r))"
        "fst (admit a key node t r) = welcome_packet sid t r"
        using True add nz
        by (simp_all add: admit.simps [of a key node t r] b Some sid_def [symmetric] Let_def r1 add Clock_eq
            same_core_def with_session_def welcome_packet_def new_peer_def auth_metric_def metric_def event_def)
      with add show ?thesis by (auto simp: admission_def intro: exI [of _ sid])
    qed
  qed
qed


text \<open>The roster that \<^verbatim>\<open>peers\<close> may grow into by an admission.\<close>

definition joined :: "addr \<Rightarrow> string \<Rightarrow> (u64, peer) gomap \<Rightarrow> (u64, peer) gomap \<Rightarrow> bool" where
  "joined a node ps B \<longleftrightarrow>
     (\<forall>sid q. map_of B sid = Some q \<longrightarrow> map_of ps sid = Some q \<or> peAddress q = a \<and> peNode q = node)"

lemma joined_refl [simp]: "joined a node ps ps"
  by (simp add: joined_def)

lemma joined_new: "joined a node ps (AList.update sid (new_peer sid a node t) ps)"
  by (auto simp: joined_def map_simps new_peer_def)

lemma admission_inv:
  assumes "admission a key node t r res" and "refl_inv r" and "good_call (unicode r) node"
  shows "\<exists>B. joined a node (peers r) B \<and> answers (r\<lparr>peers := B\<rparr>) (snd res)"
proof -
  from assms(1) consider "same_core r (snd res)"
    | sid where "fst (AddSession sid a node False (engine r))" "same_core (with_session sid a key node r) (snd res)"
    by (auto simp: admission_def)
  then show ?thesis
  proof cases
    case 1
    with answers_same_core [OF answers_refl [OF assms(2)]] have "answers (r\<lparr>peers := peers r\<rparr>) (snd res)" by simp
    then show ?thesis by (blast intro: joined_refl)
  next
    case (2 sid)
    let ?B = "peers (with_session sid a key node r)"
    have "answers (r\<lparr>peers := ?B\<rparr>) (with_session sid a key node r)"
      using refl_inv_admit [OF assms(2,3) 2(1)] by (simp add: answers_def with_session_def Let_def)
    then have "answers (r\<lparr>peers := ?B\<rparr>) (snd res)" using 2(2) by (rule answers_same_core)
    moreover have "joined a node (peers r) ?B"
      by (simp add: with_session_def Let_def joined_new)
    ultimately show ?thesis by blast
  qed
qed

text \<open>
  When \<^verbatim>\<open>authenticate\<close> admits: a live challenge for this address and transaction, both nonces,
  and with a shared key the right tag.
\<close>

definition credentials :: "addr \<Rightarrow> Packet \<Rightarrow> Reflector \<Rightarrow> challenge \<Rightarrow> bool" where
  "credentials a p r c \<longleftrightarrow>
     map_of (challenges r) (a @ string_of (found p TLVTransactionID)) = Some c \<and>
     Sub (clock (engine r) (readings (engine r))) (cAt c) \<le> 10 * Second \<and>
     found p TLVClientNonce = cClient c \<and> found p TLVServerNonce = cServer c \<and>
     (oSharedKey (options r) \<noteq> [] \<longrightarrow>
        Find p TLVAuthenticationTag = Some (hmac_sha256 (oSharedKey (options r)) (auth_message c r)))"

definition same_but_clock :: "Reflector \<Rightarrow> Reflector \<Rightarrow> bool" where
  "same_but_clock r r' \<longleftrightarrow> (\<exists>n. same_core (r\<lparr>engine := (engine r)\<lparr>readings := n\<rparr>\<rparr>) r')"

lemma same_but_clock_core: "same_core r r' \<Longrightarrow> same_but_clock r r'"
  unfolding same_but_clock_def by (rule exI [of _ "readings (engine r)"]) (simp add: same_core_def)

lemma auth_message_clock: "auth_message c (r\<lparr>engine := e\<rparr>) = auth_message c r"
  by (simp add: auth_message_def)

lemma authenticate_cases:
  obtains (rejected) "fst (authenticate a p r) = zeroPacket" "same_but_clock r (snd (authenticate a p r))"
  | (checked) c n where "credentials a p r c"
      "admission a (a @ string_of (found p TLVTransactionID)) (cNode c) (found p TLVTransactionID)
         (r\<lparr>engine := (engine r)\<lparr>readings := n\<rparr>\<rparr>) (authenticate a p r)"
proof -
  let ?key = "a @ string_of (found p TLVTransactionID)"
  let ?t = "clock (engine r) (readings (engine r))"
  let ?r = "r\<lparr>engine := (engine r)\<lparr>readings := Suc (readings (engine r))\<rparr>\<rparr>"
  obtain s n where sn: "EngineSnapshot ?r = (s, r\<lparr>engine := (engine r)\<lparr>readings := n\<rparr>\<rparr>)"
    using EngineSnapshot_eq [of ?r] by auto
  have clk: "same_but_clock r (f (r\<lparr>engine := (engine r)\<lparr>readings := m\<rparr>\<rparr>))"
    if "\<And>r. same_core r (f r)" for f m
    unfolding same_but_clock_def using that by blast
  note fails = same_but_clock_core [OF same_core_auth_failure] clk [where f = "authenticationFailure x" for x, OF same_core_auth_failure]
  have over: "same_but_clock r (event x y z (auth_metric q (r\<lparr>engine := (engine r)\<lparr>readings := m\<rparr>\<rparr>)))" for x y z q m
    by (rule clk) (simp add: same_core_def event_def auth_metric_def metric_def)
  show thesis
  proof (cases "map_of (challenges r) ?key")
    case None
    then show thesis using rejected by (simp add: authenticate_def Let_def fails)
  next
    case (Some c)
    show thesis
    proof (cases "credentials a p r c")
      case False
      with Some have "authenticate a p r = (zeroPacket, authenticationFailure ''rejected'' ?r)"
        by (cases "Find p TLVAuthenticationTag")
          (auto simp: authenticate_def Let_def Clock_eq credentials_def auth_message_clock not_le)
      then show thesis using rejected fails by simp
    next
      case True
      then have eq: "authenticate a p r =
        (let r1 = r\<lparr>engine := (engine r)\<lparr>readings := n\<rparr>\<rparr> in
         if int (snSessions s) \<ge> MaxClients (limits (engine r1))
         then (zeroPacket, event ''authentication_failed'' ''warn'' [] (auth_metric ''overloaded'' r1))
         else admit a ?key (cNode c) (found p TLVTransactionID) r1)"
        by (auto simp: authenticate_def Let_def Clock_eq credentials_def auth_message_clock sn)
      show thesis
      proof (cases "int (snSessions s) \<ge> MaxClients (limits (engine r))")
        case True
        then show thesis using rejected over by (simp add: eq)
      next
        case False
        then show thesis
          using checked [OF \<open>credentials a p r c\<close>, of n] admit_admission by (simp add: eq)
      qed
    qed
  qed
qed

lemma same_but_clock_answers: "refl_inv r \<Longrightarrow> same_but_clock r r' \<Longrightarrow> answers r r'"
  unfolding same_but_clock_def
  by (erule exE, rule answers_same_core) (auto simp: answers_refl)

lemma authenticate_answers:
  assumes "refl_inv r"
  obtains (refused) "answers r (snd (authenticate a p r))"
  | (admitted) c B where "credentials a p r c" "joined a (cNode c) (peers r) B"
      "answers (r\<lparr>peers := B\<rparr>) (snd (authenticate a p r))"
proof (rule authenticate_cases [of a p r])
  assume "same_but_clock r (snd (authenticate a p r))"
  with assms have "answers r (snd (authenticate a p r))" by (rule same_but_clock_answers)
  then show thesis by (rule refused)
next
  fix c n
  assume c: "credentials a p r c" and adm: "admission a (a @ string_of (found p TLVTransactionID)) (cNode c)
    (found p TLVTransactionID) (r\<lparr>engine := (engine r)\<lparr>readings := n\<rparr>\<rparr>) (authenticate a p r)"
  have "good_call (unicode r) (cNode c)"
    using c assms by (auto simp: credentials_def refl_inv_def challenges_ok_def)
  with admission_inv [OF adm] assms obtain B where "joined a (cNode c) (peers r) B"
    "answers (r\<lparr>peers := B\<rparr>) (snd (authenticate a p r))"
    by (auto simp: answers_def)
  with c show thesis by (rule admitted)
qed

end
