(* ===== verification/ReflectorTotal.thy ===== *)
theory ReflectorTotal
  imports ReflectorLaws EngineProps
begin

text \<open>
  Every handler, timer and shutdown phase of the reflector returns (no panic, and the bounded
  recursion of the notifications is enough) and keeps the invariant.
\<close>

section \<open>Engine calls\<close>

text \<open>Sessions after a call that does not add or ready any: each was there, with the same identity.\<close>

definition sessions_from :: "(u64, session) gomap \<Rightarrow> (u64, session) gomap \<Rightarrow> bool" where
  "sessions_from ss ss' \<longleftrightarrow> (\<forall>sid s'. map_of ss' sid = Some s' \<longrightarrow>
     (\<exists>s. map_of ss sid = Some s \<and> sAddress s' = sAddress s \<and> sCallsign s' = sCallsign s \<and> sReady s' = sReady s))"

lemma sync_ok_from: "sync_ok ss ps \<Longrightarrow> sessions_from ss ss' \<Longrightarrow> sync_ok ss' ps"
  unfolding sync_ok_def sessions_from_def by metis

lemma sessions_from_refl [simp]: "sessions_from ss ss"
  by (simp add: sessions_from_def)

lemma sessions_from_touch: "map_of ss sid = Some s \<Longrightarrow> sessions_from ss (AList.update sid (s\<lparr>sLast := t\<rparr>) ss)"
  by (simp add: sessions_from_def map_simps)

lemma sessions_from_trans: "sessions_from a b \<Longrightarrow> sessions_from b c \<Longrightarrow> sessions_from a c"
  unfolding sessions_from_def by metis

lemma refl_inv_engine:
  assumes "refl_inv r" and "engine_inv e" and "limits e = limits (engine r)"
    and "sessions_from (sessions (engine r)) (sessions e)"
  shows "answers r (r\<lparr>engine := e\<rparr>)"
  using assms sync_ok_from by (auto simp: answers_def refl_inv_def)

lemma Touch_frame:
  "limits (snd (Touch sid a e)) = limits e" "sessions_from (sessions e) (sessions (snd (Touch sid a e)))"
  by (auto simp: Touch_def now_def sessions_from_touch split: option.splits)

lemma RequestFloor_frame:
  "limits (snd (RequestFloor sid st src e)) = limits e"
  "sessions_from (sessions e) (sessions (snd (RequestFloor sid st src e)))"
  by (auto simp: RequestFloor_def now_def Let_def sessions_from_touch split: option.splits)

lemma Media_frame:
  "limits (snd (Media sid a st q ts pl e)) = limits e"
  "sessions_from (sessions e) (sessions (snd (Media sid a st q ts pl e)))"
  by (auto simp: Media_def now_def Let_def sessions_from_touch split: option.splits)

lemma release_frame [simp]:
  "limits (snd (releaseLocked sid reason e)) = limits e" "sessions (snd (releaseLocked sid reason e)) = sessions e"
  by (auto simp: releaseLocked_eq split: option.splits)

lemma End_frame:
  "limits (snd (End sid st q ts reason e)) = limits e" "sessions (snd (End sid st q ts reason e)) = sessions e"
  using release_frame [of sid reason e]
  by (auto simp: End_def Let_def split: option.splits prod.splits simp del: release_frame)

lemma End_ok: "fst (End sid st q ts reason e) = Inr x \<Longrightarrow> \<exists>y. x = Some y"
  by (auto simp: End_def releaseLocked_eq Let_def split: option.splits if_splits prod.splits)

lemma BeginShutdown_frame:
  "limits (snd (BeginShutdown e)) = limits e" "sessions (snd (BeginShutdown e)) = sessions e"
  by (auto simp: BeginShutdown_def Let_def split: option.splits)

lemma sessions_from_delete: "sessions_from ss (AList.delete sid ss)"
  by (simp add: sessions_from_def map_simps)

lemma tick_sessions_frame:
  "limits (snd (tick_sessions t ss e)) = limits e \<and> sessions_from (sessions e) (sessions (snd (tick_sessions t ss e)))"
proof (induction ss arbitrary: e)
  case (Cons p ss)
  obtain sid s where p: "p = (sid, s)" by force
  have "sessions_from (sessions e) (sessions (snd (Disconnect sid e)))"
    by (simp add: sessions_from_delete)
  with Cons.IH [of e] Cons.IH [of "snd (Disconnect sid e)"] show ?case
    by (auto simp: p tick_sessions_Cons simp del: tick_sessions.simps(2) intro: sessions_from_trans)
qed simp

lemma tick_floor_frame: "limits (snd (tick_floor t e)) = limits e" "sessions (snd (tick_floor t e)) = sessions e"
  by (auto simp: tick_floor_def split: option.splits)

lemma Tick_frame:
  "limits (snd (Tick e)) = limits e" "sessions_from (sessions e) (sessions (snd (Tick e)))"
  using tick_sessions_frame [of "clock e (readings e)" "sessions e" "e\<lparr>readings := Suc (readings e)\<rparr>"]
  by (auto simp: Tick_eq Let_def tick_floor_frame)

section \<open>Requests\<close>

lemma control_keepalive:
  assumes "refl_inv r"
  shows "answers r ((set_peer sid (\<lambda>q. q\<lparr>peReady := True\<rparr>) r)\<lparr>engine := snd (SetReady sid (engine r))\<rparr>)"
proof -
  let ?r = "set_peer sid (\<lambda>q. q\<lparr>peReady := True\<rparr>) r"
  have k: "answers r ?r" using kept_set_peer [OF kept_refl [OF assms]] by (simp add: kept_answers)
  have "engine_inv (snd (SetReady sid (engine r)))" "limits (snd (SetReady sid (engine r))) = limits (engine r)"
    using assms by (auto simp: refl_inv_def SetReady_inv) (auto simp: SetReady_def now_def split: option.splits)
  moreover have "sync_ok (sessions (snd (SetReady sid (engine r)))) (peers ?r)"
  proof (cases "map_of (sessions (engine r)) sid")
    case None
    then show ?thesis using k by (simp add: SetReady_def answers_def refl_inv_def)
  next
    case (Some s)
    then obtain q where "map_of (peers r) sid = Some q"
      using assms by (auto simp: refl_inv_def sync_ok_def)
    then show ?thesis
      using assms Some unfolding refl_inv_def sync_ok_def
      by (fastforce simp: SetReady_def now_def set_peer_def map_simps)
  qed
  ultimately show ?thesis using k by (auto simp: answers_def refl_inv_def)
qed

text \<open>What a call that returns a packet establishes.\<close>

definition responds :: "Reflector \<Rightarrow> (Packet \<times> Reflector) option \<Rightarrow> bool" where
  "responds r res \<longleftrightarrow> (\<exists>p r'. res = Some (p, r') \<and> answers r r')"

lemma responds_notify:
  assumes "answers r r1" and "\<And>r0. kept r0 r1 \<Longrightarrow> \<exists>r2. f r1 = Some r2 \<and> kept r0 r2"
  shows "responds r (f r1 \<bind> (\<lambda>r2. Some (p, r2)))"
proof -
  have "kept r1 r1" using assms(1) by (simp add: kept_refl answers_def)
  from assms(2) [OF this] obtain r2 where "f r1 = Some r2" "kept r1 r2" by auto
  then show ?thesis using answers_kept [OF assms(1)] by (auto simp: responds_def)
qed

lemma start_loop_kept:
  assumes "kept r0 r"
  shows "\<exists>r'. range_loop peers (\<lambda>lid q r. if lid \<noteq> sid \<and> peReady q then notifyStart lid fl r else Some r) ks r = Some r' \<and> kept r0 r'"
  using assms by (rule range_loop_keeps [rotated]) (auto simp: notifyStart_kept)

lemma responds_start_loop:
  "answers r r1 \<Longrightarrow> responds r (range_loop peers (\<lambda>lid q r. if lid \<noteq> sid \<and> peReady q then notifyStart lid fl r else Some r) ks r1
     \<bind> (\<lambda>r2. Some (p, r2)))"
  by (rule responds_notify) (simp_all add: start_loop_kept)

lemma control_responds:
  assumes "refl_inv r"
  shows "responds r (control sid p r)"
proof -
  let ?ty = "hType (pHeader p)" and ?st = "hStreamID (pHeader p)"
  consider (keep) "?ty = PacketKeepalive" | (disc) "?ty = PacketDisconnect" | (req) "?ty = PacketStreamRequest"
    | (fin) "?ty = PacketStreamEnd"
    | (other) "?ty \<notin> {PacketKeepalive, PacketDisconnect, PacketStreamRequest, PacketStreamEnd}"
    by auto
  then show ?thesis
  proof cases
    case keep
    with control_keepalive [OF assms, of sid] show ?thesis by (simp add: control_def responds_def)
  next
    case disc
    obtain x r1 where d: "disconnectPeer sid ''client_request'' r = (x, r1)" by force
    have a: "answers r r1"
      using kept_disconnectPeer [OF kept_refl [OF assms], of sid] d by (metis kept_answers snd_conv)
    show ?thesis
    proof (cases x)
      case None
      with a disc d show ?thesis by (simp add: control_def responds_def)
    next
      case (Some y)
      with disc d responds_notify [OF a notifyEnd_kept] show ?thesis by (simp add: control_def)
    qed
  next
    case req
    define src where "src = TrimSpace (string_of (found p TLVSourceCallsign))"
    obtain res e where q: "RequestFloor sid ?st src (engine r) = (res, e)" by force
    have a: "answers r (r\<lparr>engine := e\<rparr>)"
      using refl_inv_engine [OF assms, of e] assms q RequestFloor_inv RequestFloor_frame
      by (metis (no_types, lifting) refl_inv_def snd_conv)
    show ?thesis
    proof (cases "res = FloorGranted")
      case True
      let ?g = "event ''stream_granted'' ''info'' [(''session_id'', DSession sid), (''stream_id'', DStream ?st)]
        (metric ''opusref_streams_total'' [(''result'', ''granted'')] 1 (r\<lparr>engine := e\<rparr>))"
      obtain s n where sn: "EngineSnapshot ?g = (s, ?g\<lparr>engine := (engine ?g)\<lparr>readings := n\<rparr>\<rparr>)"
        using EngineSnapshot_eq [of ?g] by auto
      have "answers r ?g"
        using a by (rule answers_same_core) (simp add: same_core_def event_def metric_def)
      then have "answers r (?g\<lparr>engine := (engine ?g)\<lparr>readings := n\<rparr>\<rparr>)" by simp
      then show ?thesis
        using True req q
        by (simp add: control_def src_def [symmetric] Let_def sn responds_start_loop)
    next
      case False
      have "answers r (event x y z (metric i j k (metric u v w (r\<lparr>engine := e\<rparr>))))" for x y z i j k u v w
        using a by (rule answers_same_core) (simp add: same_core_def event_def metric_def)
      with False req q show ?thesis
        by (simp add: control_def src_def [symmetric] Let_def responds_def)
    qed
  next
    case fin
    obtain res e where q: "End sid ?st (hSequence (pHeader p)) (hTimestamp (pHeader p)) EndNormal (engine r) = (res, e)"
      by force
    have a: "answers r (r\<lparr>engine := e\<rparr>)"
      using refl_inv_engine [OF assms, of e] assms q End_inv End_frame
      by (metis (no_types, lifting) refl_inv_def sessions_from_refl snd_conv)
    show ?thesis
    proof (cases res)
      case (Inl err)
      with a fin q show ?thesis by (simp add: control_def responds_def)
    next
      case (Inr x)
      then obtain y where "x = Some y" using End_ok q by (metis fst_conv)
      with Inr a fin q responds_notify [OF a notifyEnd_kept] show ?thesis
        by (simp add: control_def notifyEnd_ptr_def)
    qed
  next
    case other
    with assms show ?thesis by (simp add: control_def responds_def answers_refl)
  qed
qed


section \<open>Acknowledgements and media\<close>

lemma ack_kept:
  assumes "kept r0 r"
  shows "\<exists>x. ack sid p r = Some x \<and> kept r0 (snd x)"
proof (cases "Find p TLVTransactionID")
  case None
  with assms show ?thesis by (simp add: ack_def)
next
  case (Some raw)
  show ?thesis
  proof (cases "length raw = 8")
    case False
    with assms Some show ?thesis by (simp add: ack_def)
  next
    case True
    then obtain t where t: "Uint64 raw = Some t" using Uint64_8 by blast
    have "kept r0 (r\<lparr>pending := AList.delete k (pending r)\<rparr>)" for k
      using assms by (rule kept_pending_delete)
    with assms show ?thesis
      by (auto simp: ack_def Some True t Let_def kept_set_peer kept_disconnectPeer split: option.splits)
  qed
qed

lemma enqueue_batch_answers: "answers r0 r \<Longrightarrow> answers r0 (enqueue_batch p raw rs r)"
proof -
  assume a: "answers r0 r"
  have u: "answers r0 (r\<lparr>transport := snd (EnqueueMedia b (transport r))\<rparr>)" for b
    using a by (auto simp: answers_def refl_inv_def intro: transport_ok_media)
  have m: "same_core s (metric i j k (metric u v w s))" for i j k u v w s
    by (simp add: same_core_def metric_def)
  show ?thesis
    using answers_same_core [OF u m] answers_same_core [OF u same_core_queueDrop]
    by (auto simp: enqueue_batch_def Let_def split: prod.splits) (metis snd_conv)+
qed

lemma media_answers:
  assumes "refl_inv r"
  shows "answers r (snd (media sid a p raw r))"
proof -
  let ?h = "pHeader p"
  obtain s0 n0 where s0: "EngineSnapshot r = (s0, r\<lparr>engine := (engine r)\<lparr>readings := n0\<rparr>\<rparr>)"
    using EngineSnapshot_eq [of r] by auto
  define r0 where "r0 = r\<lparr>engine := (engine r)\<lparr>readings := n0\<rparr>\<rparr>"
  have i0: "refl_inv r0" and a0: "answers r r0" using assms by (simp_all add: r0_def answers_refl)
  obtain res e where m: "Media sid a (hStreamID ?h) (hSequence ?h) (hTimestamp ?h) (pPayload p) (engine r0) = (res, e)"
    by force
  define r1 where "r1 = r0\<lparr>engine := e\<rparr>"
  have "answers r0 r1"
    unfolding r1_def using i0 m Media_inv Media_frame
    by (intro refl_inv_engine) (auto simp: refl_inv_def dest: arg_cong [where f = snd], (metis snd_conv)+)
  then have a1: "answers r r1" using a0 by (auto simp: answers_def intro: peers_from_trans)
  obtain s1 n1 where s1: "EngineSnapshot r1 = (s1, r1\<lparr>engine := (engine r1)\<lparr>readings := n1\<rparr>\<rparr>)"
    using EngineSnapshot_eq [of r1] by auto
  define r2 where "r2 = r1\<lparr>engine := (engine r1)\<lparr>readings := n1\<rparr>\<rparr>"
  have a2: "answers r r2" using a1 by (simp add: r2_def)
  then have ev: "answers r (if c then event x y z r2 else r2)" for c x y z
    using answers_same_core [OF a2 same_core_event] by simp
  show ?thesis
  proof (cases res)
    case (Inl err)
    with a1 show ?thesis
      by (simp add: media_def s0 r0_def [symmetric] m r1_def [symmetric] Let_def)
  next
    case (Inr fs)
    then show ?thesis
      using ev enqueue_batch_answers [OF ev]
      by (simp add: media_def s0 r0_def [symmetric] m r1_def [symmetric] s1 r2_def [symmetric] Let_def)
  qed
qed


section \<open>Transactions\<close>

text \<open>Sorting the extensions of a decoded packet changes neither what is found nor its validity.\<close>

lemma find_tlv_distinct:
  "distinct (bases ts) \<Longrightarrow> find_tlv ts typ = Some v \<longleftrightarrow> (\<exists>t \<in> set ts. baseTLV (tType t) = typ \<and> tValue t = v)"
  by (induction ts) (auto simp: bases_def image_iff)

lemma bases_sort: "mset (bases (sort_key tType ts)) = mset (bases ts)"
  by (simp add: bases_def)

lemma Find_sort [simp]:
  assumes "wf_packet p"
  shows "Find (sort_extensions p) typ = Find p typ"
proof -
  have d: "distinct (bases (pExtensions p))" using assms by (simp add: wf_packet_def)
  then have d': "distinct (bases (sort_key tType (pExtensions p)))"
    using bases_sort mset_eq_imp_distinct_iff by blast
  have "find_tlv (sort_key tType (pExtensions p)) typ = Some v \<longleftrightarrow> find_tlv (pExtensions p) typ = Some v" for v
    using find_tlv_distinct [OF d] find_tlv_distinct [OF d'] by simp
  then show ?thesis unfolding Find_def sort_extensions_def by (simp, metis option.exhaust)
qed

lemma wf_packet_sort:
  assumes "wf_packet p"
  shows "wf_packet (sort_extensions p)"
proof -
  have "distinct (bases (sort_key tType (pExtensions p)))"
    using assms bases_sort mset_eq_imp_distinct_iff by (auto simp: wf_packet_def)
  moreover have "sum_list (map tlvSizeOf (sort_key tType (pExtensions p))) = sum_list (map tlvSizeOf (pExtensions p))"
    by (metis mset_map mset_sort sum_mset_sum_list)
  ultimately show ?thesis
    using assms by (simp add: wf_packet_def sort_extensions_def headerLengthOf_def)
qed

text \<open>What every handler keeps.\<close>

definition steady :: "Reflector \<Rightarrow> Reflector \<Rightarrow> bool" where
  "steady r0 r \<longleftrightarrow> refl_inv r \<and> options r = options r0 \<and> unicode r = unicode r0 \<and> peers_from (peers r0) (peers r)"

lemma steady_refl: "refl_inv r \<Longrightarrow> steady r r"
  by (simp add: steady_def)

lemma steady_trans: "steady r0 r1 \<Longrightarrow> steady r1 r2 \<Longrightarrow> steady r0 r2"
  by (auto simp: steady_def intro: peers_from_trans)

lemma steady_kept: "steady r0 r \<Longrightarrow> kept r r' \<Longrightarrow> steady r0 r'"
  by (auto simp: steady_def kept_def quiet_def intro: peers_from_trans)

lemma kept_steady: "kept r0 r \<Longrightarrow> steady r0 r"
  by (simp add: steady_def kept_def quiet_def)

lemma answers_steady: "answers r0 r \<Longrightarrow> steady r0 r"
  by (simp add: steady_def answers_def)

lemma steady_inv: "steady r0 r \<Longrightarrow> refl_inv r"
  by (simp add: steady_def)

lemma steady_transactions:
  "steady r0 r \<Longrightarrow> transactions_ok (options r) m \<Longrightarrow> steady r0 (r\<lparr>transactions := m\<rparr>)"
  by (auto simp: steady_def refl_inv_def)

lemma steady_same_core: "steady r0 r \<Longrightarrow> same_core r r' \<Longrightarrow> steady r0 r'"
  by (simp add: steady_def same_core_inv) (simp add: same_core_def)

lemma transactions_ok_delete: "transactions_ok q m \<Longrightarrow> transactions_ok q (AList.delete k m)"
  using length_delete_le [of k m] by (auto simp: transactions_ok_def map_simps)

lemma undo_delivery_steady:
  assumes "refl_inv r"
  shows "\<exists>r'. undo_delivery a p r = Some r' \<and> steady r r'"
proof -
  have del: "steady r (r\<lparr>challenges := AList.delete k (challenges r)\<rparr>)" for k
    using assms length_delete_le [of k "challenges r"]
    by (auto simp: steady_def refl_inv_def challenges_ok_def map_simps)
  have loop: "\<exists>r'. range_loop peers
      (\<lambda>sid q r. if peAddress q = a then Some (snd (disconnectPeer sid ''admission_delivery_failure'' r)) else Some r)
      ks r = Some r' \<and> kept r r'" for ks
    using kept_refl [OF assms] by (rule range_loop_keeps [rotated]) (auto simp: kept_disconnectPeer)
  show ?thesis
    using del loop [of "map fst (peers r)"] steady_refl [OF assms] controlOverload_kept [OF kept_refl [OF assms]]
    by (auto simp: undo_delivery_def intro: kept_steady split: option.splits) (metis kept_steady)+
qed

lemma late_start_kept: "kept r0 r \<Longrightarrow> \<exists>r'. late_start p r = Some r' \<and> kept r0 r'"
proof -
  assume k: "kept r0 r"
  obtain s n where sn: "EngineSnapshot r = (s, r\<lparr>engine := (engine r)\<lparr>readings := n\<rparr>\<rparr>)"
    using EngineSnapshot_eq [of r] by auto
  show ?thesis
    using k notifyStart_kept [of r0 "r\<lparr>engine := (engine r)\<lparr>readings := n\<rparr>\<rparr>"]
    by (auto simp: late_start_def sn Let_def split: option.splits)
qed

definition proceeds :: "Reflector \<Rightarrow> ('x \<times> Reflector) option \<Rightarrow> bool" where
  "proceeds r res \<longleftrightarrow> (\<exists>x r'. res = Some (x, r') \<and> steady r r')"

lemma proceeds_Some [simp]: "proceeds r (Some (x, r')) = steady r r'"
  by (simp add: proceeds_def)

lemma proceeds_bind:
  "\<exists>r'. m = Some r' \<and> steady r r' \<Longrightarrow> proceeds r (m \<bind> (\<lambda>r'. Some (x, r')))"
  by (auto simp: proceeds_def)

text \<open>The last part of \<^verbatim>\<open>transact\<close>, from the response on.\<close>

lemma transact_finish:
  assumes "answers r r1" and "Encode response = ok data"
    and "int (length (transactions r)) < MaxCompletedTransactions (oLimits (options r))"
  shows "proceeds r (let (at, r1) = Clock r1;
      r1 = r1\<lparr>transactions := AList.update key \<lparr>coFingerprint = fp, coResponse = data, coAddress = a, coAt = at\<rparr> (transactions r1)\<rparr>
    in case enqueueRaw a data r1 of
       (False, r1) \<Rightarrow> do {
         let r1 = (if c then r1 else r1\<lparr>transactions := AList.delete key (transactions r1)\<rparr>);
         r1 \<leftarrow> undo_delivery a p r1;
         Some (False, r1)
       }
     | (True, r1) \<Rightarrow> do { r1 \<leftarrow> late_start p r1; Some (b, r1) })"
proof -
  let ?t = "clock (engine r1) (readings (engine r1))"
  let ?c = "\<lparr>coFingerprint = fp, coResponse = data, coAddress = a, coAt = ?t\<rparr>"
  define r2 where "r2 = r1\<lparr>engine := (engine r1)\<lparr>readings := Suc (readings (engine r1))\<rparr>,
    transactions := AList.update key ?c (transactions r1)\<rparr>"
  have "\<exists>q. Decode data = ok q" using wire.dec_enc [of response data] assms(2) by auto
  then have "transactions_ok (options r1) (AList.update key ?c (transactions r1))"
    using assms by (auto simp: answers_def refl_inv_def transactions_ok_def map_simps)
  then have s2: "steady r r2"
    using answers_steady [OF assms(1)] by (auto simp: r2_def steady_def refl_inv_def)
  obtain sent r3 where e: "enqueueRaw a data r2 = (sent, r3)" by force
  have k3: "kept r2 r3" using enqueueRaw_kept [OF kept_refl [OF steady_inv [OF s2]], of a data] by (simp add: e)
  have s3: "steady r r3" using s2 k3 by (rule steady_kept)
  let ?r4 = "if c then r3 else r3\<lparr>transactions := AList.delete key (transactions r3)\<rparr>"
  have t3: "transactions_ok (options r3) (transactions r3)" using steady_inv [OF s3] by (simp only: refl_inv_def)
  have s4: "steady r ?r4"
    using s3 steady_transactions [OF s3 transactions_ok_delete [OF t3]] by simp
  from undo_delivery_steady [OF steady_inv [OF s4], of a p] s4
  have u: "\<exists>r5. undo_delivery a p ?r4 = Some r5 \<and> steady r r5" by (blast intro: steady_trans)
  from late_start_kept [OF kept_refl [OF steady_inv [OF s3]], of p] s3
  have l: "\<exists>r5. late_start p r3 = Some r5 \<and> steady r r5" by (blast intro: steady_kept)
  show ?thesis
    using proceeds_bind [OF u] proceeds_bind [OF l]
    by (cases sent; cases c) (simp_all add: Clock_eq Let_def r2_def [symmetric] e)
qed

text \<open>A call that returns a state.\<close>

definition goes :: "Reflector \<Rightarrow> Reflector option \<Rightarrow> bool" where
  "goes r res \<longleftrightarrow> (\<exists>r'. res = Some r' \<and> steady r r')"

lemma goes_Some [simp]: "goes r (Some r') = steady r r'"
  by (simp add: goes_def)

lemma goes_bind: "goes r m \<Longrightarrow> (\<And>r'. steady r r' \<Longrightarrow> goes r' (f r')) \<Longrightarrow> goes r (m \<bind> f)"
  unfolding goes_def using steady_trans by (metis Option.bind.bind_lunit)

lemma goes_proceeds: "goes r m \<Longrightarrow> proceeds r (m \<bind> (\<lambda>r'. Some (x, r')))"
  by (auto simp: goes_def proceeds_def)

lemma proceeds_goes: "proceeds r m \<Longrightarrow> goes r (m \<bind> (\<lambda>(_, r'). Some r'))"
  by (auto simp: goes_def proceeds_def)

lemma goes_from: "steady r r1 \<Longrightarrow> goes r1 m \<Longrightarrow> goes r m"
  by (auto simp: goes_def intro: steady_trans)

lemma proceeds_from: "steady r r1 \<Longrightarrow> proceeds r1 m \<Longrightarrow> proceeds r m"
  by (auto simp: proceeds_def intro: steady_trans)

lemma goes_kept: "\<exists>r'. m = Some r' \<and> kept r r' \<Longrightarrow> goes r m"
  unfolding goes_def by (metis kept_steady)

lemma kept_core: "refl_inv r \<Longrightarrow> same_core r r1 \<Longrightarrow> kept r r1"
  by (rule kept_same_core [OF kept_refl])

lemmas steady_core = steady_same_core [OF steady_refl]

lemma sort_header [simp]: "pHeader (sort_extensions p) = pHeader p"
  by (simp add: sort_extensions_def)

lemma replay_proceeds:
  assumes "refl_inv r"
  shows "proceeds r (case enqueueRaw a d r of
      (False, r) \<Rightarrow> do { r \<leftarrow> replayOverload a d r; Some (b, r) }
    | (True, r) \<Rightarrow> Some (c, r))"
proof -
  obtain sent r1 where e: "enqueueRaw a d r = (sent, r1)" by force
  have k: "kept r r1" using enqueueRaw_kept [OF kept_refl [OF assms], of a d] by (simp add: e)
  have "goes r (replayOverload a d r1)" using replayOverload_kept [OF k] by (rule goes_kept)
  then show ?thesis
    using kept_steady [OF k] by (cases sent) (simp_all add: e goes_proceeds)
qed

text \<open>
  A transaction is refused or replayed, which leaves the roster, or it is applied, which leads
  where its handler leads: \<open>r0\<close> is the state whose roster the handler keeps.
\<close>

lemma transact_cases:
  assumes "refl_inv r" and "wf_packet p" and "responds r0 (apply (sort_extensions p) r)"
    and "r0 = r\<lparr>peers := B\<rparr>"
  shows "proceeds r (transact a p apply r) \<or> proceeds r0 (transact a p apply r)"
proof (cases "Find p TLVTransactionID")
  case None
  with assms show ?thesis by (simp add: transact_def steady_refl)
next
  case (Some raw)
  with transaction_value [OF assms(2)] obtain t where t: "Uint64 raw = Some t" by blast
  have err: "proceeds r (sendError a q code (packet_error why r) \<bind> (\<lambda>r. Some (b, r)))" for q code why and b :: bool
    by (rule goes_proceeds, rule goes_kept, rule sendError_kept, rule kept_core [OF assms(1) same_core_packet_error])
  obtain res r1 where ap: "apply (sort_extensions p) r = Some (res, r1)" and a1: "answers r0 r1"
    using assms(3) by (auto simp: responds_def)
  let ?full = "int (length (transactions r)) \<ge> MaxCompletedTransactions (limits (engine r)) \<or>
    hSessionID (pHeader p) \<noteq> 0 \<and>
    int (length (filter (\<lambda>(k, _). HasPrefix k (decimal (unat (hSessionID (pHeader p))) @ ''/'')) (transactions r)))
      \<ge> oMaxCompletedTransactionsPerSession (options r)"
  consider (old) old where "map_of (transactions r) (transactionKey a p t) = Some old"
    | (full) "map_of (transactions r) (transactionKey a p t) = None" ?full
    | (new) "map_of (transactions r) (transactionKey a p t) = None" "\<not> ?full"
    by blast
  then show ?thesis
  proof cases
    case old
    then show ?thesis
      using Some err by (simp add: transact_def t Let_def replay_proceeds [OF assms(1)])
  next
    case full
    then have "proceeds r (transact a p apply r)"
      using Some err
      by (simp only: transact_def t Let_def option.case Option.bind.bind_lunit sort_header if_True)
    then show ?thesis ..
  next
    case new
    then have room: "int (length (transactions r0)) < MaxCompletedTransactions (oLimits (options r0))"
      using assms(1) by (simp add: assms(4) refl_inv_def)
    have "proceeds r0 (transact a p apply r)"
    proof (cases rule: Encode_cases [of res])
      case (1 d)
      show ?thesis
        using Some new ap answers_steady [OF a1] transact_finish [OF a1 1 room] 1
        by (simp only: transact_def t Let_def option.case Option.bind.bind_lunit sort_header if_False prod.case sum.case)
           (simp add: Let_def)
    next
      case (2 e)
      show ?thesis
        using Some new ap answers_steady [OF a1] 2
        by (simp only: transact_def t Let_def option.case Option.bind.bind_lunit sort_header if_False prod.case sum.case)
           (simp add: Let_def)
    qed
    then show ?thesis ..
  qed
qed

lemma transact_proceeds:
  "refl_inv r \<Longrightarrow> wf_packet p \<Longrightarrow> responds r (apply (sort_extensions p) r) \<Longrightarrow> proceeds r (transact a p apply r)"
  using transact_cases [of r p r _ "peers r" a] by auto

section \<open>Datagrams\<close>

lemma hello_callsign:
  assumes "Validate p pre_admission = None" and "hType (pHeader p) = PacketHello"
  shows "Find p TLVNodeCallsign \<noteq> None"
proof -
  have "TLVNodeCallsign \<in> set (bases (pExtensions p))"
    using assms by (auto simp: Validate_None_iff matrix_defs pre_admission_def extensions_ok_def)
  then show ?thesis
    by (simp add: Find_def find_tlv_None_iff)
qed

lemma handshake_goes:
  assumes "refl_inv r" and "wf_packet p"
    and "Validate p pre_admission = None \<Longrightarrow> answers (r\<lparr>peers := B\<rparr>) (snd (respond a (sort_extensions p) r))"
  shows "goes r (handshake a p respond r) \<or>
    Validate p pre_admission = None \<and> goes (r\<lparr>peers := B\<rparr>) (handshake a p respond r)"
proof (cases "Validate p pre_admission")
  case None
  let ?q = "sort_extensions p" and ?tr = "transact a p (\<lambda>p r. Some (respond a p r)) r"
  have "responds (r\<lparr>peers := B\<rparr>) (Some (respond a ?q r))"
    using assms(3) [OF None] by (cases "respond a ?q r") (simp add: responds_def)
  then have "proceeds r ?tr \<or> proceeds (r\<lparr>peers := B\<rparr>) ?tr"
    by (rule transact_cases [OF assms(1,2) _ refl])
  with None show ?thesis using proceeds_goes [of _ ?tr] by (auto simp: handshake_def)
next
  case (Some v)
  with assms show ?thesis by (simp add: handshake_def steady_core core_simps)
qed

lemma replayDisconnect_proceeds:
  assumes "refl_inv r" and "wf_packet p"
  shows "\<exists>b q r'. replayDisconnect a p r = Some ((b, q), r') \<and> steady r r' \<and> wf_packet q"
proof -
  let ?q = "sort_extensions p"
  have same: "\<exists>b q' r'. Some ((False, q), r) = Some ((b, q'), r') \<and> steady r r' \<and> wf_packet q'" if "wf_packet q" for q
    using that steady_refl [OF assms(1)] by blast
  show ?thesis
  proof (cases "Validate p \<lparr>cDirection = ClientToServer, cPhase = Ready\<rparr> \<noteq> None \<or> Find p TLVTransactionID = None")
    case True
    with same [OF assms(2)] show ?thesis by (auto simp: replayDisconnect_def)
  next
    case False
    then obtain raw t where t: "Find p TLVTransactionID = Some raw" "Uint64 raw = Some t"
      using transaction_value [OF assms(2)] by auto
    show ?thesis
    proof (cases "map_of (transactions r) (transactionKey a p t)")
      case None
      with False t same [OF assms(2)] show ?thesis by (simp add: replayDisconnect_def)
    next
      case (Some old)
      have rep: "proceeds r (case enqueueRaw a (coResponse old) r of
          (False, r) \<Rightarrow> do { r \<leftarrow> replayOverload a (coResponse old) r; Some ((False, ?q), r) }
        | (True, r) \<Rightarrow> Some ((True, ?q), r))"
        by (rule replay_proceeds [OF assms(1)])
      have q: "fst x \<in> {(False, ?q), (True, ?q)}" if "(case enqueueRaw a (coResponse old) r of
          (False, r) \<Rightarrow> do { r \<leftarrow> replayOverload a (coResponse old) r; Some ((False, ?q), r) }
        | (True, r) \<Rightarrow> Some ((True, ?q), r)) = Some x" for x
        using that by (auto split: prod.splits bool.splits Option.bind_splits)
      show ?thesis
      proof (cases rule: Encode_cases [of "normalize p"])
        case (1 d)
        with False t Some rep q same [OF assms(2)] same [OF wf_packet_sort [OF assms(2)]] wf_packet_sort [OF assms(2)]
        show ?thesis by (auto simp: replayDisconnect_def proceeds_def)
      next
        case (2 err)
        with False t Some same [OF assms(2)] same [OF wf_packet_sort [OF assms(2)]]
        show ?thesis by (auto simp: replayDisconnect_def)
      qed
    qed
  qed
qed

lemma dispatch_proceeds:
  assumes "refl_inv r" and "wf_packet p"
  shows "proceeds r (dispatch a sid p data r)"
proof -
  have "proceeds r (ack sid p r)"
    using ack_kept [OF kept_refl [OF assms(1)], of sid p] by (auto simp: proceeds_def kept_steady)
  moreover have "proceeds r (Some (media sid a p data r))"
    using answers_steady [OF media_answers [OF assms(1), of sid a p data]] by (simp add: proceeds_def prod_eq_iff)
  moreover have "proceeds r (transact a p (control sid) r)"
    by (intro transact_proceeds control_responds assms)
  ultimately show ?thesis
    using assms(1) by (simp add: dispatch_def Let_def steady_refl)
qed

lemma refl_inv_Touch: "refl_inv r \<Longrightarrow> steady r (r\<lparr>engine := snd (Touch sid a (engine r))\<rparr>)"
  by (intro answers_steady refl_inv_engine) (auto simp: Touch_frame refl_inv_def Touch_inv)

lemma handle_peer_goes:
  assumes "refl_inv r" and "wf_packet p"
  shows "goes r (handle_peer a p data r)"
proof -
  let ?sid = "hSessionID (pHeader p)"
  have err: "goes r (Some (packet_error why r))" "goes r (Some (malformed_packet why r))" for why
    using assms(1) by (simp_all add: steady_core core_simps)
  obtain b r1 where d: "dispatch a ?sid p data r = Some (b, r1)" and s1: "steady r r1"
    using dispatch_proceeds [OF assms, of a ?sid data] by (auto simp: proceeds_def)
  obtain t r2 where c: "Clock r1 = (t, r2)" "kept r1 r2"
    using kept_Clock [of r1 r1] kept_refl [OF steady_inv [OF s1]] by (metis surj_pair snd_conv)
  let ?r3 = "set_peer ?sid (\<lambda>q. q\<lparr>peLast := t\<rparr>) r2"
  have "kept r1 ?r3" using c(2) by (rule kept_set_peer) (simp add: peer_update_def)
  then have "steady r ?r3" using s1 steady_kept by blast
  then have s4: "steady r (?r3\<lparr>engine := snd (Touch ?sid a (engine ?r3))\<rparr>)"
    using refl_inv_Touch steady_trans steady_inv by blast
  show ?thesis
    using err d s1 c(1) s4 by (auto simp: handle_peer_def Let_def split: option.splits)
qed

text \<open>
  The only way to join the roster: an \<^verbatim>\<open>AUTHENTICATE\<close> packet with the credentials for a
  pending challenge.
\<close>

definition admits :: "addr \<Rightarrow> Packet \<Rightarrow> Reflector \<Rightarrow> (u64, peer) gomap \<Rightarrow> bool" where
  "admits a p r B \<longleftrightarrow> hType (pHeader p) = PacketAuthenticate \<and> Validate p pre_admission = None \<and>
     (\<exists>c. credentials a p r c \<and> joined a (cNode c) (peers r) B)"

lemma credentials_sort: "wf_packet p \<Longrightarrow> credentials a (sort_extensions p) r c = credentials a p r c"
  by (simp add: credentials_def found_def)

lemma handle_packet_goes:
  assumes "refl_inv r" and "wf_packet p"
  shows "goes r (handle_packet a p data r) \<or> (\<exists>B. admits a p r B \<and> goes (r\<lparr>peers := B\<rparr>) (handle_packet a p data r))"
proof -
  consider (hello) "hType (pHeader p) = PacketHello" | (auth) "hType (pHeader p) = PacketAuthenticate"
    | (other) "hType (pHeader p) \<noteq> PacketHello" "hType (pHeader p) \<noteq> PacketAuthenticate" by auto
  then show ?thesis
  proof cases
    case hello
    have "goes r (handshake a p hello r)"
      using handshake_goes [OF assms, of "peers r" hello a] hello_answers [OF assms(1) wf_packet_sort [OF assms(2)]]
        hello_callsign [OF _ hello] assms(2) by auto
    with hello show ?thesis by (simp add: handle_packet_def)
  next
    case auth
    have "goes r (handshake a p authenticate r) \<or> (\<exists>B. admits a p r B \<and> goes (r\<lparr>peers := B\<rparr>) (handshake a p authenticate r))"
    proof (cases rule: authenticate_answers [OF assms(1), of a "sort_extensions p"])
      case 1
      then show ?thesis using handshake_goes [OF assms, of "peers r" authenticate a] by auto
    next
      case (2 c B)
      then show ?thesis
        using handshake_goes [OF assms, of B authenticate a] auth
        by (auto simp: admits_def credentials_sort [OF assms(2)])
    qed
    with auth show ?thesis by (simp add: handle_packet_def)
  next
    case other
    obtain b q r1 where rd: "replayDisconnect a p r = Some ((b, q), r1)" and s: "steady r r1" and q: "wf_packet q"
      using replayDisconnect_proceeds [OF assms] by blast
    have "goes r (handle_peer a q data r1)"
      using s handle_peer_goes [OF steady_inv [OF s] q] by (rule goes_from)
    with other rd s handle_peer_goes [OF assms] show ?thesis by (simp add: handle_packet_def)
  qed
qed

lemma publish_steady: "steady r0 (publish r) = steady r0 r"
proof -
  obtain s n where sn: "EngineSnapshot r = (s, r\<lparr>engine := (engine r)\<lparr>readings := n\<rparr>\<rparr>)"
    using EngineSnapshot_eq [of r] by auto
  show ?thesis by (auto simp: publish_def sn Clock_eq Let_def steady_def refl_inv_def)
qed

lemma goes_publish: "goes r m \<Longrightarrow> goes r (m \<bind> (\<lambda>r. Some (publish r)))"
  by (auto simp: goes_def publish_steady)

lemma admits_core: "same_core r r' \<Longrightarrow> admits a p r' B = admits a p r B"
  by (simp add: admits_def credentials_def auth_message_def same_core_def)

lemma handle_goes:
  assumes "refl_inv r"
  shows "goes r (handle a data r) \<or>
    (\<exists>p B. Decode data = ok p \<and> admits a p r B \<and> goes (r\<lparr>peers := B\<rparr>) (handle a data r))"
proof -
  have err: "goes r (Some (malformed_packet why r))" for why
    using assms by (simp add: steady_core core_simps)
  show ?thesis
  proof (cases rule: Decode_cases [of data])
    case (1 p)
    let ?r = "traffic ''rx'' (hType (pHeader p)) (length data) r"
    have core: "same_core r ?r" by (simp add: core_simps)
    have s: "steady r ?r" using assms core by (simp add: steady_core)
    have b: "goes (?r\<lparr>peers := B\<rparr>) m \<Longrightarrow> goes (r\<lparr>peers := B\<rparr>) m" for B m
      using core by (simp add: goes_def steady_def same_core_def)
    have "goes r (handle_packet a p data ?r) \<or> (\<exists>B. admits a p r B \<and> goes (r\<lparr>peers := B\<rparr>) (handle_packet a p data ?r))"
      using handle_packet_goes [OF steady_inv [OF s] 1(2), of a data] goes_from [OF s] b admits_core [OF core] by blast
    with 1 err goes_publish [OF err] show ?thesis unfolding handle_def
      by (cases "int (length data) > oMaxDatagramBytes (options r)") (auto intro: goes_publish)
  next
    case (2 e)
    with err have "goes r (handle a data r)" unfolding handle_def by (intro goes_publish) simp
    then show ?thesis ..
  qed
qed

lemma handleDrain_goes:
  assumes "refl_inv r"
  shows "goes r (handleDrain a data r)"
proof (cases rule: Decode_cases [of data])
  case (1 p)
  let ?sid = "hSessionID (pHeader p)"
  have "goes r (ack ?sid p r \<bind> (\<lambda>(_, r). Some r))"
    using ack_kept [OF kept_refl [OF assms], of ?sid p] by (auto simp: kept_steady)
  moreover have "goes r (transact a p (control ?sid) r \<bind> (\<lambda>(_, r). Some r))"
    by (intro proceeds_goes transact_proceeds control_responds assms 1(2))
  ultimately show ?thesis
    using 1 steady_refl [OF assms] by (simp add: handleDrain_def Let_def split: option.split)
next
  case (2 e)
  then show ?thesis using steady_refl [OF assms] by (simp add: handleDrain_def)
qed

section \<open>Timers\<close>

lemma tick_peer_goes:
  assumes "refl_inv r"
  shows "goes r (tick_peer t sid q r)"
proof -
  let ?m = "metric ''opusref_timeouts_total'' [(''kind'', ''session'')] 1 r"
  obtain x r1 where d: "disconnectPeer sid ''session_timeout'' ?m = (x, r1)" by force
  have k: "kept r r1"
    using kept_disconnectPeer [OF kept_core [OF assms same_core_metric], of sid] d by (metis snd_conv)
  then show ?thesis
    using goes_kept [OF notifyEnd_kept [OF k]] kept_steady [OF k] steady_refl [OF assms]
    by (simp add: tick_peer_def d split: option.split)
qed

lemma tick_engine_goes:
  assumes "refl_inv r"
  shows "goes r (tick_engine r)"
proof -
  obtain x e where t: "Tick (engine r) = (x, e)" by force
  have s: "steady r (r\<lparr>engine := e\<rparr>)"
    using assms t Tick_inv [of "engine r"] Tick_frame [of "engine r"]
    by (intro answers_steady refl_inv_engine) (auto simp: refl_inv_def)
  have n: "goes r (notifyEnd y (metric a b c (r\<lparr>engine := e\<rparr>)))" for y a b c
    using s goes_kept [OF notifyEnd_kept [OF kept_core [OF steady_inv [OF s] same_core_metric]]]
    by (rule goes_from)
  show ?thesis using s n by (simp add: tick_engine_def t Let_def split: option.split)
qed

text \<open>The list of delays is never indexed out of range: a pending notification has made at most 4 attempts.\<close>

lemma retry_delay_in_range: "1 \<le> n \<Longrightarrow> n < 3 \<Longrightarrow> \<exists>d. at retry_delays n = Some d"
  by (simp add: retry_delays_def at_def)

lemma note_ok_retry:
  assumes "note_ok key n" and "noAttempt n < 4"
  shows "note_ok key \<lparr>noPacket = (noPacket n)\<lparr>pHeader := (pHeader (noPacket n))\<lparr>hFlags := f\<rparr>\<rparr>,
    noAttempt = noAttempt n + 1, noNext = t\<rparr>"
  using assms by (simp add: note_ok_def Find_def)

lemma tick_pending_goes:
  assumes "refl_inv r" and "map_of (pending r) key = Some n"
  shows "goes r (tick_pending t key n r)"
proof -
  have ok: "note_ok key n" and pok: "pending_ok (options r) (pending r)"
    using assms by (auto simp: refl_inv_def pending_ok_def)
  let ?p = "(noPacket n)\<lparr>pHeader := (pHeader (noPacket n))\<lparr>hFlags := hFlags (pHeader (noPacket n)) OR FlagRetry\<rparr>\<rparr>"
  consider (early) "t < noNext n" | (last) "\<not> t < noNext n" "noAttempt n \<ge> 4"
    | (again) "\<not> t < noNext n" "noAttempt n < 4" by linarith
  then show ?thesis
  proof cases
    case early
    then show ?thesis using steady_refl [OF assms(1)] by (simp add: tick_pending_def)
  next
    case last
    let ?m = "metric ''opusref_timeouts_total'' [(''kind'', ''transaction'')] 1 r"
    have "kept r (?m\<lparr>pending := AList.delete key (pending ?m)\<rparr>)"
      by (intro kept_pending_delete kept_core [OF assms(1) same_core_metric])
    then have "steady r (?m\<lparr>pending := AList.delete key (pending ?m)\<rparr>)"
        "steady r (set_peer l (\<lambda>q. q\<lparr>peReceiving := False\<rparr>) (?m\<lparr>pending := AList.delete key (pending ?m)\<rparr>))" for l
      by (simp_all add: kept_steady kept_set_peer)
    with last show ?thesis by (simp add: tick_pending_def Let_def)
  next
    case again
    then obtain d where d: "noAttempt n + 1 < 4 \<longrightarrow> at retry_delays (noAttempt n) = Some d"
      using ok retry_delay_in_range [of "noAttempt n"] by (auto simp: note_ok_def)
    have k: "kept r (r\<lparr>pending := AList.update key \<lparr>noPacket = ?p, noAttempt = noAttempt n + 1, noNext = u\<rparr> (pending r)\<rparr>)" for u
      using pending_ok_replace [OF pok note_ok_retry [OF ok again(2)] assms(2)]
      by (intro kept_pending kept_refl assms(1))
    show ?thesis
      using again d goes_kept [OF sendControl_kept [OF k]] kept_steady [OF k]
      by (simp add: tick_pending_def Let_def split: option.split)
  qed
qed

lemma goes_loop:
  assumes "\<And>k v s. refl_inv s \<Longrightarrow> map_of (m s) k = Some v \<Longrightarrow> goes s (body k v s)" and "refl_inv r"
  shows "goes r (range_loop m body ks r)"
proof -
  have "\<exists>s'. range_loop m body ks r = Some s' \<and> steady r s'"
  proof (rule range_loop_keeps [where P = "steady r"])
    fix k v s
    assume "steady r s" and "map_of (m s) k = Some v"
    with assms(1) [OF steady_inv] show "\<exists>s'. body k v s = Some s' \<and> steady r s'"
      unfolding goes_def by (blast intro: steady_trans)
  qed (rule steady_refl [OF assms(2)])
  then show ?thesis by (simp add: goes_def)
qed

lemma map_of_kept_entry: "wf_map m \<Longrightarrow> map_of (filter (\<lambda>(k, v). P v) m) k = Some v \<Longrightarrow> map_of m k = Some v"
  using map_of_filter_wf [of m "\<lambda>_ v. P v" k] by (auto split: option.splits if_splits)

lemma expire_steady:
  assumes "steady r0 r"
  shows "steady r0 (r\<lparr>challenges := filter (\<lambda>(_, c). P c) (challenges r),
    transactions := filter (\<lambda>(_, c). Q c) (transactions r)\<rparr>)"
proof -
  have inv: "challenges_ok (options r) (unicode r) (challenges r)" "transactions_ok (options r) (transactions r)"
    using steady_inv [OF assms] by (simp_all only: refl_inv_def)
  have le: "int (length (filter f xs)) \<le> int (length xs)" for f xs by simp
  have "challenges_ok (options r) (unicode r) (filter (\<lambda>(_, c). P c) (challenges r))"
    using inv(1) map_of_kept_entry [of "challenges r" P] le unfolding challenges_ok_def
    by (meson order_trans wf_map_filter)
  moreover have "transactions_ok (options r) (filter (\<lambda>(_, c). Q c) (transactions r))"
    using inv(2) map_of_kept_entry [of "transactions r" Q] le unfolding transactions_ok_def
    by (meson order_trans wf_map_filter)
  ultimately show ?thesis using assms by (auto simp: steady_def refl_inv_def)
qed

lemma same_core_fold:
  assumes "\<And>x r. same_core r (f x r)"
  shows "same_core r (fold f xs r)"
  by (induction xs arbitrary: r) (use assms same_core_trans in fastforce)+

lemma tick_goes:
  assumes "refl_inv r"
  shows "goes r (tick r)"
proof -
  obtain t r1 where c: "Clock r = (t, r1)" "kept r r1"
    using kept_Clock [of r r] kept_refl [OF assms] by (metis surj_pair snd_conv)
  let ?P = "\<lambda>c. \<not> Sub t (cAt c) > 10 * Second" and ?Q = "\<lambda>c. \<not> Sub t (coAt c) > 30 * Second"
  let ?m = "metric ''opusref_timeouts_total'' [(''kind'', ''challenge'')] 1"
  define r2 where "r2 = fold (\<lambda>_. ?m) (filter (\<lambda>(_, c). Sub t (cAt c) > 10 * Second) (challenges r1)) r1"
  define r3 where "r3 = r2\<lparr>challenges := filter (\<lambda>(_, c). ?P c) (challenges r2),
    transactions := filter (\<lambda>(_, c). ?Q c) (transactions r2)\<rparr>"
  have "steady r r2"
    unfolding r2_def using kept_steady [OF c(2)] by (rule steady_same_core) (simp add: same_core_fold core_simps)
  then have s3: "steady r r3" unfolding r3_def by (rule expire_steady)
  have "goes r3 (do {
      r \<leftarrow> range_loop peers (tick_peer t) (map fst (peers r3)) r3;
      r \<leftarrow> tick_engine r;
      r \<leftarrow> range_loop pending (tick_pending t) (map fst (pending r)) r;
      Some (publish r) })"
    using steady_inv [OF s3]
    by (intro goes_bind goes_loop tick_peer_goes tick_engine_goes tick_pending_goes)
       (auto simp: publish_steady intro: steady_inv steady_refl)
  with s3 show ?thesis
    unfolding tick_def c(1) Let_def prod.case r2_def [symmetric] r3_def [symmetric] by (rule goes_from)
qed

section \<open>Shutdown\<close>

lemma transport_ok_Read: "transport_ok u \<Longrightarrow> transport_ok (Read_round n d u)"
  by (auto simp: transport_ok_def Read_round_def try_send_def wf_chan_def)

lemma try_recv_ok: "wf_chan c \<Longrightarrow> try_recv c = Some (x, c') \<Longrightarrow> wf_chan c'"
  by (auto simp: try_recv_def wf_chan_def split: list.splits)

lemma kept_transport_refl: "refl_inv r \<Longrightarrow> transport_ok u \<Longrightarrow> kept r (r\<lparr>transport := u\<rparr>)"
  by (intro kept_transport kept_refl)

lemma pending_of_mset: "mset m = mset m' \<Longrightarrow> pending_of sid m = pending_of sid m'"
  unfolding pending_of_def by (metis mset_filter size_mset)

lemma map_of_peers_from: "map_of ps = map_of ps' \<Longrightarrow> peers_from ps' ps"
  by (auto simp: peers_from_def)

lemma reorder_steady:
  assumes "refl_inv r" and "mset ss = mset (sessions (engine r))" and "mset ps = mset (peers r)"
    and "mset ns = mset (pending r)"
  shows "steady r (r\<lparr>engine := (engine r)\<lparr>sessions := ss\<rparr>, peers := ps, pending := ns\<rparr>)"
proof -
  have inv: "engine_inv (engine r)" "peers_ok (unicode r) (peers r)" "pending_ok (options r) (pending r)"
    using assms(1) by (simp_all only: refl_inv_def)
  have w: "wf_map (sessions (engine r))" "wf_map (peers r)" "wf_map (pending r)"
    using inv by (auto simp: engine_inv_def peers_ok_def pending_ok_def)
  have m: "map_of ss = map_of (sessions (engine r))" "map_of ps = map_of (peers r)" "map_of ns = map_of (pending r)"
    using assms(2-4) w by (auto intro: map_of_mset)
  have "peers_ok (unicode r) ps" "sync_ok ss ps"
    using assms(1,3) m by (auto simp: refl_inv_def peers_ok_def sync_ok_def dest: wf_map_mset)
  moreover have "pending_ok (options r) ns"
    using inv(3) m(3) wf_map_mset [OF assms(4)] mset_eq_length [OF assms(4)] pending_of_mset [OF assms(4)]
    by (simp add: pending_ok_def)
  ultimately have "refl_inv (r\<lparr>engine := (engine r)\<lparr>sessions := ss\<rparr>, peers := ps, pending := ns\<rparr>)"
    using assms(1) Reorder_inv [OF inv(1) assms(2)] by (simp add: refl_inv_def)
  then show ?thesis using map_of_peers_from [OF m(2)] by (simp add: steady_def)
qed

lemma background_steady:
  assumes "refl_inv r"
  shows "steady r (background_step b r)"
proof -
  have t: "transport_ok (transport r)" using assms by (simp add: refl_inv_def)
  note put = kept_steady [OF kept_transport_refl [OF assms]]
  show ?thesis
  proof (cases b)
    case (BReceive d)
    with put [OF transport_ok_Read [OF t]] show ?thesis by simp
  next
    case (BReorder ss ps ns)
    with reorder_steady [OF assms] steady_refl [OF assms] show ?thesis by simp
  qed (use t put steady_refl [OF assms] in \<open>auto simp: transport_ok_def split: option.split dest: try_recv_ok\<close>)
qed

text \<open>A handler that takes its datagram from the inbound queue.\<close>

lemma inbound_goes:
  assumes "refl_inv r" and "\<And>a d s. refl_inv s \<Longrightarrow> goes s (f a d s)"
  shows "goes r (case try_recv (uInbound (transport r)) of None \<Rightarrow> Some r
    | Some (d, c) \<Rightarrow> f (dAddress d) (dData d) (r\<lparr>transport := (transport r)\<lparr>uInbound := c\<rparr>\<rparr>))"
proof (cases "try_recv (uInbound (transport r))")
  case None
  then show ?thesis using assms(1) by (simp add: steady_refl)
next
  case (Some x)
  obtain d c where x: "x = (d, c)" by force
  have "transport_ok ((transport r)\<lparr>uInbound := c\<rparr>)"
    using assms(1) Some x by (auto simp: refl_inv_def transport_ok_def dest: try_recv_ok)
  then have s: "steady r (r\<lparr>transport := (transport r)\<lparr>uInbound := c\<rparr>\<rparr>)"
    by (rule kept_steady [OF kept_transport_refl [OF assms(1)]])
  from goes_from [OF s assms(2) [OF steady_inv [OF s]]] show ?thesis by (simp add: Some x)
qed

lemma drainPending_datagram:
  "drainPending (DrainDatagram # evs) r = (if pending r = [] then Some r
    else (case try_recv (uInbound (transport r)) of None \<Rightarrow> Some r
      | Some (d, c) \<Rightarrow> handleDrain (dAddress d) (dData d) (r\<lparr>transport := (transport r)\<lparr>uInbound := c\<rparr>\<rparr>)) \<bind> drainPending evs)"
  by (auto split: option.split)

lemma drainPending_goes: "refl_inv r \<Longrightarrow> goes r (drainPending evs r)"
proof (induction evs arbitrary: r)
  case (Cons ev evs)
  show ?case
  proof (cases ev)
    case (DrainBackground b)
    have "steady r (background_step b r)" using Cons.prems by (rule background_steady)
    with DrainBackground show ?thesis by (auto intro: goes_from Cons.IH steady_inv)
  next
    case DrainDatagram
    with Cons show ?thesis
      unfolding DrainDatagram drainPending_datagram
      by (auto intro!: goes_bind inbound_goes handleDrain_goes dest: steady_inv simp: steady_refl)
  next
    case DrainTimer
    with Cons show ?thesis by (auto intro!: goes_bind tick_goes dest: steady_inv simp: steady_refl)
  qed (use Cons.prems in \<open>simp add: steady_refl\<close>)
qed (simp add: steady_refl)

lemma transport_ok_drain: "transport_ok u \<Longrightarrow> transport_ok (snd (drain_media n drops u))"
  by (induction n drops u rule: drain_media.induct)
     (auto simp: transport_ok_def try_recv_def wf_chan_def split: prod.splits option.splits list.splits if_splits)

lemma transport_ok_DisableMedia: "transport_ok u \<Longrightarrow> transport_ok (snd (DisableMedia u))"
  unfolding DisableMedia_def by (rule transport_ok_drain) (simp add: transport_ok_def)

lemma begin_drain_goes:
  assumes "refl_inv r"
  shows "goes r (begin_drain r)"
proof -
  obtain drops u where d: "DisableMedia (transport r) = (drops, u)" by force
  have "transport_ok u"
    using transport_ok_DisableMedia [of "transport r"] assms d by (simp add: refl_inv_def)
  then have "kept r (r\<lparr>transport := u\<rparr>)" by (intro kept_transport kept_refl assms)
  moreover define r1 where "r1 = fold log_drop drops (r\<lparr>transport := u\<rparr>)"
  moreover have "same_core (r\<lparr>transport := u\<rparr>) r1"
    unfolding r1_def by (rule same_core_fold) (auto simp: log_drop_def core_simps split: prod.split)
  ultimately have s1: "steady r r1" by (meson kept_same_core kept_steady)
  obtain x e where b: "BeginShutdown (engine r1) = (x, e)" by force
  have s2: "steady r1 (r1\<lparr>engine := e\<rparr>)"
    using steady_inv [OF s1] b BeginShutdown_inv [of "engine r1"] BeginShutdown_frame [of "engine r1"]
    by (intro answers_steady refl_inv_engine) (auto simp: refl_inv_def)
  have n: "goes r1 (notifyEnd y (r1\<lparr>engine := e\<rparr>))" for y
    using s2 goes_kept [OF notifyEnd_kept [OF kept_refl [OF steady_inv [OF s2]]]] by (rule goes_from)
  have "goes r1 ((case x of None \<Rightarrow> Some (r1\<lparr>engine := e\<rparr>) | Some y \<Rightarrow> notifyEnd y (r1\<lparr>engine := e\<rparr>)) \<bind> (\<lambda>r. Some (publish r)))"
    using s2 n by (intro goes_publish) (simp split: option.split)
  with s1 show ?thesis
    unfolding begin_drain_def d Let_def prod.case r1_def [symmetric] b by (rule goes_from)
qed

lemma say_goodbye_goes:
  assumes "refl_inv r"
  shows "goes r (say_goodbye r)"
proof -
  let ?m = "if pending r \<noteq> [] then metric ''opusref_timeouts_total'' [(''kind'', ''shutdown'')] 1 r else r"
  have s: "steady r ?m" using assms by (simp add: steady_core core_simps steady_refl)
  have body: "goes s (let (i, r) = transactionID s in startNotification sid a (disconnect_packet sid i) r)"
    if "refl_inv s" for s sid a
  proof -
    obtain i s1 where t: "transactionID s = (i, s1)" by force
    have "kept s s1" using kept_transactionID [of s s] kept_refl [OF that] t by simp
    then show ?thesis
      by (auto simp: t disconnect_packet_def intro!: goes_kept startNotification_kept)
  qed
  show ?thesis
    unfolding say_goodbye_def Let_def [of ?m]
    by (rule goes_from [OF s]) (intro goes_loop body steady_inv [OF s])
qed

lemma drop_peers_goes:
  assumes "refl_inv r"
  shows "goes r (drop_peers r)"
proof -
  have "goes s (case disconnectPeer sid ''server_shutdown'' s of (None, r) \<Rightarrow> Some r | (Some x, r) \<Rightarrow> notifyEnd x r)"
    if "refl_inv s" for s sid
  proof -
    obtain x s1 where d: "disconnectPeer sid ''server_shutdown'' s = (x, s1)" by force
    have k: "kept s s1" using kept_disconnectPeer [OF kept_refl [OF that], of sid] d by (metis snd_conv)
    then show ?thesis
      using goes_kept [OF notifyEnd_kept [OF k]] by (simp add: d kept_steady split: option.split)
  qed
  then show ?thesis unfolding drop_peers_def by (intro goes_loop assms)
qed

lemma drain_goes: "refl_inv r \<Longrightarrow> goes r (drain evs1 evs2 r)"
  unfolding drain_def
  by (intro goes_bind begin_drain_goes drainPending_goes say_goodbye_goes drop_peers_goes) (auto dest: steady_inv)

end
