(* ===== verification/ReflectorSystem.thy ===== *)
theory ReflectorSystem
  imports ReflectorTotal Systems
begin

text \<open>
  The running reflector: the loop of \<^verbatim>\<open>Run\<close> interleaved with the socket goroutines, the roster
  of admitted peers along it, and the theorems about whole runs.
\<close>

section \<open>Runs\<close>

text \<open>
  What happens to a running reflector: a step of the socket goroutines, the loop takes a datagram and handles
  it, the ticker fires.
\<close>

datatype server_event =
    SReceive Datagram
  | SHandle
  | STick
  | SWriteControl
  | SWriteMedia
  | SReorder "(u64, session) gomap" "(u64, peer) gomap" "(notificationKey, notification) gomap"

fun Run_step :: "server_event \<Rightarrow> Reflector \<Rightarrow> Reflector option" where
  "Run_step (SReceive d) r = Some (background_step (BReceive d) r)"
| "Run_step SHandle r =
     (case try_recv (uInbound (transport r)) of
        None \<Rightarrow> Some r
      | Some (d, c) \<Rightarrow> handle (dAddress d) (dData d) (r\<lparr>transport := (transport r)\<lparr>uInbound := c\<rparr>\<rparr>))"
| "Run_step STick r = tick r"
| "Run_step SWriteControl r = Some (background_step BWriteControl r)"
| "Run_step SWriteMedia r = Some (background_step BWriteMedia r)"
| "Run_step (SReorder ss ps ns) r = Some (background_step (BReorder ss ps ns) r)"

text \<open>A run from a state: \<^term>\<open>None\<close> is a panic, and stays.\<close>

definition server_step :: "Reflector option \<Rightarrow> server_event \<Rightarrow> Reflector option" where
  "server_step s ev = s \<bind> Run_step ev"

definition server_inv :: "Reflector option \<Rightarrow> bool" where
  "server_inv s \<longleftrightarrow> (case s of None \<Rightarrow> False | Some r \<Rightarrow> refl_inv r)"

definition server_init :: "Reflector option \<Rightarrow> bool" where
  "server_init s \<longleftrightarrow> (\<exists>q c rnd uni r. NewReflector q c rnd uni = Inr r \<and> s = Some r)"

lemma refl_inv_publish: "refl_inv (publish r) = refl_inv r"
  using publish_steady [of "publish r" r] publish_steady [of r r] publish_steady [of r "publish r"]
  by (metis publish_steady steady_inv steady_refl)

lemma NewReflector_inv:
  assumes "NewReflector q c rnd uni = Inr r"
  shows "refl_inv r"
proof -
  let ?q = "(ReflectorOptions_defaults q)\<lparr>oLimits := Limits_defaults (oLimits (ReflectorOptions_defaults q))\<rparr>"
  obtain u where v: "options_validate ?q = None"
    and u: "NewUDP (oInboundQueuePackets ?q) (oOutboundControlQueuePackets ?q) (oOutboundMediaQueueFrames ?q) = Some u"
    and r: "r = publish \<lparr>options = ?q, engine = NewEngine (oLimits ?q) c, transport = u, challenges = [],
      peers = [], transactions = [], pending = [], snapshot = None, random = rnd, unicode = uni, metrics = [], events = []\<rparr>"
    using assms by (auto simp: NewReflector_def Let_def split: sum.splits if_splits option.splits)
  have lim: "limits (NewEngine (oLimits ?q) c) = oLimits ?q"
    by (simp add: NewEngine_def Limits_defaults_def)
  have "transport_ok u"
    using u by (auto simp: NewUDP_def transport_ok_def wf_chan_def make_chan_def split: if_splits)
  moreover have "oMaxPendingNotifications ?q > 0" "oMaxPendingChallenges ?q > 0" "MaxCompletedTransactions (oLimits ?q) > 0"
    "oMaxPendingNotificationsPerClient ?q > 0"
    using v by (auto simp: options_validate_def Let_def split: if_splits)
  ultimately show ?thesis
    unfolding r refl_inv_publish unfolding refl_inv_def using v lim
    by (simp add: NewEngine_inv sync_ok_def peers_ok_def pending_ok_def pending_of_def challenges_ok_def transactions_ok_def)
       (simp add: NewEngine_def)
qed

lemma Run_step_inv:
  assumes "refl_inv r"
  shows "\<exists>r'. Run_step ev r = Some r' \<and> refl_inv r' \<and> options r' = options r"
proof -
  have goesD: "goes r m \<Longrightarrow> \<exists>r'. m = Some r' \<and> refl_inv r' \<and> options r' = options r" for m
    by (auto simp: goes_def steady_def)
  have beside: "refl_inv (background_step b r) \<and> options (background_step b r) = options r" for b
    using background_steady [OF assms, of b] by (simp add: steady_def)
  show ?thesis
  proof (cases ev)
    case SHandle
    have t: "transport_ok (transport r)" using assms by (simp add: refl_inv_def)
    note put = kept_transport_refl [OF assms]
    have "\<exists>r'. handle a d (r\<lparr>transport := (transport r)\<lparr>uInbound := c\<rparr>\<rparr>) = Some r' \<and> refl_inv r' \<and> options r' = options r"
      if "wf_chan c" for a d c
      using handle_goes [OF kept_inv [OF put], of "(transport r)\<lparr>uInbound := c\<rparr>" a d] that t
      by (auto simp: transport_ok_def goes_def steady_def)
    with SHandle t assms show ?thesis
      by (auto simp: transport_ok_def split: option.split dest: try_recv_ok)
  next
    case STick
    with goesD [OF tick_goes [OF assms]] show ?thesis by simp
  qed (use beside in \<open>simp_all del: background_step.simps\<close>)
qed

interpretation server: machine server_init server_step server_inv
proof
  show "server_init s \<Longrightarrow> server_inv s" for s
    by (auto simp: server_init_def server_inv_def NewReflector_inv)
  show "server_inv (server_step s ev)" if "server_inv s" for s ev
  proof -
    from that obtain r where r: "s = Some r" "refl_inv r" by (auto simp: server_inv_def split: option.splits)
    from Run_step_inv [OF r(2), of ev] show ?thesis by (auto simp: r(1) server_inv_def server_step_def)
  qed
qed

lemma server_running:
  assumes "NewReflector q c rnd uni = Inr r"
  obtains r' where "run server_step (Some r) evs = Some r'" and "refl_inv r'"
proof -
  have "server_init (Some r)" using assms by (auto simp: server_init_def)
  then have "server_inv (run server_step (Some r) evs)" by (rule server.inv_reachable)
  then show thesis using that by (auto simp: server_inv_def split: option.splits)
qed

end
