(* ===== verification/ReflectorProps.thy ===== *)
theory ReflectorProps
  imports ReflectorSystem WireProps
begin

text \<open>
  The properties of the reflector: it never panics and stays within its capacities, only
  credentials admit, a forged sender address changes nothing, a retransmission is answered
  from the cache, an error never amplifies, media is forwarded verbatim, and a shutdown ends
  with nobody connected.
\<close>

section \<open>Shutdown empties the roster\<close>

lemma range_loop_removes:
  assumes "\<And>k v s. P s \<Longrightarrow> map_of (m s) k = Some v \<Longrightarrow> \<exists>s'. body k v s = Some s' \<and> P s' \<and> map_of (m s') k = None"
    and "\<And>k v s s' k'. P s \<Longrightarrow> map_of (m s) k = Some v \<Longrightarrow> body k v s = Some s' \<Longrightarrow> map_of (m s) k' = None \<Longrightarrow> map_of (m s') k' = None"
  shows "P s \<Longrightarrow> range_loop m body ks s = Some s' \<Longrightarrow>
    P s' \<and> (\<forall>k. k \<in> set ks \<or> map_of (m s) k = None \<longrightarrow> map_of (m s') k = None)"
proof (induction ks arbitrary: s)
  case (Cons k ks)
  show ?case
  proof (cases "map_of (m s) k")
    case None
    with Cons show ?thesis by auto
  next
    case (Some v)
    from assms(1) [OF Cons.prems(1) Some] obtain s1
      where s1: "body k v s = Some s1" "P s1" "map_of (m s1) k = None" by blast
    from Cons.IH [OF s1(2)] Cons.prems(2) Some s1(1)
    have "P s' \<and> (\<forall>k. k \<in> set ks \<or> map_of (m s1) k = None \<longrightarrow> map_of (m s') k = None)" by simp
    with assms(2) [OF Cons.prems(1) Some s1(1)] s1(3) show ?thesis by auto
  qed
qed simp

lemma disconnectPeer_gone: "map_of (peers (snd (disconnectPeer sid reason r))) sid = None"
  by (auto simp: disconnectPeer_def event_def map_simps split: option.splits prod.splits)

lemma kept_no_join: "kept r r' \<Longrightarrow> map_of (peers r) sid = None \<Longrightarrow> map_of (peers r') sid = None"
  by (cases "map_of (peers r') sid") (force simp: kept_def quiet_def peers_from_def)+

lemma drop_body:
  assumes "refl_inv s"
  shows "\<exists>s'. (case disconnectPeer sid ''server_shutdown'' s of (None, r) \<Rightarrow> Some r | (Some x, r) \<Rightarrow> notifyEnd x r) = Some s' \<and>
    kept s s' \<and> map_of (peers s') sid = None"
proof -
  obtain x s1 where d: "disconnectPeer sid ''server_shutdown'' s = (x, s1)" by force
  have k: "kept s s1" using kept_disconnectPeer [OF kept_refl [OF assms], of sid] d by (metis snd_conv)
  have g: "map_of (peers s1) sid = None" using disconnectPeer_gone [of sid "''server_shutdown''" s] by (simp add: d)
  show ?thesis
  proof (cases x)
    case None
    with d k g show ?thesis by simp
  next
    case (Some y)
    from notifyEnd_kept [OF kept_refl [OF kept_inv [OF k]], of y] obtain s2
      where n: "notifyEnd y s1 = Some s2" "kept s1 s2" by blast
    from Some d n(1) kept_trans [OF k n(2)] kept_no_join [OF n(2) g] show ?thesis by simp
  qed
qed

lemma drop_peers_empties:
  assumes "refl_inv r" and "drop_peers r = Some r'"
  shows "refl_inv r' \<and> peers r' = []"
proof -
  let ?body = "\<lambda>sid q r. case disconnectPeer sid ''server_shutdown'' r of (None, r) \<Rightarrow> Some r | (Some x, r) \<Rightarrow> notifyEnd x r"
  have "refl_inv r' \<and> (\<forall>k. k \<in> set (map fst (peers r)) \<or> map_of (peers r) k = None \<longrightarrow> map_of (peers r') k = None)"
  proof (rule range_loop_removes [where P = refl_inv and m = peers and body = ?body])
    show "refl_inv s \<Longrightarrow> map_of (peers s) k = Some v \<Longrightarrow> \<exists>s'. ?body k v s = Some s' \<and> refl_inv s' \<and> map_of (peers s') k = None" for k v s
      using drop_body [of s k] by (auto dest: kept_inv)
    show "refl_inv s \<Longrightarrow> map_of (peers s) k = Some v \<Longrightarrow> ?body k v s = Some s' \<Longrightarrow> map_of (peers s) k' = None \<Longrightarrow> map_of (peers s') k' = None" for k v s s' k'
      using drop_body [of s k] by (auto dest: kept_no_join)
  qed (use assms in \<open>simp_all add: drop_peers_def\<close>)
  then have "refl_inv r'" "map_of (peers r') k = None" for k
    by (auto simp: map_of_eq_None_iff)
  then show ?thesis by (metis list.exhaust map_of_Cons_code(2) option.distinct(1) prod.exhaust)
qed

lemma no_peers_no_sessions:
  assumes "refl_inv r" and "peers r = []"
  shows "sessions (engine r) = [] \<and> floor_of (engine r) = None"
proof -
  have "map_of (sessions (engine r)) sid = None" for sid
    using assms by (cases "map_of (sessions (engine r)) sid") (auto simp: refl_inv_def sync_ok_def)
  then have "sessions (engine r) = []"
    by (metis list.exhaust map_of_Cons_code(2) option.distinct(1) prod.exhaust)
  then show ?thesis
    using assms by (auto simp: refl_inv_def engine_inv_def floor_ok_def split: option.splits)
qed

lemma drain_empties:
  assumes "refl_inv r"
  shows "\<exists>r'. drain evs1 evs2 r = Some r' \<and> refl_inv r' \<and> peers r' = []"
proof -
  let ?pre = "do { r \<leftarrow> begin_drain r; r \<leftarrow> drainPending evs1 r; r \<leftarrow> say_goodbye r; drainPending evs2 r }"
  have "goes r ?pre"
    using assms by (intro goes_bind begin_drain_goes drainPending_goes say_goodbye_goes) (auto dest: steady_inv)
  then obtain r1 where r1: "?pre = Some r1" "refl_inv r1" by (auto simp: goes_def steady_def)
  from drop_peers_goes [OF r1(2)] obtain r2 where r2: "drop_peers r1 = Some r2" by (auto simp: goes_def)
  have "drain evs1 evs2 r = Some r2"
    using r1(1) r2 by (auto simp: drain_def bind_eq_Some_conv)
  with drop_peers_empties [OF r1(2) r2] show ?thesis by simp
qed

lemma options_run: "refl_inv r \<Longrightarrow> run server_step (Some r) evs = Some r' \<Longrightarrow> options r' = options r"
proof (induction evs arbitrary: r)
  case (Cons ev evs)
  from Run_step_inv [OF Cons.prems(1), of ev] obtain r1
    where r1: "Run_step ev r = Some r1" "refl_inv r1" "options r1 = options r" by blast
  from Cons.IH [OF r1(2)] Cons.prems(2) r1 show ?case by (simp add: server_step_def)
qed simp

lemma publish_frame:
  "peers (publish r) = peers r" "pending (publish r) = pending r" "challenges (publish r) = challenges r"
  "transactions (publish r) = transactions r" "transport (publish r) = transport r"
  "\<exists>n. engine (publish r) = (engine r)\<lparr>readings := n\<rparr>"
proof -
  obtain s n where sn: "EngineSnapshot r = (s, r\<lparr>engine := (engine r)\<lparr>readings := n\<rparr>\<rparr>)"
    using EngineSnapshot_eq [of r] by auto
  show "peers (publish r) = peers r" "pending (publish r) = pending r" "challenges (publish r) = challenges r"
    "transactions (publish r) = transactions r" "transport (publish r) = transport r"
    "\<exists>n. engine (publish r) = (engine r)\<lparr>readings := n\<rparr>"
    by (auto simp: publish_def sn Clock_eq Let_def)
qed

section \<open>Properties\<close>

text \<open>The states of a running reflector.\<close>

definition reachable :: "Reflector \<Rightarrow> bool" where
  "reachable r \<longleftrightarrow> (\<exists>q c rnd uni r0 evs. NewReflector q c rnd uni = Inr r0 \<and> run server_step (Some r0) evs = Some r)"

lemma reachable_inv: "reachable r \<Longrightarrow> refl_inv r"
  unfolding reachable_def by (metis server_running option.inject)

definition demo_options :: ReflectorOptions where
  "demo_options = \<lparr>oID = ''REF1'', oDisplayName = ''Demo'', oSharedKey = [],
     oLimits = \<lparr>MaxClients = 0, MaxCompletedTransactions = 0, SessionTimeout = 0, GrantTimeout = 0,
       MediaTimeout = 0, TransmitTimeLimit = 0\<rparr>,
     oInboundQueuePackets = 0, oOutboundControlQueuePackets = 0, oOutboundMediaQueueFrames = 0,
     oMaxPendingChallenges = 0, oMaxPendingNotifications = 0, oMaxPendingNotificationsPerClient = 0,
     oMaxCompletedTransactionsPerSession = 0, oMaxDatagramBytes = 0, oShutdownGrace = 0\<rparr>"

definition demo_new :: "string + Reflector" where
  "demo_new = NewReflector demo_options (\<lambda>n. int n) [] (\<lambda>s. s)"

definition demo :: Reflector where
  "demo = projr demo_new"

lemma demo_new_ok: "NewReflector demo_options (\<lambda>n. int n) [] (\<lambda>s. s) = Inr demo"
proof -
  have "\<not> isl demo_new" by code_simp
  then have "demo_new = Inr (projr demo_new)" by (rule sum.collapse(2) [symmetric])
  then show ?thesis unfolding demo_def demo_new_def .
qed

lemma demo_reachable: "reachable demo"
  unfolding reachable_def by (intro exI conjI, rule demo_new_ok, rule run.simps(1))

text \<open>
  C9. The reflector never panics: from its construction, every interleaving of received
  datagrams, whatever their bytes, handled datagrams, timer ticks and socket writes leads to a
  state in which the invariant holds and from which the next step is again taken.
\<close>

theorem reflector_never_panics:
  assumes "NewReflector q c rnd uni = Inr r"
  shows "\<exists>r'. run server_step (Some r) evs = Some r' \<and> refl_inv r' \<and>
    (\<forall>a data. handle a data r' \<noteq> None) \<and> tick r' \<noteq> None"
proof -
  obtain r' where r': "run server_step (Some r) evs = Some r'" and inv: "refl_inv r'"
    using assms by (rule server_running)
  have "handle a data r' \<noteq> None" for a data
    using handle_goes [OF inv, of a data] by (auto simp: goes_def)
  moreover have "tick r' \<noteq> None"
    using tick_goes [OF inv] by (auto simp: goes_def)
  ultimately show ?thesis using r' inv by blast
qed

theorem reflector_never_panics_witness:
  "\<exists>r'. run server_step (Some demo) [SReceive \<lparr>dAddress = ''a'', dData = [1, 2]\<rparr>, SHandle, STick] = Some r' \<and>
    refl_inv r' \<and> (\<forall>a data. handle a data r' \<noteq> None) \<and> tick r' \<noteq> None"
  by (rule reflector_never_panics [OF demo_new_ok])

text \<open>
  C39. Capacities: along every run of a new reflector the sessions, the pending challenges, the
  completed transactions and the pending notifications (in total and per listener) stay within
  the configured limits, which the run does not change, and no notification has been sent more
  than four times.
\<close>

theorem reflector_capacities:
  assumes "NewReflector q c rnd uni = Inr r" and "run server_step (Some r) evs = Some r'"
  shows "int (length (sessions (engine r'))) \<le> MaxClients (oLimits (options r)) \<and>
    int (length (challenges r')) \<le> oMaxPendingChallenges (options r) \<and>
    int (length (transactions r')) \<le> MaxCompletedTransactions (oLimits (options r)) \<and>
    int (length (pending r')) \<le> oMaxPendingNotifications (options r) \<and>
    (\<forall>sid. int (length (filter (\<lambda>(key, _). nkListener key = sid) (pending r')))
       \<le> oMaxPendingNotificationsPerClient (options r)) \<and>
    (\<forall>(_, n) \<in> set (pending r'). noAttempt n \<le> 4)"
proof -
  have inv: "refl_inv r'"
    using server_running [OF assms(1), of evs] assms(2) by (metis option.inject)
  have opt: "options r' = options r"
    using options_run [OF NewReflector_inv [OF assms(1)] assms(2)] .
  have "MaxClients (oLimits (options r')) > 0"
    using inv by (auto simp: refl_inv_def options_validate_def Let_def split: if_splits)
  moreover have "noAttempt n \<le> 4" if "(key, n) \<in> set (pending r')" for key n
    using inv that by (auto simp: refl_inv_def pending_ok_def note_ok_def wf_map_def)
  ultimately show ?thesis
    using inv unfolding refl_inv_def engine_inv_def pending_ok_def challenges_ok_def transactions_ok_def pending_of_def opt
    by auto
qed

theorem reflector_capacities_witness:
  "int (length (challenges (the (run server_step (Some demo) [STick])))) \<le> 100"
proof -
  let ?s = "run server_step (Some demo) [STick]"
  obtain r' where r': "?s = Some r'" using server_running [OF demo_new_ok] by blast
  have "oMaxPendingChallenges (options demo) = 100" by code_simp
  with reflector_capacities [OF demo_new_ok r'] r' show ?thesis by simp
qed

text \<open>
  C10. Admission needs credentials: whatever datagram a running reflector handles, every peer it
  has afterwards was a peer before, with the same address and call sign, or the datagram is an
  \<^verbatim>\<open>AUTHENTICATE\<close> packet from the peer's address that answers a live challenge for this address
  with both its nonces and, when a shared key is configured, the HMAC-SHA256 tag under that key
  (\<^const>\<open>credentials\<close>), and the peer's call sign is the one the challenge was issued for.
\<close>

theorem admission_needs_credentials:
  assumes "reachable r"
  shows "\<exists>r'. handle a data r = Some r' \<and> (\<forall>sid q. map_of (peers r') sid = Some q \<longrightarrow>
    (\<exists>q0. map_of (peers r) sid = Some q0 \<and> peAddress q = peAddress q0 \<and> peNode q = peNode q0) \<or>
    (\<exists>p c. Decode data = ok p \<and> hType (pHeader p) = PacketAuthenticate \<and> credentials a p r c \<and>
       peAddress q = a \<and> peNode q = cNode c))"
proof -
  from handle_goes [OF reachable_inv [OF assms], of a data] show ?thesis
  proof (elim disjE exE conjE)
    assume "goes r (handle a data r)"
    then show ?thesis unfolding goes_def steady_def peers_from_def by blast
  next
    fix p B
    assume "Decode data = ok p" "admits a p r B" "goes (r\<lparr>peers := B\<rparr>) (handle a data r)"
    then obtain r' c where r': "handle a data r = Some r'" "peers_from B (peers r')"
      and c: "hType (pHeader p) = PacketAuthenticate" "credentials a p r c" "joined a (cNode c) (peers r) B"
      by (auto simp: goes_def steady_def admits_def)
    from r'(2) c(3) have "(\<exists>q0. map_of (peers r) sid = Some q0 \<and> peAddress q = peAddress q0 \<and> peNode q = peNode q0) \<or>
        peAddress q = a \<and> peNode q = cNode c" if "map_of (peers r') sid = Some q" for sid q
      using that unfolding peers_from_def joined_def by metis
    with r'(1) c \<open>Decode data = ok p\<close> show ?thesis by blast
  qed
qed

theorem admission_needs_credentials_witness:
  "\<exists>r'. handle ''a'' [1, 2] demo = Some r' \<and> (\<forall>sid q. map_of (peers r') sid = Some q \<longrightarrow>
    (\<exists>q0. map_of (peers demo) sid = Some q0 \<and> peAddress q = peAddress q0 \<and> peNode q = peNode q0) \<or>
    (\<exists>p c. Decode [1, 2] = ok p \<and> hType (pHeader p) = PacketAuthenticate \<and> credentials ''a'' p demo c \<and>
       peAddress q = ''a'' \<and> peNode q = cNode c))"
  by (rule admission_needs_credentials [OF demo_reachable])

text \<open>
  A shutdown completes: from every state of a running reflector \<^verbatim>\<open>drain\<close> returns, whatever
  arrives meanwhile, and afterwards there is no peer, no session and no holder of the floor.
\<close>

theorem shutdown_completes:
  assumes "reachable r"
  shows "\<exists>r'. drain evs1 evs2 r = Some r' \<and> peers r' = [] \<and> sessions (engine r') = [] \<and> floor_of (engine r') = None"
  using drain_empties [OF reachable_inv [OF assms], of evs1 evs2] no_peers_no_sessions by blast

theorem shutdown_completes_witness:
  "\<exists>r'. drain [DrainTimer, DrainBackground (BReceive \<lparr>dAddress = ''a'', dData = [1]\<rparr>), DrainDatagram] [DrainBackground BWriteControl, DrainDone] demo = Some r' \<and> peers r' = [] \<and>
    sessions (engine r') = [] \<and> floor_of (engine r') = None"
  by (rule shutdown_completes [OF demo_reachable])

definition demo_keepalive :: Packet where
  "demo_keepalive = \<lparr>pHeader = zeroHeader\<lparr>hVersion := 1, hType := PacketKeepalive, hSessionID := 7\<rparr>,
     pExtensions = [Uint64TLV TLVTransactionID 9], pPayload = []\<rparr>"

definition demo_peer :: Reflector where
  "demo_peer = demo\<lparr>peers := [(7, new_peer 7 ''a'' ''N0CALL'' 0)]\<rparr>"

lemma demo_call: "good_call uni ''N0CALL''"
proof -
  have "Callsign uni ''N0CALL'' = Inr (bytes_of ''N0CALL    '')" by code_simp
  then show ?thesis by (auto simp: good_call_def)
qed

lemma demo_peer_inv: "refl_inv demo_peer"
proof -
  have "sessions (engine demo) = []" by code_simp
  then show ?thesis
    using reachable_inv [OF demo_reachable] demo_call
    by (simp add: demo_peer_def refl_inv_def sync_ok_def peers_ok_def new_peer_def wf_map_def)
qed

lemma demo_keepalive_wf: "wf_packet demo_keepalive"
  by (simp add: demo_keepalive_def demo_simps)

text \<open>
  A forged sender address has no effect: a datagram that names the session of a peer but comes
  from another address (for a \<^verbatim>\<open>DISCONNECT\<close>: one that no completed transaction belongs to)
  leaves peers, engine, pending notifications, challenges, transactions and the transport
  queues as they are; only clock readings, the log and the published snapshot change.
\<close>

theorem forged_sender_ignored:
  assumes "refl_inv r" and "Decode data = ok p" and "hType (pHeader p) \<notin> {PacketHello, PacketAuthenticate}"
    and "map_of (peers r) (hSessionID (pHeader p)) = Some q" and "peAddress q \<noteq> a"
    and "hType (pHeader p) = PacketDisconnect \<Longrightarrow> \<forall>(_, c) \<in> set (transactions r). coAddress c \<noteq> a"
  shows "\<exists>r'. handle a data r = Some r' \<and> peers r' = peers r \<and> (\<exists>n. engine r' = (engine r)\<lparr>readings := n\<rparr>) \<and>
    pending r' = pending r \<and> challenges r' = challenges r \<and> transactions r' = transactions r \<and>
    transport r' = transport r"
proof -
  let ?r = "traffic ''rx'' (hType (pHeader p)) (length data) r"
  have pub: "same_but_clock r s \<Longrightarrow> \<exists>r'. Some (publish s) = Some r' \<and> peers r' = peers r \<and>
    (\<exists>n. engine r' = (engine r)\<lparr>readings := n\<rparr>) \<and> pending r' = pending r \<and> challenges r' = challenges r \<and>
    transactions r' = transactions r \<and> transport r' = transport r" for s
    using publish_frame [of s] by (auto simp: same_but_clock_def same_core_def)
  have wf: "wf_packet p" using assms(2) Decode_canonical by blast
  have peer: "handle_peer a p data ?r = Some (packet_error ''address_mismatch'' ?r)"
    using assms(4,5) by (simp add: handle_peer_def traffic_def metric_def Let_def)
  have old: "coAddress c \<noteq> a" if "hType (pHeader p) = PacketDisconnect" "map_of (transactions r) key = Some c" for key c
    using assms(6) [OF that(1)] that(2) by (auto dest: map_of_SomeD)
  have rd: "replayDisconnect a p ?r = Some ((False, p), ?r)" if "hType (pHeader p) = PacketDisconnect"
    using transaction_value [OF wf] old [OF that]
    by (auto simp: replayDisconnect_def traffic_def metric_def Let_def split: option.split)
  have "same_but_clock r (packet_error why ?r)" "same_but_clock r (malformed_packet why r)" for why
    by (rule same_but_clock_core, simp add: same_core_def traffic_def packet_error_def malformed_packet_def metric_def event_def Let_def)+
  then show ?thesis
    using assms(2,3) rd peer pub by (auto simp: handle_def handle_packet_def)
qed

theorem forged_sender_ignored_witness:
  "\<exists>r'. handle ''b'' (layout demo_keepalive) demo_peer = Some r' \<and> peers r' = peers demo_peer"
proof -
  have "Decode (layout demo_keepalive) = ok (with_lengths demo_keepalive)"
    using Decode_layout [OF demo_keepalive_wf] by (simp add: with_lengths_def)
  from forged_sender_ignored [OF demo_peer_inv this, of "new_peer 7 ''a'' ''N0CALL'' 0" "''b''"]
  show ?thesis by (auto simp: with_lengths_def demo_keepalive_def demo_peer_def new_peer_def zeroHeader_def)
qed

section \<open>Retransmissions and errors\<close>

lemma normalize_retry: "normalize (with_retry p) = normalize p"
proof -
  have "(f OR FlagRetry) AND NOT FlagRetry = f AND NOT FlagRetry" for f :: u16
    by (simp add: bit.conj_disj_distrib2)
  then show ?thesis by (simp add: normalize_def with_retry_def)
qed

lemma with_retry_request: "Find (with_retry p) typ = Find p typ" "transactionKey a (with_retry p) t = transactionKey a p t"
  by (simp_all add: with_retry_def Find_def transactionKey_def Let_def)

text \<open>A request that was carried out leaves its answer in the table.\<close>

lemma transact_stores:
  assumes "answers r r0" and "act (sort_extensions p) r = Some (response, r0)" and "refl_inv r"
    and "Find p TLVTransactionID = Some raw" and "Uint64 raw = Some t"
    and "map_of (transactions r) (transactionKey a p t) = None" and "transact a p act r = Some (True, r')"
  shows "\<exists>old. map_of (transactions r') (transactionKey a p t) = Some old \<and> coFingerprint old = encoded (normalize p) \<and>
    Encode response = ok (coResponse old) \<and> hType (pHeader response) \<noteq> PacketError"
proof -
  let ?key = "transactionKey a p t"
  let ?full = "int (length (transactions r)) \<ge> MaxCompletedTransactions (limits (engine r)) \<or>
    hSessionID (pHeader p) \<noteq> 0 \<and>
    int (length (filter (\<lambda>(k, _). HasPrefix k (decimal (unat (hSessionID (pHeader p))) @ ''/'')) (transactions r)))
      \<ge> oMaxCompletedTransactionsPerSession (options r)"
  have full: "\<not> ?full"
    using assms(4-7) by (auto simp: transact_def Let_def sort_extensions_def bind_eq_Some_conv)
  then have room: "int (length (transactions r)) < MaxCompletedTransactions (oLimits (options r))"
    using assms(3) by (auto simp: refl_inv_def)
  show ?thesis
  proof (cases rule: Encode_cases [of response])
    case (1 d)
    let ?t = "clock (engine r0) (readings (engine r0))"
    let ?c = "\<lparr>coFingerprint = encoded (normalize p), coResponse = d, coAddress = a, coAt = ?t\<rparr>"
    define r2 where "r2 = r0\<lparr>engine := (engine r0)\<lparr>readings := Suc (readings (engine r0))\<rparr>,
      transactions := AList.update ?key ?c (transactions r0)\<rparr>"
    have "\<exists>q. Decode d = ok q" using wire.dec_enc [of response d] 1 by auto
    then have "transactions_ok (options r0) (AList.update ?key ?c (transactions r0))"
      using assms(1) room by (auto simp: answers_def refl_inv_def transactions_ok_def map_simps)
    then have inv: "refl_inv r2"
      using answers_steady [OF assms(1)] by (auto simp: r2_def steady_def refl_inv_def)
    obtain sent r3 where e: "enqueueRaw a d r2 = (sent, r3)" by force
    have k3: "kept r2 r3" using enqueueRaw_kept [OF kept_refl [OF inv], of a d] by (simp add: e)
    from late_start_kept [OF k3, of "sort_extensions p"] obtain r4 where
      r4: "late_start (sort_extensions p) r3 = Some r4" "kept r2 r4" by blast
    have "hType (pHeader response) \<noteq> 0 \<and> sent \<and> hType (pHeader response) \<noteq> PacketError \<and> r' = r4"
      using assms(4-7) full assms(2) 1 e r4(1)
      by (auto simp: transact_def Let_def Clock_eq r2_def [symmetric] sort_extensions_def bind_eq_Some_conv
        split: if_splits bool.splits)
    then show ?thesis using r4(2) 1 by (auto simp: kept_def quiet_def r2_def map_simps)
  next
    case (2 err)
    then show ?thesis
      using assms(2,4-7) full by (auto simp: transact_def Let_def sort_extensions_def split: if_splits)
  qed
qed

lemma transact_replays:
  assumes "Find p TLVTransactionID = Some raw" and "Uint64 raw = Some t"
    and "map_of (transactions r) (transactionKey a p t) = Some old"
    and "coFingerprint old = encoded (normalize p)"
    and "length (ch_items (uControl (transport r))) < ch_cap (uControl (transport r))"
    and "accepted (Decode (coResponse old)) = Some response" and "hType (pHeader response) \<noteq> PacketError"
  shows "\<exists>r'. transact a p act r = Some (True, r') \<and>
    engine r' = engine r \<and> peers r' = peers r \<and> pending r' = pending r \<and> challenges r' = challenges r \<and>
    transactions r' = transactions r \<and>
    ch_items (uControl (transport r')) = ch_items (uControl (transport r)) @ [\<lparr>dAddress = a, dData = coResponse old\<rparr>]"
  using assms
  by (auto simp: transact_def Let_def enqueueRaw_def EnqueueControl_eq traffic_def metric_def split: option.split)

definition peer_request :: "Packet \<Rightarrow> bool" where
  "peer_request p \<longleftrightarrow> hType (pHeader p) \<in> {PacketKeepalive, PacketDisconnect, PacketStreamRequest, PacketStreamEnd}"

text \<open>
  C12. A request is carried out once. When the reflector carries out a new request of a peer, it stores the
  encoding of the answer; and in any later state that still has this entry and has room in
  its control queue, the same request, marked as a retry or not, is not carried out again: engine,
  peers, pending notifications, challenges and transactions stay, and exactly the stored answer is
  sent once more, byte for byte, to the address the request came from.
\<close>

theorem retransmission_replays:
  assumes "reachable r" and "peer_request p"
    and "Find p TLVTransactionID = Some raw" and "Uint64 raw = Some t"
    and "map_of (transactions r) (transactionKey a p t) = None"
    and "dispatch a sid p data r = Some (True, r1)"
    and "map_of (transactions r2) (transactionKey a p t) = map_of (transactions r1) (transactionKey a p t)"
    and "length (ch_items (uControl (transport r2))) < ch_cap (uControl (transport r2))"
    and "p' \<in> {p, with_retry p}"
  shows "\<exists>response r0 d r3. control sid (sort_extensions p) r = Some (response, r0) \<and> Encode response = ok d \<and>
    dispatch a sid p' data' r2 = Some (True, r3) \<and>
    engine r3 = engine r2 \<and> peers r3 = peers r2 \<and> pending r3 = pending r2 \<and> challenges r3 = challenges r2 \<and>
    transactions r3 = transactions r2 \<and>
    ch_items (uControl (transport r3)) = ch_items (uControl (transport r2)) @ [\<lparr>dAddress = a, dData = d\<rparr>]"
proof -
  have tr: "dispatch a sid q x s = transact a q (control sid) s" if "q \<in> {p, with_retry p}" for q x s
    using that assms(2) by (auto simp: dispatch_def peer_request_def with_retry_def Let_def)
  obtain response r0 where c: "control sid (sort_extensions p) r = Some (response, r0)" "answers r r0"
    using control_responds [OF reachable_inv [OF assms(1)], of sid "sort_extensions p"] by (auto simp: responds_def)
  obtain old where old: "map_of (transactions r1) (transactionKey a p t) = Some old" "coFingerprint old = encoded (normalize p)"
    "Encode response = ok (coResponse old)" "hType (pHeader response) \<noteq> PacketError"
    using transact_stores [where act = "control sid" and a = a, OF c(2,1) reachable_inv [OF assms(1)] assms(3,4,5)] assms(6) tr [of p]
    by auto
  have dec: "accepted (Decode (coResponse old)) = Some (with_lengths response)"
    using wire.dec_enc [of response "coResponse old"] old(3) by simp
  have same: "Find p' TLVTransactionID = Some raw" "transactionKey a p' t = transactionKey a p t" "normalize p' = normalize p"
    using assms(3,9) by (auto simp: with_retry_request normalize_retry)
  from transact_replays [of p' raw t r2 a old "with_lengths response" "control sid"] same assms(4,7,8) old dec
  obtain r3 where "transact a p' (control sid) r2 = Some (True, r3)" "engine r3 = engine r2" "peers r3 = peers r2"
    "pending r3 = pending r2" "challenges r3 = challenges r2" "transactions r3 = transactions r2"
    "ch_items (uControl (transport r3)) = ch_items (uControl (transport r2)) @ [\<lparr>dAddress = a, dData = coResponse old\<rparr>]"
    by (auto simp: with_lengths_def)
  with c(1) old(3) tr [OF assms(9)] show ?thesis by metis
qed

lemma demo_answer:
  defines "p \<equiv> with_lengths demo_keepalive"
  shows "\<exists>r1. dispatch ''a'' 7 p (layout demo_keepalive) demo = Some (True, r1) \<and>
    length (ch_items (uControl (transport r1))) < ch_cap (uControl (transport r1))"
proof -
  let ?res = "response_packet PacketKeepalive 7 p [tlv TLVTransactionID (PutUint64 9)]"
  have sp: "sort_extensions p = p" by (simp add: p_def with_lengths_def demo_keepalive_def sort_extensions_def)
  have f: "Find p TLVTransactionID = Some (PutUint64 9)" "found p TLVTransactionID = PutUint64 9"
    by (simp_all add: p_def with_lengths_def demo_keepalive_def Find_def found_def Uint64TLV_def tlv_def baseTLV_def)
  have h: "hType (pHeader p) = PacketKeepalive" "hSessionID (pHeader p) = 7"
    by (simp_all add: p_def with_lengths_def demo_keepalive_def)
  have wf: "wf_packet ?res" by (simp add: p_def demo_simps response_packet_def with_lengths_def demo_keepalive_def)
  have facts: "transactions demo = []" "peers demo = []" "sessions (engine demo) = []" "ch_items (uControl (transport demo)) = []"
    "ch_cap (uControl (transport demo)) = 64" "MaxCompletedTransactions (limits (engine demo)) = 1024"
    "oMaxCompletedTransactionsPerSession (options demo) = 64"
    by code_simp+
  have c: "control 7 p demo = Some (?res, demo)"
    by (simp add: control_def Let_def h f set_peer_def facts SetReady_def)
  have e: "Encode ?res = ok (layout ?res)" using wf by (simp add: Encode_ok_iff)
  have u: "Uint64 (PutUint64 9) = Some 9" by code_simp
  have n: "hType (pHeader ?res) = PacketKeepalive" by (simp add: response_packet_def)
  show ?thesis
    by (auto simp: dispatch_def transact_def Let_def h f u sp c e n facts Clock_eq enqueueRaw_def EnqueueControl_eq
      late_start_def traffic_def metric_def split: option.split)
qed

theorem retransmission_replays_witness:
  "\<exists>r1 r3 d. dispatch ''a'' 7 (with_lengths demo_keepalive) (layout demo_keepalive) demo = Some (True, r1) \<and>
    dispatch ''a'' 7 (with_retry (with_lengths demo_keepalive)) [] r1 = Some (True, r3) \<and>
    engine r3 = engine r1 \<and> transactions r3 = transactions r1 \<and>
    ch_items (uControl (transport r3)) = ch_items (uControl (transport r1)) @ [\<lparr>dAddress = ''a'', dData = d\<rparr>]"
proof -
  let ?p = "with_lengths demo_keepalive"
  obtain r1 where r1: "dispatch ''a'' 7 ?p (layout demo_keepalive) demo = Some (True, r1)"
    "length (ch_items (uControl (transport r1))) < ch_cap (uControl (transport r1))"
    using demo_answer by blast
  have "peer_request ?p" by (simp add: peer_request_def with_lengths_def demo_keepalive_def)
  moreover have "Find ?p TLVTransactionID = Some (PutUint64 9)"
    by (simp add: with_lengths_def demo_keepalive_def Find_def Uint64TLV_def tlv_def baseTLV_def)
  moreover have "Uint64 (PutUint64 9) = Some 9" by code_simp
  moreover have "transactions demo = []" by code_simp
  then have "map_of (transactions demo) (transactionKey ''a'' ?p 9) = None" by simp
  ultimately show ?thesis
    using retransmission_replays [OF demo_reachable _ _ _ _ r1(1) refl r1(2), of "PutUint64 9" 9 "with_retry ?p" "[]"] r1(1)
    by (metis insertCI)
qed

lemma encoded_wf: "wf_packet p \<Longrightarrow> encoded p = layout p"
  by (simp add: encoded_def Encode_wf)

lemma length_layout_sort: "length (layout (sort_extensions p)) = length (layout p)"
proof -
  have "sum_list (map tlvSizeOf (sort_key tType (pExtensions p))) = sum_list (map tlvSizeOf (pExtensions p))"
    by (metis mset_map mset_sort sum_mset_sum_list)
  then show ?thesis by (simp add: length_layout headerLengthOf_def sort_extensions_def)
qed

lemma sendError_room:
  assumes "wf_packet p" and "length (ch_items (uControl (transport r))) < ch_cap (uControl (transport r))"
  shows "\<exists>r'. sendError a p code r = Some r' \<and> engine r' = engine r \<and> peers r' = peers r \<and> pending r' = pending r \<and>
    challenges r' = challenges r \<and> transactions r' = transactions r \<and>
    (ch_items (uControl (transport r')) = ch_items (uControl (transport r)) \<or>
     hSessionID (pHeader p) \<noteq> 0 \<and>
     (\<exists>d. ch_items (uControl (transport r')) = ch_items (uControl (transport r)) @ [d] \<and>
        dAddress d = a \<and> length (dData d) \<le> length (layout p)))"
proof (cases "hSessionID (pHeader p) = 0 \<or> length (encoded (errorResponse p code)) > length (encoded p)")
  case True
  then show ?thesis by (auto simp: sendError_def Let_def)
next
  case False
  show ?thesis
  proof (cases rule: Encode_cases [of "errorResponse p code"])
    case (1 d)
    then have "length d \<le> length (layout p)"
      using False encoded_wf [OF assms(1)] by (simp add: encoded_def)
    with False 1 assms(2) show ?thesis
      by (simp add: sendError_def Let_def sendControl_def sendControl_with_def EnqueueControl_eq traffic_def metric_def)
  next
    case (2 e)
    with False show ?thesis by (simp add: sendError_def Let_def sendControl_def sendControl_with_def)
  qed
qed

text \<open>
  No amplification by refusals: a request whose transaction conflicts with a completed one,
  or that finds the table of transactions full, is not applied and changes nothing; what it
  causes to be sent is at most one datagram, to its sender, that is not longer than the
  datagram it came in, and only if it names a session. (The control queue is taken to have
  room; a full one overloads the peer.)
\<close>

theorem refusal_not_amplified:
  assumes "Decode data = ok p" and "Find p TLVTransactionID = Some raw" and "Uint64 raw = Some t"
    and "case map_of (transactions r) (transactionKey a p t) of
           Some old \<Rightarrow> coFingerprint old \<noteq> encoded (normalize p)
         | None \<Rightarrow> int (length (transactions r)) \<ge> MaxCompletedTransactions (limits (engine r))"
    and "length (ch_items (uControl (transport r))) < ch_cap (uControl (transport r))"
  shows "\<exists>r'. transact a p apply r = Some (False, r') \<and> engine r' = engine r \<and> peers r' = peers r \<and>
    pending r' = pending r \<and> challenges r' = challenges r \<and> transactions r' = transactions r \<and>
    (ch_items (uControl (transport r')) = ch_items (uControl (transport r)) \<or>
     hSessionID (pHeader p) \<noteq> 0 \<and>
     (\<exists>d. ch_items (uControl (transport r')) = ch_items (uControl (transport r)) @ [d] \<and>
        dAddress d = a \<and> length (dData d) \<le> length data))"
proof -
  have wf: "wf_packet p" "layout p = data" using assms(1) Decode_canonical by blast+
  have e: "\<exists>r'. sendError a (sort_extensions p) code (packet_error why r) = Some r' \<and> engine r' = engine r \<and>
    peers r' = peers r \<and> pending r' = pending r \<and> challenges r' = challenges r \<and> transactions r' = transactions r \<and>
    (ch_items (uControl (transport r')) = ch_items (uControl (transport r)) \<or>
     hSessionID (pHeader p) \<noteq> 0 \<and>
     (\<exists>d. ch_items (uControl (transport r')) = ch_items (uControl (transport r)) @ [d] \<and>
        dAddress d = a \<and> length (dData d) \<le> length data))" for code why
    using sendError_room [OF wf_packet_sort [OF wf(1)], of "packet_error why r" a code] assms(5)
    by (simp add: packet_error_def metric_def length_layout_sort wf(2))
  show ?thesis
    using assms(2-4) e
    by (auto simp: transact_def Let_def split: option.splits) (metis bind.bind_lunit)+
qed

theorem refusal_not_amplified_witness:
  "\<exists>r'. transact ''a'' (with_lengths demo_keepalive) (\<lambda>p r. None)
      (demo_peer\<lparr>transactions := [(''7/5/9'', \<lparr>coFingerprint = [], coResponse = [], coAddress = ''a'', coAt = 0\<rparr>)]\<rparr>) = Some (False, r') \<and>
    (ch_items (uControl (transport r')) = [] \<or>
     (\<exists>d. ch_items (uControl (transport r')) = [d] \<and> dAddress d = ''a'' \<and> length (dData d) \<le> length (layout demo_keepalive)))"
proof -
  let ?p = "with_lengths demo_keepalive"
  let ?r = "demo_peer\<lparr>transactions := [(''7/5/9'', \<lparr>coFingerprint = [], coResponse = [], coAddress = ''a'', coAt = 0\<rparr>)]\<rparr>"
  have d: "Decode (layout demo_keepalive) = ok ?p"
    using Decode_layout [OF demo_keepalive_wf] by (simp add: with_lengths_def)
  have f: "Find ?p TLVTransactionID = Some [0, 0, 0, 0, 0, 0, 0, 9]" by code_simp
  have u: "Uint64 [0, 0, 0, 0, 0, 0, 0, 9] = Some 9" by code_simp
  have k: "transactionKey ''a'' ?p 9 = ''7/5/9''" by code_simp
  have "normalize ?p = ?p"
    by (simp add: normalize_def sort_extensions_def with_lengths_def demo_keepalive_def zeroHeader_def)
  then have n: "encoded (normalize ?p) \<noteq> []"
    using encode_decode [OF d] length_layout [of demo_keepalive] by (auto simp: encoded_def headerLengthOf_def)
  have q: "length (ch_items (uControl (transport demo))) < ch_cap (uControl (transport demo))"
    "ch_items (uControl (transport demo)) = []" by code_simp+
  show ?thesis
    using refusal_not_amplified [OF d f u, of ?r "''a''" "\<lambda>p r. None"] q n by (auto simp: k demo_peer_def)
qed

section \<open>Media\<close>

lemma recipients_of_set:
  "set (recipients_of fs r) = {peAddress q | x q. x \<in> set fs \<and> map_of (peers r) (foSessionID x) = Some q \<and> peReceiving q}"
  by (force simp: recipients_of_def map_filter_def split: option.splits if_splits)

lemma enqueue_batch_media:
  "ch_items (uMedia (transport (enqueue_batch p raw rs r))) = ch_items (uMedia (transport r)) @
     (if uMediaEnabled (transport r) \<and> length (ch_items (uMedia (transport r))) < ch_cap (uMedia (transport r))
      then [\<lparr>mbData = raw, mbRecipients = rs, mbKind = (if hType (pHeader p) = PacketData then MediaData else MediaAudio)\<rparr>]
      else [])"
  by (simp add: enqueue_batch_def EnqueueMedia_def try_send_def queueDrop_def metric_def event_def Let_def)

text \<open>
  C11. Media is forwarded verbatim to the listeners: a media packet is accepted exactly when it
  comes from the address of the session that holds the floor, names its stream and carries an
  acceptable sequence number. Then one batch is queued (if the media queue takes it and
  somebody listens) whose data is the received datagram byte for byte and whose recipients
  are the addresses of the ready sessions other than the sender whose stream start has been
  sent; a refused packet queues nothing.
\<close>

theorem media_forwarded_verbatim:
  assumes "refl_inv r"
  shows "\<exists>b r' rs. media sid a p data r = (b, r') \<and>
    b = (\<exists>f. may_transmit (engine r) sid a (hStreamID (pHeader p)) f \<and> accepts f (hSequence (pHeader p))) \<and>
    set rs = {peAddress q | q lid s. b \<and> lid \<noteq> sid \<and> map_of (sessions (engine r)) lid = Some s \<and> sReady s \<and>
      map_of (peers r) lid = Some q \<and> peReceiving q} \<and>
    ch_items (uMedia (transport r')) = ch_items (uMedia (transport r)) @
      (if rs \<noteq> [] \<and> uMediaEnabled (transport r) \<and> length (ch_items (uMedia (transport r))) < ch_cap (uMedia (transport r))
       then [\<lparr>mbData = data, mbRecipients = rs, mbKind = (if hType (pHeader p) = PacketData then MediaData else MediaAudio)\<rparr>]
       else [])"
proof -
  let ?h = "pHeader p"
  obtain s0 n0 where s0: "EngineSnapshot r = (s0, r\<lparr>engine := (engine r)\<lparr>readings := n0\<rparr>\<rparr>)"
    using EngineSnapshot_eq [of r] by auto
  define e0 where "e0 = (engine r)\<lparr>readings := n0\<rparr>"
  obtain res e where m: "Media sid a (hStreamID ?h) (hSequence ?h) (hTimestamp ?h) (pPayload p) e0 = (res, e)" by force
  have may: "may_transmit e0 sid a st f = may_transmit (engine r) sid a st f" for st f
    by (simp add: e0_def may_transmit_def)
  have acc: "(\<exists>fs. res = Inr fs) \<longleftrightarrow> (\<exists>f. may_transmit (engine r) sid a (hStreamID ?h) f \<and> accepts f (hSequence ?h))"
    using Media_accepts_iff [of sid a "hStreamID ?h" "hSequence ?h" "hTimestamp ?h" "pPayload p" e0]
    unfolding may by (simp add: m)
  show ?thesis
  proof (cases res)
    case (Inl err)
    then have "media sid a p data r = (False, r\<lparr>engine := e\<rparr>)"
      by (simp add: media_def s0 e0_def [symmetric] m Let_def)
    with acc Inl show ?thesis by (intro exI [of _ False] exI [of _ "[]"]) simp
  next
    case (Inr fs)
    let ?r1 = "r\<lparr>engine := e\<rparr>"
    obtain s1 n1 where s1: "EngineSnapshot ?r1 = (s1, ?r1\<lparr>engine := e\<lparr>readings := n1\<rparr>\<rparr>)"
      using EngineSnapshot_eq [of ?r1] by auto
    define r2 where "r2 = (if IsZero (fsStartedAt (snFloor s0)) \<and> \<not> IsZero (fsStartedAt (snFloor s1)) \<and>
        fsSessionID (snFloor s1) = sid \<and> fsStreamID (snFloor s1) = hStreamID ?h
      then event ''stream_active'' ''info'' [(''session_id'', DSession sid), (''stream_id'', DStream (hStreamID ?h))]
        (?r1\<lparr>engine := e\<lparr>readings := n1\<rparr>\<rparr>) else ?r1\<lparr>engine := e\<lparr>readings := n1\<rparr>\<rparr>)"
    have r2: "transport r2 = transport r" "peers r2 = peers r" by (simp_all add: r2_def event_def)
    have med: "media sid a p data r =
        (True, if recipients_of fs r2 = [] then r2 else enqueue_batch p data (recipients_of fs r2) r2)"
      by (simp add: media_def s0 e0_def [symmetric] m Inr s1 Let_def r2_def)
    from m [unfolded Inr] obtain s where
      fs: "fs = fanout sid (hStreamID ?h) (hSequence ?h) (hTimestamp ?h) (pPayload p)
        (AList.update sid (s\<lparr>sLast := clock e0 (readings e0)\<rparr>) (sessions (engine r)))"
      by (elim Media_okE) (auto simp: e0_def)
    have "wf_map (sessions (engine r))" using assms by (simp add: refl_inv_def engine_inv_def)
    then have "set (recipients_of fs r2) = {peAddress q | q lid s. lid \<noteq> sid \<and> map_of (sessions (engine r)) lid = Some s \<and>
        sReady s \<and> map_of (peers r) lid = Some q \<and> peReceiving q}"
      unfolding recipients_of_set r2 fs by (auto simp: fanout_set map_simps) fastforce+
    with acc Inr med show ?thesis
      by (intro exI [of _ True] exI [of _ "snd (media sid a p data r)"] exI [of _ "recipients_of fs r2"])
         (simp add: r2 enqueue_batch_media)
  qed
qed

text \<open>Two ready peers; session 7 holds the floor and session 8 listens.\<close>

definition demo_talk :: Reflector where
  "demo_talk = demo\<lparr>engine := (engine demo)\<lparr>
       sessions := [(7, \<lparr>sAddress = ''a'', sCallsign = ''N0CALL'', sReady = True, sLast = 0\<rparr>),
         (8, \<lparr>sAddress = ''b'', sCallsign = ''N0CALL'', sReady = True, sLast = 0\<rparr>)],
       floor_of := Some \<lparr>fOwner = 7, fStream = 3, fSource = ''N0CALL'', fGranted = 0, fFirstMedia = 0,
         fLastMedia = 0, fPrior = 0, fTimestamp = 0, fHasPrior = False\<rparr>\<rparr>,
     peers := [(7, (new_peer 7 ''a'' ''N0CALL'' 0)\<lparr>peReady := True\<rparr>),
       (8, (new_peer 8 ''b'' ''N0CALL'' 0)\<lparr>peReady := True, peNotified := True, peReceiving := True\<rparr>)]\<rparr>"

lemma demo_talk_inv: "refl_inv demo_talk"
proof -
  have "draining (engine demo) = False" "MaxClients (limits (engine demo)) = 100" by code_simp+
  moreover have "engine_inv (engine demo)" using reachable_inv [OF demo_reachable] by (simp only: refl_inv_def)
  ultimately have "engine_inv (engine demo_talk)"
    by (simp add: demo_talk_def engine_inv_def floor_ok_def wf_map_def IsZero_def)
  with reachable_inv [OF demo_reachable] demo_call show ?thesis
    by (simp add: demo_talk_def refl_inv_def sync_ok_def peers_ok_def new_peer_def wf_map_def)
qed

definition demo_audio :: Packet where
  "demo_audio = \<lparr>pHeader = zeroHeader\<lparr>hVersion := 1, hType := PacketAudio, hSessionID := 7, hStreamID := 3\<rparr>,
     pExtensions = [], pPayload = [1, 2]\<rparr>"

theorem media_forwarded_verbatim_witness:
  "\<exists>r' rs. media 7 ''a'' demo_audio (layout demo_audio) demo_talk = (True, r') \<and> set rs = {''b''} \<and>
    ch_items (uMedia (transport r')) = [\<lparr>mbData = layout demo_audio, mbRecipients = rs, mbKind = MediaAudio\<rparr>]"
proof -
  have q: "uMediaEnabled (transport demo)" "ch_items (uMedia (transport demo)) = []" "0 < ch_cap (uMedia (transport demo))"
    "draining (engine demo) = False" by code_simp+
  have m: "\<exists>f. may_transmit (engine demo_talk) 7 ''a'' (hStreamID (pHeader demo_audio)) f \<and> accepts f (hSequence (pHeader demo_audio))"
    by (simp add: may_transmit_def accepts_def demo_talk_def demo_audio_def zeroHeader_def IsZero_def q)
  obtain t r' rs where med: "media 7 ''a'' demo_audio (layout demo_audio) demo_talk = (t, r')"
    and t: "t = (\<exists>f. may_transmit (engine demo_talk) 7 ''a'' (hStreamID (pHeader demo_audio)) f \<and> accepts f (hSequence (pHeader demo_audio)))"
    and rs: "set rs = {peAddress qa | qa lid s. t \<and> lid \<noteq> 7 \<and> map_of (sessions (engine demo_talk)) lid = Some s \<and> sReady s \<and>
      map_of (peers demo_talk) lid = Some qa \<and> peReceiving qa}"
    and b: "ch_items (uMedia (transport r')) = ch_items (uMedia (transport demo_talk)) @
      (if rs \<noteq> [] \<and> uMediaEnabled (transport demo_talk) \<and> length (ch_items (uMedia (transport demo_talk))) < ch_cap (uMedia (transport demo_talk))
       then [\<lparr>mbData = layout demo_audio, mbRecipients = rs, mbKind = (if hType (pHeader demo_audio) = PacketData then MediaData else MediaAudio)\<rparr>]
       else [])"
    using media_forwarded_verbatim [OF demo_talk_inv, of 7 "''a''" demo_audio "layout demo_audio"]
    by (elim exE conjE)
  have "t" using m t by simp
  then have set: "set rs = {''b''}"
    unfolding rs by (auto simp: demo_talk_def new_peer_def split: if_splits)
  with b q have "ch_items (uMedia (transport r')) = [\<lparr>mbData = layout demo_audio, mbRecipients = rs, mbKind = MediaAudio\<rparr>]"
    by (cases rs) (simp_all add: demo_talk_def demo_audio_def)
  with med set \<open>t\<close> show ?thesis by (intro exI conjI) simp_all
qed

end
