(* ===== verification/ReflectorLive.thy ===== *)
theory ReflectorLive
  imports ReflectorProps
begin

text \<open>
  Liveness of the notifications: while nobody holds the floor no notification is added, every
  timer that fires after their deadlines brings them one attempt further, and after four such
  timers none is left.
\<close>

section \<open>Without a holder of the floor, notifications only go\<close>

definition fades :: "Reflector \<Rightarrow> Reflector \<Rightarrow> bool" where
  "fades r r' \<longleftrightarrow> floor_of (engine r') = None \<and> map_of (pending r') \<subseteq>\<^sub>m map_of (pending r)"

lemma fades_refl: "floor_of (engine r) = None \<Longrightarrow> fades r r"
  by (simp add: fades_def)

lemma fades_trans: "fades r0 r1 \<Longrightarrow> fades r1 r2 \<Longrightarrow> fades r0 r2"
  unfolding fades_def by (auto intro: map_le_trans)

lemma fades_idle: "fades r r' \<Longrightarrow> floor_of (engine r') = None"
  by (simp add: fades_def)

lemma fades_pending: "fades r r' \<Longrightarrow> map_of (pending r') key = Some n \<Longrightarrow> map_of (pending r) key = Some n"
  by (auto simp: fades_def map_le_def dom_def)

lemma fades_core: "fades r0 r \<Longrightarrow> same_core r r' \<Longrightarrow> fades r0 r'"
  by (simp add: fades_def same_core_def)

lemma pending_filter_le:
  assumes "refl_inv r"
  shows "map_of (filter (\<lambda>(key, n). P key) (pending r)) \<subseteq>\<^sub>m map_of (pending r)"
proof -
  have "wf_map (pending r)" using assms by (simp add: refl_inv_def pending_ok_def)
  then show ?thesis
    using map_of_filter_wf [of "pending r" "\<lambda>key n. P key"] by (auto simp: map_le_def split: option.splits if_splits)
qed

lemma disconnectPeer_idle:
  assumes "floor_of (engine r) = None"
  shows "\<exists>r'. disconnectPeer sid why r = (None, r') \<and> fades r r'"
proof -
  have d: "fst (Disconnect sid (engine r)) = None" "floor_of (snd (Disconnect sid (engine r))) = None"
    using assms floor_None_Disconnect [OF assms, of sid] Disconnect_frame(4) [of sid "engine r"] by auto
  then show ?thesis
    using assms by (auto simp: disconnectPeer_def event_def fades_def split: option.split prod.split)
qed

lemma controlOverload_fades:
  assumes "refl_inv r" and "floor_of (engine r) = None"
  shows "\<exists>r'. controlOverload sid r = Some r' \<and> fades r r'"
proof -
  obtain r1 where d: "disconnectPeer sid ''control_overload'' r = (None, r1)" and f: "fades r r1"
    using disconnectPeer_idle [OF assms(2)] by blast
  have inv: "refl_inv r1"
    using kept_disconnectPeer [OF kept_refl [OF assms(1)], of sid "''control_overload''"] d by (simp add: kept_def)
  let ?r2 = "r1\<lparr>pending := filter (\<lambda>(key, _). nkListener key \<noteq> sid) (pending r1)\<rparr>"
  have "fades r1 ?r2"
    using f pending_filter_le [OF inv, of "\<lambda>key. nkListener key \<noteq> sid"] by (simp add: fades_def)
  then have "fades r (event x y z ?r2)" for x y z
    using f fades_trans fades_core same_core_event by blast
  with d show ?thesis by (simp add: controlOverload_def controlOverload_with_def Let_def)
qed

lemma sendControl_fades:
  assumes "refl_inv r" and "floor_of (engine r) = None"
  shows "\<exists>r'. sendControl a p r = Some r' \<and> fades r r'"
proof (cases rule: Encode_cases [of p])
  case (1 d)
  obtain sent u where e: "EnqueueControl \<lparr>dAddress = a, dData = d\<rparr> (transport r) = (sent, u)" by force
  let ?r1 = "r\<lparr>transport := u\<rparr>"
  have k1: "kept r ?r1" using kept_enqueue [OF kept_refl [OF assms(1)], of "\<lparr>dAddress = a, dData = d\<rparr>"] by (simp add: e)
  have f1: "fades r ?r1" using assms(2) by (simp add: fades_def)
  let ?r2 = "queueDrop ''server_control'' ''control'' 1 1 ?r1"
  have k2: "kept r ?r2" using k1 same_core_queueDrop by (rule kept_same_core)
  have f2: "fades r ?r2" using f1 same_core_queueDrop by (rule fades_core)
  have "\<exists>r'. controlOverload sid ?r2 = Some r' \<and> fades r r'" for sid
    using controlOverload_fades [OF kept_inv [OF k2] fades_idle [OF f2], of sid] f2 by (blast intro: fades_trans)
  then have over: "\<exists>r'. controlOverload_with notifyEnd sid ?r2 = Some r' \<and> fades r r'" for sid
    by (simp add: controlOverload_def)
  show ?thesis
    using over f2 fades_core [OF f1 same_core_traffic]
    by (auto simp: sendControl_def sendControl_with_def 1 e Let_def split: option.split)
next
  case (2 err)
  with fades_refl [OF assms(2)] show ?thesis by (simp add: sendControl_def sendControl_with_def)
qed

section \<open>One timer\<close>

lemma tick_peer_fades:
  assumes "floor_of (engine r) = None"
  shows "\<exists>r'. tick_peer t sid q r = Some r' \<and> fades r r'"
proof -
  let ?m = "metric ''opusref_timeouts_total'' [(''kind'', ''session'')] 1 r"
  have f: "fades r ?m" using fades_refl [OF assms] same_core_metric by (rule fades_core)
  obtain r1 where "disconnectPeer sid ''session_timeout'' ?m = (None, r1)" "fades ?m r1"
    using disconnectPeer_idle [OF fades_idle [OF f]] by blast
  with f fades_refl [OF assms] show ?thesis by (auto simp: tick_peer_def intro: fades_trans)
qed

lemma tick_sessions_idle:
  "floor_of e = None \<Longrightarrow> fst (tick_sessions t ss e) = None \<and> floor_of (snd (tick_sessions t ss e)) = None"
proof (induction ss arbitrary: e)
  case (Cons p ss)
  obtain sid s where p: "p = (sid, s)" by force
  have "floor_of (snd (Disconnect sid e)) = None"
    using Cons.prems Disconnect_frame(4) [of sid e] by auto
  with Cons floor_None_Disconnect [OF Cons.prems] show ?case
    by (simp add: p tick_sessions_Cons del: tick_sessions.simps(2))
qed simp

lemma tick_engine_fades:
  assumes "floor_of (engine r) = None"
  shows "\<exists>r'. tick_engine r = Some r' \<and> fades r r'"
proof -
  have "fst (Tick (engine r)) = None \<and> floor_of (snd (Tick (engine r))) = None"
    using tick_sessions_idle [of "(engine r)\<lparr>readings := n\<rparr>" for n] assms
    by (simp add: Tick_eq Let_def tick_floor_def)
  then show ?thesis
    by (cases "Tick (engine r)") (simp add: tick_engine_def fades_def)
qed

text \<open>What a timer leaves of the notifications: those whose turn has not come, and those sent once more.\<close>

definition aged :: "nat \<Rightarrow> notificationKey list \<Rightarrow> Reflector \<Rightarrow> Reflector \<Rightarrow> bool" where
  "aged k ks r r' \<longleftrightarrow> floor_of (engine r') = None \<and> refl_inv r' \<and>
     (\<forall>key n. map_of (pending r') key = Some n \<longrightarrow>
        key \<notin> set ks \<and> map_of (pending r) key = Some n \<or> key \<in> set ks \<and> noAttempt n > k)"

lemma tick_pending_aged:
  assumes "refl_inv r" and "floor_of (engine r) = None" and "map_of (pending r) key = Some n"
    and "noNext n \<le> t" and "noAttempt n \<ge> k"
  shows "\<exists>r'. tick_pending t key n r = Some r' \<and> aged k [key] r r'"
proof -
  obtain r' where r': "tick_pending t key n r = Some r'" "refl_inv r'"
    using tick_pending_goes [OF assms(1,3), of t] by (auto simp: goes_def steady_def)
  have ok: "note_ok key n" and wf: "wf_map (pending r)"
    using assms(1,3) by (auto simp: refl_inv_def pending_ok_def)
  show ?thesis
  proof (cases "noAttempt n \<ge> 4")
    case True
    then have "aged k [key] r r'"
      using assms(2,4) r' by (auto simp: tick_pending_def Let_def aged_def metric_def map_simps split: if_splits)
    with r' show ?thesis by blast
  next
    case False
    let ?p = "(noPacket n)\<lparr>pHeader := (pHeader (noPacket n))\<lparr>hFlags := hFlags (pHeader (noPacket n)) OR FlagRetry\<rparr>\<rparr>"
    obtain u where u: "(if noAttempt n + 1 < 4 then do { d \<leftarrow> at retry_delays (noAttempt n); Some (t + d) } else Some t) = Some u"
      using ok retry_delay_in_range [of "noAttempt n"] by (cases "noAttempt n < 3") (auto simp: note_ok_def)
    let ?r1 = "r\<lparr>pending := AList.update key \<lparr>noPacket = ?p, noAttempt = noAttempt n + 1, noNext = u\<rparr> (pending r)\<rparr>"
    have eq: "tick_pending t key n r = (case map_of (peers ?r1) (nkListener key) of
        None \<Rightarrow> Some ?r1 | Some q \<Rightarrow> sendControl (peAddress q) ?p ?r1)"
      using False assms(4) u
      by (cases "noAttempt n < 3") (auto simp: tick_pending_def Let_def bind_eq_Some_conv split: option.split)
    have "pending_ok (options r) (pending r)" using assms(1) by (simp only: refl_inv_def)
    then have i1: "refl_inv ?r1"
      using pending_ok_replace [OF _ note_ok_retry [OF ok] assms(3)] False
      by (intro kept_inv [OF kept_pending [OF kept_refl [OF assms(1)]]]) simp
    have "fades ?r1 r'"
      using r'(1) sendControl_fades [OF i1] fades_refl [of ?r1] assms(2) unfolding eq
      by (auto split: option.splits) (metis option.inject)
    moreover from this have "key' \<noteq> key \<and> map_of (pending r) key' = Some m \<or> key' = key \<and> noAttempt m > k"
      if "map_of (pending r') key' = Some m" for key' m
      using fades_pending [OF _ that, of ?r1] assms(5) by (auto simp: map_simps split: if_splits)
    ultimately have "aged k [key] r r'"
      using r'(2) by (simp add: aged_def fades_idle)
    with r' show ?thesis by blast
  qed
qed

lemma aged_step: "aged k ks r r1 \<Longrightarrow> aged k [key] r1 r2 \<Longrightarrow> aged k (key # ks) r r2"
  unfolding aged_def by fastforce

lemma aged_skip: "aged k ks r r1 \<Longrightarrow> map_of (pending r1) key = None \<Longrightarrow> aged k (key # ks) r r1"
  unfolding aged_def by auto

lemma pending_loop_aged:
  assumes "aged k done r0 r" and "\<forall>key n. map_of (pending r0) key = Some n \<longrightarrow> noNext n \<le> t \<and> noAttempt n \<ge> k"
    and "distinct (ks @ done)"
  shows "\<exists>r'. range_loop pending (tick_pending t) ks r = Some r' \<and> aged k (rev ks @ done) r0 r'"
  using assms(1,3)
proof (induction ks arbitrary: r "done")
  case (Cons key ks)
  show ?case
  proof (cases "map_of (pending r) key")
    case None
    with Cons.IH [OF aged_skip [OF Cons.prems(1) None]] Cons.prems(2) show ?thesis by simp
  next
    case (Some n)
    have "map_of (pending r0) key = Some n" using Cons.prems Some by (auto simp: aged_def)
    with assms(2) Some Cons.prems(1) tick_pending_aged [of r key n t k] obtain r1
      where r1: "tick_pending t key n r = Some r1" "aged k [key] r r1" by (auto simp: aged_def)
    from Cons.IH [OF aged_step [OF Cons.prems(1) r1(2)]] Cons.prems(2) Some r1(1) show ?thesis by simp
  qed
qed simp

text \<open>Every notification is due at the next reading of the clock.\<close>

definition due :: "Reflector \<Rightarrow> bool" where
  "due r \<longleftrightarrow> (\<forall>(_, n) \<in> set (pending r). noNext n \<le> clock (engine r) (readings (engine r)))"

lemma fades_loop:
  assumes "\<And>k v s. floor_of (engine s) = None \<Longrightarrow> \<exists>s'. body k v s = Some s' \<and> fades s s'"
    and "floor_of (engine r) = None"
  shows "\<exists>r'. range_loop m body ks r = Some r' \<and> fades r r'"
proof (rule range_loop_keeps [where P = "fades r"])
  fix k v s
  assume "fades r s"
  with assms(1) [OF fades_idle, of r s k v] show "\<exists>s'. body k v s = Some s' \<and> fades r s'"
    by (blast intro: fades_trans)
qed (rule fades_refl [OF assms(2)])

lemma Clock_fades: "floor_of (engine r) = None \<Longrightarrow> fades r (snd (Clock r))"
  by (simp add: Clock_eq fades_def)

lemma tick_ages:
  assumes "refl_inv r" and "floor_of (engine r) = None" and "due r"
    and "\<forall>key n. map_of (pending r) key = Some n \<longrightarrow> noAttempt n \<ge> k" and "tick r = Some r'"
  shows "refl_inv r' \<and> floor_of (engine r') = None \<and> (\<forall>key n. map_of (pending r') key = Some n \<longrightarrow> noAttempt n > k)"
proof -
  let ?t = "clock (engine r) (readings (engine r))"
  let ?r1 = "r\<lparr>engine := (engine r)\<lparr>readings := Suc (readings (engine r))\<rparr>\<rparr>"
  let ?m = "metric ''opusref_timeouts_total'' [(''kind'', ''challenge'')] 1"
  define r2 where "r2 = fold (\<lambda>_. ?m) (filter (\<lambda>(_, c). Sub ?t (cAt c) > 10 * Second) (challenges ?r1)) ?r1"
  define r3 where "r3 = r2\<lparr>challenges := filter (\<lambda>(_, c). \<not> Sub ?t (cAt c) > 10 * Second) (challenges r2),
    transactions := filter (\<lambda>(_, c). \<not> Sub ?t (coAt c) > 30 * Second) (transactions r2)\<rparr>"
  have s2: "steady r r2"
    unfolding r2_def using steady_refl [OF assms(1)]
    by (intro steady_same_core [OF _ same_core_fold]) (simp_all add: steady_def core_simps assms(1))
  then have i3: "refl_inv r3" unfolding r3_def by (intro steady_inv [OF expire_steady])
  have c2: "same_core ?r1 r2" unfolding r2_def by (rule same_core_fold) (simp add: core_simps)
  then have f3: "fades r r3" using assms(2) by (simp add: r3_def fades_def same_core_def)
  obtain r4 where r4: "range_loop peers (tick_peer ?t) (map fst (peers r3)) r3 = Some r4" "fades r3 r4"
    using fades_loop [of "tick_peer ?t" r3 peers "map fst (peers r3)"] tick_peer_fades fades_idle [OF f3] by blast
  have i4: "refl_inv r4"
    using goes_loop [of peers "tick_peer ?t" r3 "map fst (peers r3)"] tick_peer_goes i3 r4(1)
    by (auto simp: goes_def steady_def)
  obtain r5 where r5: "tick_engine r4 = Some r5" "fades r4 r5"
    using tick_engine_fades [OF fades_idle [OF r4(2)]] by blast
  have i5: "refl_inv r5" using tick_engine_goes [OF i4] r5(1) by (simp add: goes_def steady_def)
  have f5: "fades r r5" using f3 r4(2) r5(2) by (blast intro: fades_trans)
  have old: "\<forall>key n. map_of (pending r5) key = Some n \<longrightarrow> noNext n \<le> ?t \<and> noAttempt n \<ge> k"
    using fades_pending [OF f5] assms(3,4) by (fastforce simp: due_def dest: map_of_SomeD)
  have "aged k [] r5 r5" using i5 f5 by (simp add: aged_def fades_def)
  moreover have "distinct (map fst (pending r5) @ [])" using i5 by (simp add: refl_inv_def pending_ok_def wf_map_def)
  ultimately obtain r6 where r6: "range_loop pending (tick_pending ?t) (map fst (pending r5)) r5 = Some r6"
    "aged k (rev (map fst (pending r5)) @ []) r5 r6"
    using pending_loop_aged [OF _ old] by blast
  have "r' = publish r6"
    using assms(5) unfolding tick_def Clock_eq Let_def prod.case r2_def [symmetric] r3_def [symmetric]
    by (simp add: r4(1) r5(1) r6(1))
  moreover have "noAttempt n > k" if "map_of (pending r6) key = Some n" for key n
    using r6(2) that by (auto simp: aged_def) (metis map_of_eq_None_iff option.distinct(1))
  ultimately show ?thesis
    using r6(2) publish_frame [of r6] by (auto simp: aged_def refl_inv_publish)
qed

text \<open>Timers that each fire when everything pending is due.\<close>

inductive due_ticks :: "nat \<Rightarrow> Reflector \<Rightarrow> Reflector \<Rightarrow> bool" where
  no_tick: "due_ticks 0 r r"
| one_tick: "due r \<Longrightarrow> tick r = Some r1 \<Longrightarrow> due_ticks n r1 r2 \<Longrightarrow> due_ticks (Suc n) r r2"

lemma due_ticks_age:
  assumes "due_ticks n r r'" and "refl_inv r" and "floor_of (engine r) = None"
    and "\<forall>key m. map_of (pending r) key = Some m \<longrightarrow> noAttempt m \<ge> k"
  shows "refl_inv r' \<and> (\<forall>key m. map_of (pending r') key = Some m \<longrightarrow> noAttempt m \<ge> k + n)"
  using assms
proof (induction arbitrary: k rule: due_ticks.induct)
  case (one_tick r r1 n r2)
  from tick_ages [OF one_tick.prems(1,2) one_tick.hyps(1) one_tick.prems(3) one_tick.hyps(2)]
  have "refl_inv r1" "floor_of (engine r1) = None" "\<forall>key m. map_of (pending r1) key = Some m \<longrightarrow> noAttempt m \<ge> Suc k"
    by (auto simp: Suc_le_eq)
  from one_tick.IH [OF this] show ?case by simp
qed simp

text \<open>
  C16. Notifications end: while nobody holds the floor, as during a shutdown, four timers that
  each fire when everything pending is due leave no pending notification, acknowledged or not.
\<close>

theorem notifications_expire:
  assumes "refl_inv r" and "floor_of (engine r) = None" and "due_ticks 4 r r'"
  shows "pending r' = []"
proof -
  have "\<forall>key m. map_of (pending r) key = Some m \<longrightarrow> noAttempt m \<ge> 1"
    using assms(1) by (auto simp: refl_inv_def pending_ok_def note_ok_def)
  from due_ticks_age [OF assms(3,1,2) this] have inv: "refl_inv r'"
    and "\<forall>key m. map_of (pending r') key = Some m \<longrightarrow> noAttempt m \<ge> 5" by auto
  then have "map_of (pending r') key = None" for key
    by (cases "map_of (pending r') key") (force simp: refl_inv_def pending_ok_def note_ok_def)+
  then show ?thesis by (metis list.exhaust map_of_Cons_code(2) option.distinct(1) prod.exhaust)
qed

definition demo_pending :: Reflector where
  "demo_pending = demo\<lparr>engine := (engine demo)\<lparr>clock := (\<lambda>n. int n * (3 * Second))\<rparr>,
     pending := [(\<lparr>nkListener = 7, nkTyp = PacketDisconnect, nkTx = 9\<rparr>,
       \<lparr>noPacket = disconnect_packet 7 9, noAttempt = 1, noNext = 0\<rparr>)]\<rparr>"

lemma demo_pending_inv: "refl_inv demo_pending"
proof -
  have inv: "refl_inv demo" "engine_inv (engine demo)"
    using reachable_inv [OF demo_reachable] by (simp_all add: refl_inv_def)
  have "engine_inv ((engine demo)\<lparr>clock := c\<rparr>)" for c
    using inv(2) by (cases "floor_of (engine demo)") (simp_all add: engine_inv_def floor_ok_def)
  moreover have "oMaxPendingNotifications (options demo) = 200" "oMaxPendingNotificationsPerClient (options demo) = 2"
    by code_simp+
  moreover have "Find (disconnect_packet 7 9) TLVTransactionID = Some (PutUint64 9)"
    by (simp add: disconnect_packet_def)
  ultimately show ?thesis
    using inv(1)
    by (simp add: demo_pending_def refl_inv_def pending_ok_def wf_map_def note_ok_def pending_of_def)
       (simp add: disconnect_packet_def)
qed

lemma due_tick: "refl_inv r \<Longrightarrow> due r \<Longrightarrow> due_ticks n (the (tick r)) r' \<Longrightarrow> due_ticks (Suc n) r r'"
  using tick_goes [of r] by (auto simp: goes_def intro: one_tick)

lemma tick_inv: "refl_inv r \<Longrightarrow> refl_inv (the (tick r))"
  using tick_goes [of r] by (auto simp: goes_def steady_def)

theorem notifications_expire_witness:
  "pending (the (tick (the (tick (the (tick (the (tick demo_pending)))))))) = []"
proof -
  have d: "due demo_pending" "due (the (tick demo_pending))" "due (the (tick (the (tick demo_pending))))"
    "due (the (tick (the (tick (the (tick demo_pending))))))" by code_simp+
  have f: "floor_of (engine demo_pending) = None" by code_simp
  have "due_ticks 4 demo_pending (the (tick (the (tick (the (tick (the (tick demo_pending))))))))"
    unfolding numeral_eq_Suc pred_numeral_simps BitM.simps eval_nat_numeral
    by (intro due_tick no_tick d tick_inv demo_pending_inv)
  then show ?thesis by (rule notifications_expire [OF demo_pending_inv f])
qed

text \<open>
  Transaction identifiers are fresh: a number that no pending notification uses, or zero when the source fails.
\<close>

theorem transaction_id_fresh:
  "case transactionID r of (i, r') \<Rightarrow>
     (if i = 0 then length (random r') < 8 else i \<notin> nkTx ` fst ` set (pending r)) \<and>
     pending r' = pending r"
proof (induction r rule: transactionID.induct)
  case (1 r)
  obtain b r1 where b: "ReadRandom 8 r = (b, r1)" by force
  have p: "pending r1 = pending r" using same_core_ReadRandom [of r 8] by (simp add: b same_core_def)
  show ?case
  proof (cases b)
    case None
    then have "length (random r1) < 8"
      using b by (auto simp: ReadRandom_def ReadFull_def split: if_splits)
    with None p show ?thesis by (simp add: transactionID.simps [of r] b)
  next
    case (Some raw)
    let ?i = "get_be raw :: u64"
    show ?thesis
    proof (cases "?i = 0 \<or> list_ex (\<lambda>(key, _). nkTx key = ?i) (pending r1)")
      case True
      then have eq: "transactionID r = transactionID r1"
        by (auto simp: transactionID.simps [of r] b Some Let_def)
      from True 1(1) [OF b [symmetric] Some refl] 1(2) [OF b [symmetric] Some refl] show ?thesis
        unfolding eq p by (cases "?i = 0") (simp_all split: prod.split prod.split_asm)
    next
      case False
      then have "transactionID r = (?i, r1)"
        by (simp add: transactionID.simps [of r] b Some Let_def)
      with False p show ?thesis by (auto simp: list_ex_iff)
    qed
  qed
qed

definition usable_id :: "u64 \<Rightarrow> Reflector \<Rightarrow> bool" where
  "usable_id i r \<longleftrightarrow> i \<noteq> 0 \<and> i \<notin> nkTx ` fst ` set (pending r)"

lemma transactionID_block:
  assumes "random r = b @ rest" and "length b = 8"
  shows "transactionID r =
    (if usable_id (get_be b) r then (get_be b, r\<lparr>random := rest\<rparr>) else transactionID (r\<lparr>random := rest\<rparr>))"
proof -
  have "ReadRandom 8 r = (Some b, r\<lparr>random := rest\<rparr>)" using assms by (simp add: ReadRandom_def ReadFull_append)
  moreover have "list_ex (\<lambda>(key, _). nkTx key = i) (pending r) \<longleftrightarrow> i \<in> nkTx ` fst ` set (pending r)" for i
    by (force simp: list_ex_iff)
  ultimately show ?thesis by (simp add: transactionID.simps [of r] usable_id_def Let_def)
qed

lemma transactionID_blocks:
  assumes "random r = concat bs @ rest" and "list_all (\<lambda>b. length b = 8) bs" and "\<exists>b \<in> set bs. usable_id (get_be b) r"
  shows "\<exists>pre b post. bs = pre @ b # post \<and> (\<forall>x \<in> set pre. \<not> usable_id (get_be x) r) \<and> usable_id (get_be b) r \<and>
    transactionID r = (get_be b, r\<lparr>random := concat post @ rest\<rparr>)"
  using assms
proof (induction bs arbitrary: r)
  case (Cons x bs)
  have block: "transactionID r = (if usable_id (get_be x) r then (get_be x, r\<lparr>random := concat bs @ rest\<rparr>)
      else transactionID (r\<lparr>random := concat bs @ rest\<rparr>))"
    using Cons.prems(1,2) by (intro transactionID_block) simp_all
  have same: "usable_id i (r\<lparr>random := z\<rparr>) = usable_id i r" for i z by (simp add: usable_id_def)
  show ?case
  proof (cases "usable_id (get_be x) r")
    case True
    with block have "x # bs = [] @ x # bs \<and> transactionID r = (get_be x, r\<lparr>random := concat bs @ rest\<rparr>)" by simp
    with True show ?thesis by (metis empty_iff list.set(1))
  next
    case False
    with Cons.prems have "\<exists>b \<in> set bs. usable_id (get_be b) (r\<lparr>random := concat bs @ rest\<rparr>)" by (simp add: same)
    with Cons.IH [of "r\<lparr>random := concat bs @ rest\<rparr>"] Cons.prems(2) obtain pre b post where
      "bs = pre @ b # post" "\<forall>x \<in> set pre. \<not> usable_id (get_be x) r" "usable_id (get_be b) r"
      "transactionID (r\<lparr>random := concat bs @ rest\<rparr>) = (get_be b, r\<lparr>random := concat post @ rest\<rparr>)"
      by (auto simp: same)
    with False block have "x # bs = (x # pre) @ b # post \<and> (\<forall>y \<in> set (x # pre). \<not> usable_id (get_be y) r) \<and>
      usable_id (get_be b) r \<and> transactionID r = (get_be b, r\<lparr>random := concat post @ rest\<rparr>)" by simp
    then show ?thesis by blast
  qed
qed simp

lemma distinct_block_usable:
  assumes "list_all (\<lambda>b. length b = 8) bs" and "distinct bs" and "length (pending r) + 1 < length bs"
  shows "\<exists>b \<in> set bs. usable_id (get_be b) r"
proof (rule ccontr)
  assume none: "\<not> ?thesis"
  have "inj_on (get_be :: bytes \<Rightarrow> u64) (set bs)"
  proof (rule inj_onI)
    fix x y assume "x \<in> set bs" "y \<in> set bs" and eq: "(get_be x :: u64) = get_be y"
    with assms(1) have len: "length x = 8" "length y = 8" by (simp_all add: list_all_iff)
    have "x = put_be 8 (get_be x :: u64)" using put_be_get_be [of x, where 'a = 64] len by simp
    also have "\<dots> = y" using put_be_get_be [of y, where 'a = 64] len eq by simp
    finally show "x = y" .
  qed
  then have "length bs = card ((get_be :: bytes \<Rightarrow> u64) ` set bs)" using assms(2) by (simp add: card_image distinct_card)
  also have "\<dots> \<le> card (insert 0 (nkTx ` fst ` set (pending r)))"
    using none by (intro card_mono) (auto simp: usable_id_def)
  also have "\<dots> \<le> Suc (card (nkTx ` fst ` set (pending r)))" by (simp add: card_insert_if)
  also have "\<dots> \<le> length (pending r) + 1"
    using card_length [of "map (nkTx \<circ> fst) (pending r)"] by (simp add: image_comp)
  finally show False using assms(3) by simp
qed

text \<open>
  C40. Drawing a transaction identifier ends when the random source goes on delivering. If the next blocks of eight bytes
  differ from each other and there are two more of them than pending notifications, whatever the source
  delivers afterwards, then the loop returns after at most that many draws. It returns the first block that is neither zero
  nor the identifier of a pending notification, and has read nothing of the source behind it.
\<close>

theorem transaction_id_draws:
  assumes "random r = concat bs @ rest" and "list_all (\<lambda>b. length b = 8) bs" and "distinct bs"
    and "length bs = length (pending r) + 2"
  shows "\<exists>pre b post. bs = pre @ b # post \<and>
    transactionID r = (get_be b, r\<lparr>random := concat post @ rest\<rparr>) \<and>
    get_be b \<noteq> (0 :: u64) \<and> get_be b \<notin> nkTx ` fst ` set (pending r) \<and>
    (\<forall>x \<in> set pre. get_be x = (0 :: u64) \<or> get_be x \<in> nkTx ` fst ` set (pending r))"
proof -
  have "length (pending r) + 1 < length bs" using assms(4) by simp
  from transactionID_blocks [OF assms(1,2) distinct_block_usable [OF assms(2,3) this]] show ?thesis
    unfolding usable_id_def by metis
qed

theorem transaction_id_draws_witness:
  "transactionID (demo_pending\<lparr>random := replicate 8 0 @ [0, 0, 0, 0, 0, 0, 0, 9] @ [0, 0, 0, 0, 0, 0, 0, 5] @ [1, 2]\<rparr>) =
    (5, demo_pending\<lparr>random := [1, 2]\<rparr>)"
proof -
  let ?bs = "[replicate 8 0, [0, 0, 0, 0, 0, 0, 0, 9], [0, 0, 0, 0, 0, 0, 0, 5]] :: bytes list"
  let ?r = "demo_pending\<lparr>random := concat ?bs @ [1, 2]\<rparr>"
  have "distinct ?bs" by code_simp
  moreover have "random ?r = concat ?bs @ [1, 2]" and "list_all (\<lambda>b. length b = 8) ?bs" and "length ?bs = length (pending ?r) + 2"
    by (simp_all add: demo_pending_def)
  ultimately obtain pre b post where b: "?bs = pre @ b # post" "transactionID ?r = (get_be b, ?r\<lparr>random := concat post @ [1, 2]\<rparr>)"
      "get_be b \<noteq> (0 :: u64)" "get_be b \<notin> nkTx ` fst ` set (pending ?r)"
    using transaction_id_draws [of ?r ?bs "[1, 2]"] by blast
  have ids: "get_be (replicate 8 0 :: bytes) = (0 :: u64)" "get_be ([0, 0, 0, 0, 0, 0, 0, 9] :: bytes) = (9 :: u64)"
    "get_be ([0, 0, 0, 0, 0, 0, 0, 5] :: bytes) = (5 :: u64)" by code_simp+
  have "9 \<in> nkTx ` fst ` set (pending ?r)" by (simp add: demo_pending_def)
  with b(3,4) ids have "b \<noteq> replicate 8 0" "b \<noteq> [0, 0, 0, 0, 0, 0, 0, 9]" by metis+
  with b(1) have "b = [0, 0, 0, 0, 0, 0, 0, 5] \<and> post = []"
    by (auto simp: Cons_eq_append_conv)
  with b(2) ids(3) show ?thesis by simp
qed

end
