(* ===== verification/Monitor.thy ===== *)
theory Monitor
  imports GoStd "HOL-Library.List_Lexorder" "HOL-Library.Char_ord"
begin

text \<open>
  \<^verbatim>\<open>pkg/monitor\<close>: the registry of snapshots, events and counters, and the HTTP surface.

  The atomics, the sync map and the mutex make each access one step. \<^verbatim>\<open>AddEvent\<close> takes its
  number before it takes the lock, so it is two steps, between which other goroutines run. The
  calls of the clock are arguments. \<^verbatim>\<open>ObserveStreamDuration\<close> is called with the seconds of a
  duration; the model takes the duration, as the conversion is monotone and exact at the bounds
  of the histogram. Floats are not computed with: a value that is printed as a float is the
  datatype \<open>float_value\<close> of what it is made of, and how it is printed is the parameter \<open>fmt_g\<close>. The sum
  of the histogram is thus the list of its addends. Responses are status codes with the values that the handlers hand to the JSON encoder.
\<close>

section \<open>Data\<close>

record ClientSnapshot =
  mcNodeCallsign :: string
  mcRemoteAddress :: string
  mcSessionID :: u64
  mcConnectedAt :: time
  mcLastActivity :: time

record StreamSnapshot =
  msActive :: bool
  msSessionID :: u64
  msStreamID :: u32
  msNodeCallsign :: string
  msSourceCallsign :: string
  msStartedAt :: time
  msLastFrameAt :: time
  msRemaining :: duration

record MonitorSnapshot =
  moAPIVersion :: int
  moVersion :: string
  moReflectorID :: string
  moReady :: bool
  moClients :: nat
  moClientList :: "ClientSnapshot list"
  moStream :: StreamSnapshot
  moUpdated :: time

datatype detail_value = DetailText string | DetailNumber u64

record MonitorEvent =
  meID :: u64
  meTime :: time
  meType :: string
  meSeverity :: string
  meDetails :: "(string \<times> detail_value) list"

type_synonym labels = "(string, string) gomap"

record metricSample =
  saName :: string
  saLabels :: labels
  saValue :: u64

record Registry =
  rgStarted :: time
  rgCapacity :: nat
  rgNext :: u64
  rgSnapshot :: MonitorSnapshot
  rgEvents :: "MonitorEvent list"
  rgMetrics :: "(string, metricSample) gomap"
  rgDeadline :: duration
  rgHistogramCounts :: "u64 list"
  rgHistogramCount :: u64
  rgHistogramSum :: "duration list"

definition zeroStream :: StreamSnapshot where
  "zeroStream = \<lparr>msActive = False, msSessionID = 0, msStreamID = 0, msNodeCallsign = [], msSourceCallsign = [],
     msStartedAt = 0, msLastFrameAt = 0, msRemaining = 0\<rparr>"

definition zeroSnapshot :: MonitorSnapshot where
  "zeroSnapshot = \<lparr>moAPIVersion = 0, moVersion = [], moReflectorID = [], moReady = False, moClients = 0,
     moClientList = [], moStream = zeroStream, moUpdated = 0\<rparr>"

section \<open>The tables of metrics\<close>

definition labelValues :: "string \<Rightarrow> string list option" where
  "labelValues = map_of [
     (''direction'', [''rx'', ''tx'']),
     (''queue'', [''server_inbound'', ''server_media'', ''server_control'', ''client_inbound'', ''client_events'',
        ''client_media'', ''client_control'']),
     (''item_type'', [''datagram'', ''audio'', ''data'', ''control'', ''event'']),
     (''reason'', [''malformed'', ''unsupported_version'', ''invalid_session'', ''address_mismatch'', ''invalid_stream'',
        ''unsupported_type'', ''limit_exceeded'', ''transaction_conflict'', ''normal'', ''owner_disconnect'',
        ''grant_timeout'', ''media_inactivity'', ''transmit_time_limit'', ''server_shutdown'']),
     (''result'', [''accepted'', ''rejected'', ''overloaded'', ''granted'', ''busy'']),
     (''mode'', [''open'', ''shared_key'']),
     (''kind'', [''challenge'', ''session'', ''grant'', ''media_inactivity'', ''transmit_time_limit'', ''transaction'',
        ''shutdown'']),
     (''packet_type'', [''hello'', ''challenge'', ''authenticate'', ''welcome'', ''keepalive'', ''disconnect'', ''error'',
        ''stream_request'', ''stream_grant'', ''stream_busy'', ''stream_start'', ''stream_end'', ''stream_revoke'',
        ''audio'', ''data''])]"

definition metricLabels :: "string \<Rightarrow> string list option" where
  "metricLabels = map_of [
     (''opusref_packets_total'', [''direction'', ''packet_type'']),
     (''opusref_bytes_total'', [''direction'', ''packet_type'']),
     (''opusref_packet_errors_total'', [''reason'']),
     (''opusref_authentication_total'', [''result'', ''mode'']),
     (''opusref_streams_total'', [''result'']),
     (''opusref_stream_end_total'', [''reason'']),
     (''opusref_busy_total'', []),
     (''opusref_timeouts_total'', [''kind'']),
     (''opusref_fanout_frames_total'', [''item_type'']),
     (''opusref_fanout_recipients_total'', [''item_type'']),
     (''opusref_queue_drops_total'', [''queue'', ''item_type'']),
     (''opusref_queue_drop_recipients_total'', [''queue'', ''item_type'']),
     (''opusref_sequence_gaps_total'', [''direction''])]"

definition metricValueOverrides :: "string \<times> string \<Rightarrow> string list option" where
  "metricValueOverrides = map_of [
     ((''opusref_packet_errors_total'', ''reason''), [''malformed'', ''unsupported_version'', ''invalid_session'',
        ''address_mismatch'', ''invalid_stream'', ''unsupported_type'', ''limit_exceeded'', ''transaction_conflict'']),
     ((''opusref_authentication_total'', ''result''), [''accepted'', ''rejected'', ''overloaded'']),
     ((''opusref_streams_total'', ''result''), [''granted'', ''busy'', ''rejected'', ''overloaded'']),
     ((''opusref_stream_end_total'', ''reason''), [''normal'', ''owner_disconnect'', ''grant_timeout'',
        ''media_inactivity'', ''transmit_time_limit'', ''server_shutdown''])]"

section \<open>Registry\<close>

text \<open>The bounds of the histogram.\<close>

definition buckets :: "duration list" where
  "buckets = [100 * Millisecond, 250 * Millisecond, 500 * Millisecond, Second, 2 * Second, 5 * Second, 10 * Second,
     30 * Second, 60 * Second, 120 * Second, 180 * Second]"

definition ObserveStreamDuration :: "duration \<Rightarrow> Registry \<Rightarrow> Registry" where
  "ObserveStreamDuration seconds r = r\<lparr>rgHistogramCount := rgHistogramCount r + 1,
     rgHistogramSum := rgHistogramSum r @ [seconds],
     rgHistogramCounts := map2 (\<lambda>bucket c. if seconds \<le> bucket then c + 1 else c) buckets (rgHistogramCounts r)\<rparr>"

definition Registry_Publish :: "time \<Rightarrow> MonitorSnapshot \<Rightarrow> Registry \<Rightarrow> Registry" where
  "Registry_Publish t s r = r\<lparr>rgSnapshot := s\<lparr>moAPIVersion := 1, moUpdated := t\<rparr>\<rparr>"

definition Registry_New :: "int \<Rightarrow> duration \<Rightarrow> time \<Rightarrow> time \<Rightarrow> Registry" where
  "Registry_New capacity deadline started t =
     (let capacity = (if capacity \<le> 0 then 256 else capacity);
          deadline = (if deadline \<le> 0 then 250 * Millisecond else deadline) in
      Registry_Publish t zeroSnapshot \<lparr>rgStarted = started, rgCapacity = nat capacity, rgNext = 0, rgSnapshot = zeroSnapshot,
        rgEvents = [], rgMetrics = [], rgDeadline = deadline, rgHistogramCounts = replicate 11 0, rgHistogramCount = 0, rgHistogramSum = []\<rparr>)"

text \<open>The two steps of \<^verbatim>\<open>AddEvent\<close>: the number and the time, then the list.\<close>

definition stamp_event :: "time \<Rightarrow> MonitorEvent \<Rightarrow> Registry \<Rightarrow> MonitorEvent \<times> Registry" where
  "stamp_event t ev r = (ev\<lparr>meID := rgNext r + 1, meTime := t\<rparr>, r\<lparr>rgNext := rgNext r + 1\<rparr>)"

definition append_event :: "MonitorEvent \<Rightarrow> Registry \<Rightarrow> Registry" where
  "append_event ev r =
     (let evs = (if length (rgEvents r) = rgCapacity r
                 then take (rgCapacity r - 1) (tl (rgEvents r) @ [last (rgEvents r)]) else rgEvents r) in
      r\<lparr>rgEvents := evs @ [ev]\<rparr>)"

section \<open>Counters\<close>

definition sampleKey :: "string \<Rightarrow> labels \<Rightarrow> string" where
  "sampleKey name ls =
     name @ concat (map (\<lambda>k. '';'' @ k @ ''='' @ (case map_of ls k of None \<Rightarrow> [] | Some v \<Rightarrow> v)) (sort (map fst ls)))"

text \<open>The label loop of \<^verbatim>\<open>Add\<close>: the checked copy of the labels, or the label that is wrong.\<close>

fun copy_labels :: "string \<Rightarrow> labels \<Rightarrow> string list \<Rightarrow> labels \<Rightarrow> string + labels" where
  "copy_labels name ls [] acc = Inr acc"
| "copy_labels name ls (label # rest) acc =
     (let values = (case metricValueOverrides (name, label) of
                      Some vs \<Rightarrow> vs
                    | None \<Rightarrow> (case labelValues label of Some vs \<Rightarrow> vs | None \<Rightarrow> [])) in
      case map_of ls label of
        None \<Rightarrow> Inl label
      | Some v \<Rightarrow> if v \<notin> set values then Inl label else copy_labels name ls rest (AList.update label v acc))"

datatype metric_error = UnknownMetric | IncorrectLabels | InvalidLabel string

definition Registry_Add :: "string \<Rightarrow> labels \<Rightarrow> u64 \<Rightarrow> Registry \<Rightarrow> metric_error option \<times> Registry" where
  "Registry_Add name ls amount r =
     (case metricLabels name of
        None \<Rightarrow> (Some UnknownMetric, r)
      | Some expected \<Rightarrow>
          if length ls \<noteq> length expected then (Some IncorrectLabels, r)
          else case copy_labels name ls expected [] of
            Inl label \<Rightarrow> (Some (InvalidLabel label), r)
          | Inr copied \<Rightarrow>
              let key = sampleKey name copied;
                  sample = (case map_of (rgMetrics r) key of
                              Some s \<Rightarrow> s | None \<Rightarrow> \<lparr>saName = name, saLabels = copied, saValue = 0\<rparr>) in
              (None, r\<lparr>rgMetrics := AList.update key (sample\<lparr>saValue := saValue sample + amount\<rparr>) (rgMetrics r)\<rparr>))"

definition Inc :: "string \<Rightarrow> labels \<Rightarrow> Registry \<Rightarrow> metric_error option \<times> Registry" where
  "Inc name ls = Registry_Add name ls 1"

section \<open>Metrics as text\<close>

text \<open>
  \<^verbatim>\<open>formatLabels\<close> and \<^verbatim>\<open>writeMetrics\<close>, as the list of the printed lines. \<^verbatim>\<open>strconv.Quote\<close> of a
  label value adds quotes only, as no value of the tables has a character that it escapes.
\<close>

fun join_with :: "string \<Rightarrow> string list \<Rightarrow> string" where
  "join_with sep [] = []"
| "join_with sep [x] = x"
| "join_with sep (x # xs) = x @ sep @ join_with sep xs"

definition formatLabels :: "labels \<Rightarrow> string" where
  "formatLabels ls =
     (if ls = [] then []
      else ''{'' @ join_with '','' (map (\<lambda>k. k @ ''=\"'' @ (case map_of ls k of None \<Rightarrow> [] | Some v \<Rightarrow> v) @ ''\"'')
        (sort (map fst ls))) @ ''}'')"

definition sorted_samples :: "Registry \<Rightarrow> metricSample list" where
  "sorted_samples r = sort_key (\<lambda>s. sampleKey (saName s) (saLabels s)) (map snd (rgMetrics r))"

fun sample_lines :: "string \<Rightarrow> metricSample list \<Rightarrow> string list" where
  "sample_lines lastName [] = []"
| "sample_lines lastName (s # rest) =
     (if saName s \<noteq> lastName then [''# TYPE '' @ saName s @ '' counter''] else []) @
     [saName s @ formatLabels (saLabels s) @ '' '' @ decimal (unat (saValue s))] @
     sample_lines (saName s) rest"

definition counter_lines :: "Registry \<Rightarrow> string list" where
  "counter_lines r = sample_lines [] (sorted_samples r)"

datatype float_value = FloatBool bool | FloatCount nat | FloatSeconds duration | FloatSum "duration list"

definition gauges :: "time \<Rightarrow> Registry \<Rightarrow> (string \<times> float_value) list" where
  "gauges t r = (let s = rgSnapshot r in
     [(''opusref_up'', FloatCount 1), (''opusref_ready'', FloatBool (moReady s)),
      (''opusref_uptime_seconds'', FloatSeconds (Sub t (rgStarted r))), (''opusref_sessions'', FloatCount (moClients s)),
      (''opusref_floor_active'', FloatBool (msActive (moStream s)))])"

definition gauge_lines :: "(float_value \<Rightarrow> string) \<Rightarrow> time \<Rightarrow> Registry \<Rightarrow> string list" where
  "gauge_lines fmt_g t r =
     concat (map (\<lambda>name. [''# TYPE '' @ name @ '' gauge'', name @ '' '' @ (case map_of (gauges t r) name of None \<Rightarrow> [] | Some v \<Rightarrow> fmt_g v)])
       (sort (map fst (gauges t r))))"

text \<open>The bounds as \<^verbatim>\<open>strconv.FormatFloat\<close> prints them, and the loop over them.\<close>

definition bucket_texts :: "string list" where
  "bucket_texts = [''0.1'', ''0.25'', ''0.5'', ''1'', ''2'', ''5'', ''10'', ''30'', ''60'', ''120'', ''180'']"

fun bucket_lines :: "nat \<Rightarrow> string list \<Rightarrow> u64 list \<Rightarrow> string list option" where
  "bucket_lines i [] counts = Some []"
| "bucket_lines i (b # bs) counts = do {
     c \<leftarrow> at counts i;
     rest \<leftarrow> bucket_lines (i + 1) bs counts;
     Some ((''opusref_stream_duration_seconds_bucket{le=\"'' @ b @ ''\"} '' @ decimal (unat c)) # rest)
   }"

definition writeMetrics :: "(float_value \<Rightarrow> string) \<Rightarrow> time \<Rightarrow> Registry \<Rightarrow> string list option" where
  "writeMetrics fmt_g t r = do {
     hist \<leftarrow> bucket_lines 0 bucket_texts (rgHistogramCounts r);
     Some (gauge_lines fmt_g t r @ counter_lines r @ [''# TYPE opusref_stream_duration_seconds histogram''] @ hist @
       [''opusref_stream_duration_seconds_bucket{le=\"+Inf\"} '' @ decimal (unat (rgHistogramCount r)),
        ''opusref_stream_duration_seconds_sum '' @ fmt_g (FloatSum (rgHistogramSum r)),
        ''opusref_stream_duration_seconds_count '' @ decimal (unat (rgHistogramCount r))])
   }"

section \<open>HTTP\<close>

datatype body =
    NoBody
  | BodyError string
  | BodyStatus MonitorSnapshot duration
  | BodyClients "ClientSnapshot list"
  | BodyStream StreamSnapshot
  | BodyEvents "MonitorEvent list"
  | BodyText "string list"

datatype route = RouteHealth | RouteReady | RouteStatus | RouteClients | RouteStream | RouteEvents | RouteMetrics

definition route_path :: "route \<Rightarrow> string" where
  "route_path x = (case x of RouteHealth \<Rightarrow> ''/healthz'' | RouteReady \<Rightarrow> ''/readyz'' | RouteStatus \<Rightarrow> ''/api/v1/status''
     | RouteClients \<Rightarrow> ''/api/v1/clients'' | RouteStream \<Rightarrow> ''/api/v1/stream'' | RouteEvents \<Rightarrow> ''/api/v1/events'' | RouteMetrics \<Rightarrow> ''/metrics'')"

text \<open>The loop that reverses the copied events in place.\<close>

fun reverse_loop :: "'a list \<Rightarrow> nat \<Rightarrow> nat \<Rightarrow> 'a list option" where
  "reverse_loop xs i j =
     (if i < j then do {
        a \<leftarrow> at xs i; b \<leftarrow> at xs j;
        reverse_loop (xs[i := b, j := a]) (i + 1) (j - 1)
      }
      else Some xs)"

declare reverse_loop.simps [simp del]

definition Handler :: "(float_value \<Rightarrow> string) \<Rightarrow> (duration \<Rightarrow> bool) option \<Rightarrow> time \<Rightarrow> route \<Rightarrow> Registry \<Rightarrow> (nat \<times> body) option" where
  "Handler fmt_g health t x r =
     (case x of
        RouteHealth \<Rightarrow> Some (case health of
            Some f \<Rightarrow> if \<not> f (rgDeadline r) then (503, BodyError ''unhealthy'') else (200, NoBody)
          | None \<Rightarrow> (200, NoBody))
      | RouteReady \<Rightarrow> Some (if \<not> moReady (rgSnapshot r) then (503, BodyError ''not ready'') else (200, NoBody))
      | RouteStatus \<Rightarrow>
          let s = rgSnapshot r; s = (if moVersion s = [] then s\<lparr>moVersion := ''dev''\<rparr> else s) in
          Some (200, BodyStatus s (Sub t (rgStarted r)))
      | RouteClients \<Rightarrow> Some (200, BodyClients (moClientList (rgSnapshot r)))
      | RouteStream \<Rightarrow> Some (200, BodyStream (moStream (rgSnapshot r)))
      | RouteEvents \<Rightarrow>
          do { evs \<leftarrow> reverse_loop (rgEvents r) 0 (length (rgEvents r) - 1); Some (200, BodyEvents evs) }
      | RouteMetrics \<Rightarrow> do { ls \<leftarrow> writeMetrics fmt_g t r; Some (200, BodyText ls) })"

end
