(* ===== verification/MonitorProps.thy ===== *)
theory MonitorProps
  imports Monitor Systems "HOL-Library.Multiset"
begin

text \<open>
  The registry of the monitoring package: the counters add up what was accepted for their
  labels, and the list of events is the newest part of all of them.
\<close>

section \<open>Canonical labels\<close>

definition allowed :: "string \<Rightarrow> string \<Rightarrow> string list" where
  "allowed name label = (case metricValueOverrides (name, label) of
     Some vs \<Rightarrow> vs | None \<Rightarrow> (case labelValues label of Some vs \<Rightarrow> vs | None \<Rightarrow> []))"

text \<open>
  The vocabulary of the metrics as \<^verbatim>\<open>docs/monitoring.md\<close> lists it (section 4): the labels of each counter and their
  values. Reasons of stream ends and kinds of timeouts are those of the protocol document and of its timers.
\<close>

definition metric_vocabulary :: "(string \<times> (string \<times> string list) list) list" where
  "metric_vocabulary =
     (let direction = (''direction'', [''rx'', ''tx'']);
          item = (''item_type'', [''datagram'', ''audio'', ''data'', ''control'', ''event'']);
          queue = (''queue'', [''server_inbound'', ''server_media'', ''server_control'', ''client_inbound'',
            ''client_events'', ''client_media'', ''client_control'']);
          packet = (''packet_type'', [''hello'', ''challenge'', ''authenticate'', ''welcome'', ''keepalive'', ''disconnect'',
            ''error'', ''stream_request'', ''stream_grant'', ''stream_busy'', ''stream_start'', ''stream_end'',
            ''stream_revoke'', ''audio'', ''data'']) in
      [(''opusref_packets_total'', [direction, packet]), (''opusref_bytes_total'', [direction, packet]),
       (''opusref_packet_errors_total'', [(''reason'', [''malformed'', ''unsupported_version'', ''invalid_session'',
          ''address_mismatch'', ''invalid_stream'', ''unsupported_type'', ''limit_exceeded'', ''transaction_conflict''])]),
       (''opusref_authentication_total'', [(''result'', [''accepted'', ''rejected'', ''overloaded'']), (''mode'', [''open'', ''shared_key''])]),
       (''opusref_streams_total'', [(''result'', [''granted'', ''busy'', ''rejected'', ''overloaded''])]),
       (''opusref_stream_end_total'', [(''reason'', [''normal'', ''owner_disconnect'', ''grant_timeout'',
          ''media_inactivity'', ''transmit_time_limit'', ''server_shutdown''])]),
       (''opusref_busy_total'', []),
       (''opusref_timeouts_total'', [(''kind'', [''challenge'', ''session'', ''grant'', ''media_inactivity'',
          ''transmit_time_limit'', ''transaction'', ''shutdown''])]),
       (''opusref_fanout_frames_total'', [item]), (''opusref_fanout_recipients_total'', [item]),
       (''opusref_queue_drops_total'', [queue, item]), (''opusref_queue_drop_recipients_total'', [queue, item]),
       (''opusref_sequence_gaps_total'', [direction])])"

text \<open>
  The labels under which a call of \<^verbatim>\<open>Add\<close> is to be counted: the metric is of the vocabulary, and the call gives a
  value of the vocabulary to each of its labels and to nothing else.
\<close>

definition accepted_labels :: "string \<Rightarrow> labels \<Rightarrow> labels option" where
  "accepted_labels name ls =
     (case map_of metric_vocabulary name of
        None \<Rightarrow> None
      | Some vocabulary \<Rightarrow>
          if length ls = length vocabulary \<and>
             list_all (\<lambda>(l, vs). case map_of ls l of None \<Rightarrow> False | Some v \<Rightarrow> v \<in> set vs) vocabulary
          then Some (map (\<lambda>(l, vs). (l, the (map_of ls l))) vocabulary) else None)"

text \<open>A sample whose labels are those of its metric, with values of the vocabulary.\<close>

definition well_labelled :: "string \<Rightarrow> labels \<Rightarrow> bool" where
  "well_labelled name ls = (case map_of metric_vocabulary name of
     None \<Rightarrow> False | Some vocabulary \<Rightarrow> list_all2 (\<lambda>(l, v) (l', vs). l = l' \<and> v \<in> set vs) ls vocabulary)"

text \<open>The tables of the code are this vocabulary, and its loop over the labels is this test.\<close>

lemma metric_vocabulary_tables:
  "map_of metric_vocabulary name = map_option (map (\<lambda>l. (l, allowed name l))) (metricLabels name)"
proof (cases "metricLabels name")
  case None
  then show ?thesis by (simp add: metricLabels_def metric_vocabulary_def Let_def split: if_splits)
next
  case (Some expected)
  then have "name \<in> set [''opusref_packets_total'', ''opusref_bytes_total'', ''opusref_packet_errors_total'',
    ''opusref_authentication_total'', ''opusref_streams_total'', ''opusref_stream_end_total'', ''opusref_busy_total'',
    ''opusref_timeouts_total'', ''opusref_fanout_frames_total'', ''opusref_fanout_recipients_total'',
    ''opusref_queue_drops_total'', ''opusref_queue_drop_recipients_total'', ''opusref_sequence_gaps_total'']"
    unfolding metricLabels_def by (drule_tac map_of_SomeD) (auto simp del: char.inject)
  then show ?thesis
    unfolding list.set insert_iff empty_iff
    by (elim disjE) (simp_all add: metricLabels_def metric_vocabulary_def allowed_def metricValueOverrides_def labelValues_def Let_def)
qed

lemma copy_labels_eq:
  "distinct (map fst acc @ labels) \<Longrightarrow>
    (case copy_labels name ls labels acc of Inl _ \<Rightarrow> None | Inr c \<Rightarrow> Some c) =
    (if list_all (\<lambda>l. case map_of ls l of None \<Rightarrow> False | Some v \<Rightarrow> v \<in> set (allowed name l)) labels
     then Some (acc @ map (\<lambda>l. (l, the (map_of ls l))) labels) else None)"
proof (induction labels arbitrary: acc)
  case (Cons l labels)
  have "AList.update l v acc = acc @ [(l, v)]" for v
    using Cons.prems by (induction acc) auto
  moreover have "distinct (map fst (acc @ [(l, v)]) @ labels)" for v using Cons.prems by auto
  ultimately show ?case
    using Cons.IH by (auto simp: Let_def allowed_def [symmetric] split: option.split)
qed simp

lemma metricLabels_distinct: "metricLabels name = Some expected \<Longrightarrow> distinct expected"
  by (auto simp: metricLabels_def split: if_splits)

lemma accepted_labels_code:
  "accepted_labels name ls =
     (case metricLabels name of
        None \<Rightarrow> None
      | Some expected \<Rightarrow>
          if length ls \<noteq> length expected then None
          else case copy_labels name ls expected [] of Inl _ \<Rightarrow> None | Inr c \<Rightarrow> Some c)"
proof (cases "metricLabels name")
  case (Some expected)
  with copy_labels_eq [of "[]" expected name ls] metricLabels_distinct [OF Some] show ?thesis
    by (simp add: accepted_labels_def metric_vocabulary_tables list_all_iff)
qed (simp add: accepted_labels_def metric_vocabulary_tables)

lemma accepted_well_labelled:
  assumes "accepted_labels name ls = Some c"
  shows "well_labelled name c"
proof -
  from assms obtain vocabulary where v: "map_of metric_vocabulary name = Some vocabulary"
    "list_all (\<lambda>(l, vs). case map_of ls l of None \<Rightarrow> False | Some v \<Rightarrow> v \<in> set vs) vocabulary"
    "c = map (\<lambda>(l, vs). (l, the (map_of ls l))) vocabulary"
    by (auto simp: accepted_labels_def split: option.splits if_splits)
  have "list_all2 (\<lambda>(l, v) (l', vs). l = l' \<and> v \<in> set vs) (map (\<lambda>(l, vs). (l, the (map_of ls l))) w) w"
    if "list_all (\<lambda>(l, vs). case map_of ls l of None \<Rightarrow> False | Some v \<Rightarrow> v \<in> set vs) w" for w
    using that by (induction w) (auto split: option.splits)
  with v show ?thesis by (simp add: well_labelled_def)
qed

lemma copy_labels_spec:
  "copy_labels name ls labels acc = Inr c \<Longrightarrow> distinct (map fst acc @ labels) \<Longrightarrow>
    map fst c = map fst acc @ labels \<and> (\<forall>(l, v) \<in> set c. (l, v) \<in> set acc \<or> l \<in> set labels \<and> map_of ls l = Some v \<and> v \<in> set (allowed name l))"
proof (induction labels arbitrary: acc)
  case (Cons l labels)
  then obtain v where v: "map_of ls l = Some v" "v \<in> set (allowed name l)"
    and r: "copy_labels name ls labels (AList.update l v acc) = Inr c"
    by (auto simp: Let_def allowed_def split: option.splits if_splits)
  have "AList.update l v acc = acc @ [(l, v)]"
    using Cons.prems(2) by (induction acc) auto
  with Cons.IH [OF r] Cons.prems(2) v show ?case by auto
qed simp

lemma accepted_labels_spec:
  assumes "accepted_labels name ls = Some c"
  obtains expected where "metricLabels name = Some expected" "map fst c = expected" "distinct expected"
    "\<And>l v. (l, v) \<in> set c \<Longrightarrow> v \<in> set (allowed name l) \<and> map_of ls l = Some v"
proof -
  from assms obtain expected where e: "metricLabels name = Some expected" "copy_labels name ls expected [] = Inr c"
    by (auto simp: accepted_labels_code split: option.splits if_splits sum.splits)
  with copy_labels_spec [OF e(2)] metricLabels_distinct [OF e(1)] show thesis by (intro that [of expected]) auto
qed

section \<open>Keys of samples\<close>

text \<open>No name, label or value has a semicolon, so a key can be read back.\<close>

definition plain_text :: "string \<Rightarrow> bool" where
  "plain_text s \<longleftrightarrow> CHR '';'' \<notin> set s"

lemma metricLabels_plain: "metricLabels name = Some expected \<Longrightarrow> plain_text name"
  by (auto simp: metricLabels_def plain_text_def split: if_splits)

lemma labelValues_plain: "labelValues l = Some vs \<Longrightarrow> list_all plain_text vs"
  by (auto simp: labelValues_def plain_text_def split: if_splits)

lemma overrides_plain: "metricValueOverrides nl = Some vs \<Longrightarrow> list_all plain_text vs"
  by (auto simp: metricValueOverrides_def plain_text_def split: if_splits)

lemma allowed_plain: "v \<in> set (allowed name l) \<Longrightarrow> plain_text v"
  using overrides_plain [of "(name, l)"] labelValues_plain [of l]
  by (cases "metricValueOverrides (name, l)"; cases "labelValues l") (auto simp: allowed_def list_all_iff)

lemma takeWhile_semicolon:
  assumes "plain_text s" and "r = [] \<or> hd r = CHR '';''"
  shows "takeWhile (\<lambda>c. c \<noteq> CHR '';'') (s @ r) = s"
proof -
  have "takeWhile (\<lambda>c. c \<noteq> CHR '';'') (s @ r) = s @ takeWhile (\<lambda>c. c \<noteq> CHR '';'') r"
    by (rule takeWhile_append2) (use assms(1) in \<open>auto simp: plain_text_def\<close>)
  also have "takeWhile (\<lambda>c. c \<noteq> CHR '';'') r = []" using assms(2) by (cases r) auto
  finally show ?thesis by simp
qed

definition key_part :: "(string \<Rightarrow> string) \<Rightarrow> string \<Rightarrow> string" where
  "key_part f k = '';'' @ k @ ''='' @ f k"

lemma key_parts_start: "concat (map (key_part f) ks) = [] \<or> hd (concat (map (key_part f) ks)) = CHR '';''"
  by (cases ks) (simp_all add: key_part_def)

lemma key_parts_inj:
  "concat (map (key_part f) ks) = concat (map (key_part g) ks) \<Longrightarrow> list_all (\<lambda>k. plain_text (f k) \<and> plain_text (g k)) ks
    \<Longrightarrow> list_all (\<lambda>k. f k = g k) ks"
proof (induction ks)
  case (Cons k ks)
  then have eq: "f k @ concat (map (key_part f) ks) = g k @ concat (map (key_part g) ks)" by (simp add: key_part_def [of _ k])
  have "f k = takeWhile (\<lambda>c. c \<noteq> CHR '';'') (f k @ concat (map (key_part f) ks))"
    using Cons.prems(2) by (intro takeWhile_semicolon [symmetric] key_parts_start) simp
  also have "\<dots> = g k"
    unfolding eq using Cons.prems(2) by (intro takeWhile_semicolon key_parts_start) simp
  finally have "f k = g k" .
  with eq Cons show ?case by simp
qed simp

definition value_in :: "labels \<Rightarrow> string \<Rightarrow> string" where
  "value_in ls k = (case map_of ls k of None \<Rightarrow> [] | Some v \<Rightarrow> v)"

lemma sampleKey_parts: "sampleKey name ls = name @ concat (map (key_part (value_in ls)) (sort (map fst ls)))"
proof -
  have "(\<lambda>k. '';'' @ k @ ''='' @ (case map_of ls k of None \<Rightarrow> [] | Some v \<Rightarrow> v)) = key_part (value_in ls)"
    by (rule ext) (simp add: key_part_def value_in_def)
  then show ?thesis unfolding sampleKey_def by simp
qed

lemma value_plain:
  assumes "accepted_labels name ls = Some c"
  shows "plain_text (value_in c k)"
proof (cases "map_of c k")
  case (Some v)
  then have "(k, v) \<in> set c" by (rule map_of_SomeD)
  with assms have "v \<in> set (allowed name k)" by (metis accepted_labels_spec)
  with Some show ?thesis by (simp add: value_in_def allowed_plain)
qed (simp add: value_in_def plain_text_def)

lemma labels_values:
  assumes "distinct (map fst c)"
  shows "c = map (\<lambda>k. (k, value_in c k)) (map fst c)"
proof -
  have "(fst kv, value_in c (fst kv)) = kv" if "kv \<in> set c" for kv
    using map_of_is_SomeI [OF assms, of "fst kv" "snd kv"] that by (simp add: value_in_def)
  then show ?thesis by (simp add: map_idI comp_def)
qed

lemma labels_eqI:
  assumes "map fst c = map fst d" "distinct (map fst c)" "list_all (\<lambda>k. value_in c k = value_in d k) (map fst c)"
  shows "c = d"
proof -
  have "map (\<lambda>k. (k, value_in c k)) (map fst c) = map (\<lambda>k. (k, value_in d k)) (map fst d)"
    unfolding assms(1) [symmetric] by (rule map_cong [OF refl]) (use assms(3) in \<open>auto simp: list_all_iff\<close>)
  then show ?thesis using labels_values [of c] labels_values [of d] assms(1,2) by metis
qed

lemma sampleKey_inj:
  assumes "accepted_labels n ls = Some c" "accepted_labels m ks = Some d" and "sampleKey n c = sampleKey m d"
  shows "n = m \<and> c = d"
proof -
  obtain e where e: "metricLabels n = Some e" "map fst c = e" "distinct e" using assms(1) by (rule accepted_labels_spec)
  obtain f where f: "metricLabels m = Some f" "map fst d = f" using assms(2) by (rule accepted_labels_spec)
  have "n = takeWhile (\<lambda>x. x \<noteq> CHR '';'') (sampleKey n c)"
    unfolding sampleKey_parts by (intro takeWhile_semicolon [symmetric] metricLabels_plain [OF e(1)] key_parts_start)
  also have "\<dots> = m"
    unfolding assms(3) unfolding sampleKey_parts by (intro takeWhile_semicolon metricLabels_plain [OF f(1)] key_parts_start)
  finally have nm: "n = m" .
  with e f have keys: "map fst d = map fst c" by simp
  have "concat (map (key_part (value_in c)) (sort e)) = concat (map (key_part (value_in d)) (sort e))"
    using assms(3) by (simp add: sampleKey_parts nm keys e(2))
  then have "list_all (\<lambda>k. value_in c k = value_in d k) (sort e)"
    by (rule key_parts_inj) (simp add: list_all_iff value_plain [OF assms(1)] value_plain [OF assms(2)])
  then have "c = d" using keys e by (intro labels_eqI) (auto simp: list_all_iff)
  with nm show ?thesis by simp
qed

section \<open>Counting\<close>

text \<open>The sample that an accepted call leaves.\<close>

definition added_sample :: "string \<Rightarrow> labels \<Rightarrow> u64 \<Rightarrow> Registry \<Rightarrow> metricSample" where
  "added_sample name c amount r =
     (case map_of (rgMetrics r) (sampleKey name c) of
        Some s \<Rightarrow> s\<lparr>saValue := saValue s + amount\<rparr>
      | None \<Rightarrow> \<lparr>saName = name, saLabels = c, saValue = amount\<rparr>)"

lemma Add_accepted:
  "snd (Registry_Add name ls amount r) = (case accepted_labels name ls of
     None \<Rightarrow> r
   | Some c \<Rightarrow> r\<lparr>rgMetrics := AList.update (sampleKey name c) (added_sample name c amount r) (rgMetrics r)\<rparr>)"
  by (auto simp: Registry_Add_def accepted_labels_code added_sample_def Let_def split: option.splits sum.splits)

type_synonym add_call = "string \<times> labels \<times> u64"

definition add_step :: "Registry \<Rightarrow> add_call \<Rightarrow> Registry" where
  "add_step r call = (case call of (name, ls, amount) \<Rightarrow> snd (Registry_Add name ls amount r))"

text \<open>What was accepted for a name and its labels, with the wrap-around of the counters.\<close>

definition accepted_total :: "string \<Rightarrow> labels \<Rightarrow> add_call list \<Rightarrow> u64" where
  "accepted_total name c calls =
     sum_list (map (\<lambda>(n, ls, amount). if n = name \<and> accepted_labels n ls = Some c then amount else 0) calls)"

definition counter :: "string \<Rightarrow> labels \<Rightarrow> Registry \<Rightarrow> u64" where
  "counter name c r = (case map_of (rgMetrics r) (sampleKey name c) of None \<Rightarrow> 0 | Some s \<Rightarrow> saValue s)"

text \<open>Every sample is stored under its key, has the labels of its metric and allowed values.\<close>

definition typed :: "Registry \<Rightarrow> bool" where
  "typed r \<longleftrightarrow> wf_map (rgMetrics r) \<and>
     (\<forall>(k, s) \<in> set (rgMetrics r). k = sampleKey (saName s) (saLabels s) \<and> (\<exists>ls. accepted_labels (saName s) ls = Some (saLabels s)))"

lemma add_step_typed:
  assumes "typed r"
  shows "typed (add_step r call)"
proof -
  obtain name ls amount where call: "call = (name, ls, amount)" by (cases call)
  show ?thesis
  proof (cases "accepted_labels name ls")
    case None
    with assms show ?thesis by (simp add: add_step_def call Add_accepted)
  next
    case (Some c)
    let ?k = "sampleKey name c" and ?s = "added_sample name c amount r"
    have s: "?k = sampleKey (saName ?s) (saLabels ?s)" "\<exists>ls. accepted_labels (saName ?s) ls = Some (saLabels ?s)"
    proof (atomize (full), cases "map_of (rgMetrics r) ?k")
      case None
      with Some show "?k = sampleKey (saName ?s) (saLabels ?s) \<and> (\<exists>ls. accepted_labels (saName ?s) ls = Some (saLabels ?s))"
        by (auto simp: added_sample_def)
    next
      case (Some t)
      then have "(?k, t) \<in> set (rgMetrics r)" by (rule map_of_SomeD)
      then have "?k = sampleKey (saName t) (saLabels t) \<and> (\<exists>ls. accepted_labels (saName t) ls = Some (saLabels t))"
        using assms by (auto simp: typed_def)
      moreover have "?s = t\<lparr>saValue := saValue t + amount\<rparr>" by (simp add: added_sample_def Some)
      ultimately show "?k = sampleKey (saName ?s) (saLabels ?s) \<and> (\<exists>ls. accepted_labels (saName ?s) ls = Some (saLabels ?s))"
        by simp
    qed
    have sub: "set (AList.update k v m) \<subseteq> insert (k, v) (set m)" for k v and m :: "(string, metricSample) gomap"
      by (induction m) auto
    have step: "rgMetrics (add_step r call) = AList.update ?k ?s (rgMetrics r)"
      by (simp add: add_step_def call Add_accepted Some)
    show ?thesis
      unfolding typed_def step
    proof (intro conjI ballI)
      show "wf_map (AList.update ?k ?s (rgMetrics r))" using assms by (simp add: typed_def)
    next
      fix x assume "x \<in> set (AList.update ?k ?s (rgMetrics r))"
      with sub have "x = (?k, ?s) \<or> x \<in> set (rgMetrics r)" by blast
      then show "case x of (k, s) \<Rightarrow> k = sampleKey (saName s) (saLabels s) \<and> (\<exists>ls. accepted_labels (saName s) ls = Some (saLabels s))"
        using s assms by (elim disjE) (simp, simp add: typed_def)
    qed
  qed
qed

lemma counter_add:
  assumes "accepted_labels name ls = Some c"
  shows "counter name c (add_step r (n, ks, amount)) =
    counter name c r + (if n = name \<and> accepted_labels n ks = Some c then amount else 0)"
proof (cases "accepted_labels n ks")
  case None
  then show ?thesis by (simp add: add_step_def Add_accepted)
next
  case (Some d)
  have step: "rgMetrics (add_step r (n, ks, amount)) = AList.update (sampleKey n d) (added_sample n d amount r) (rgMetrics r)"
    by (simp add: add_step_def Add_accepted Some)
  have val: "saValue (added_sample n d amount r) = counter n d r + amount"
    by (simp add: added_sample_def counter_def split: option.split)
  show ?thesis
  proof (cases "n = name \<and> d = c")
    case True
    have "counter n d (add_step r (n, ks, amount)) = counter n d r + amount"
      by (simp add: counter_def step map_of_update val [unfolded counter_def])
    with True Some show ?thesis by simp
  next
    case False
    then have "sampleKey name c \<noteq> sampleKey n d" using sampleKey_inj [OF assms Some] by auto
    with False Some show ?thesis by (auto simp: counter_def step map_of_update)
  qed
qed

lemma counter_run:
  "accepted_labels name ls = Some c \<Longrightarrow>
    counter name c (run add_step r calls) = counter name c r + accepted_total name c calls"
proof (induction calls arbitrary: r)
  case (Cons call calls)
  obtain n ks amount where call: "call = (n, ks, amount)" by (cases call)
  from Cons.IH [OF Cons.prems, of "add_step r call"] counter_add [OF Cons.prems, of r n ks amount]
  show ?case by (simp add: call accepted_total_def)
qed (simp add: accepted_total_def)

section \<open>Interleaved calls\<close>

text \<open>
  The registry with its callers: the events that were stamped and not yet appended, one for each
  caller between the two steps of \<^verbatim>\<open>AddEvent\<close>, and, as ghosts, everything appended, counted and
  observed so far.
\<close>

datatype registry_call =
    CallAdd string labels u64
  | CallPublish time MonitorSnapshot
  | CallObserve duration
  | CallStamp time MonitorEvent
  | CallAppend nat

record monitoring =
  mnRegistry :: Registry
  mnStamped :: "MonitorEvent list"
  mnAppended :: "MonitorEvent list"
  mnAdds :: "add_call list"
  mnObserved :: "duration list"

definition remove_nth :: "nat \<Rightarrow> 'a list \<Rightarrow> 'a list" where
  "remove_nth i xs = take i xs @ drop (Suc i) xs"

definition monitoring_step :: "monitoring \<Rightarrow> registry_call \<Rightarrow> monitoring" where
  "monitoring_step m call = (case call of
       CallAdd name ls amount \<Rightarrow>
         m\<lparr>mnRegistry := add_step (mnRegistry m) (name, ls, amount), mnAdds := mnAdds m @ [(name, ls, amount)]\<rparr>
     | CallPublish t s \<Rightarrow> m\<lparr>mnRegistry := Registry_Publish t s (mnRegistry m)\<rparr>
     | CallObserve d \<Rightarrow> m\<lparr>mnRegistry := ObserveStreamDuration d (mnRegistry m), mnObserved := mnObserved m @ [d]\<rparr>
     | CallStamp t ev \<Rightarrow> let (ev, r) = stamp_event t ev (mnRegistry m) in m\<lparr>mnRegistry := r, mnStamped := mnStamped m @ [ev]\<rparr>
     | CallAppend i \<Rightarrow>
         if i < length (mnStamped m)
         then m\<lparr>mnRegistry := append_event (mnStamped m ! i) (mnRegistry m), mnStamped := remove_nth i (mnStamped m),
                mnAppended := mnAppended m @ [mnStamped m ! i]\<rparr>
         else m)"

definition monitoring_start :: "Registry \<Rightarrow> monitoring" where
  "monitoring_start r = \<lparr>mnRegistry = r, mnStamped = [], mnAppended = [], mnAdds = [], mnObserved = []\<rparr>"

text \<open>The newest elements of a list.\<close>

definition newest :: "nat \<Rightarrow> 'a list \<Rightarrow> 'a list" where
  "newest n xs = drop (length xs - n) xs"

lemma newest_snoc:
  assumes "n > 0"
  shows "newest n (xs @ [x]) = (if length (newest n xs) = n then drop 1 (newest n xs) else newest n xs) @ [x]"
proof (cases "length xs \<ge> n")
  case True
  with assms have "length xs + 1 - n = Suc (length xs - n)" by simp
  with True assms show ?thesis by (simp add: newest_def drop_Suc tl_drop)
qed (use assms in \<open>simp add: newest_def\<close>)

lemma append_event_newest:
  assumes "rgEvents r = newest (rgCapacity r) log" and "rgCapacity r > 0"
  shows "rgEvents (append_event ev r) = newest (rgCapacity r) (log @ [ev])"
proof (cases "length (rgEvents r) = rgCapacity r")
  case True
  with assms(2) have "rgEvents r \<noteq> []" by auto
  with True have "take (rgCapacity r - 1) (tl (rgEvents r) @ [last (rgEvents r)]) = drop 1 (rgEvents r)"
    by (simp add: drop_Suc)
  with True assms show ?thesis by (simp add: append_event_def Let_def newest_snoc)
qed (use assms in \<open>simp add: append_event_def Let_def newest_snoc\<close>)

text \<open>
  The invariant: the parameters stay, the samples are typed and count what was added, the list of
  events is the newest part of the appended ones, the numbers given out are those from one on, and
  the histogram counts the observations below each bound.
\<close>

definition below :: "duration list \<Rightarrow> duration \<Rightarrow> u64" where
  "below ds b = of_nat (length (filter (\<lambda>d. d \<le> b) ds))"

definition numbers :: "nat \<Rightarrow> u64 multiset" where
  "numbers n = mset (map of_nat [1..<n + 1])"

lemma numbers_Suc: "numbers (Suc n) = add_mset (of_nat (Suc n)) (numbers n)"
  by (simp add: numbers_def)

definition monitoring_ok :: "monitoring \<Rightarrow> bool" where
  "monitoring_ok m \<longleftrightarrow>
     (let r = mnRegistry m; n = length (mnAppended m) + length (mnStamped m) in
      rgCapacity r > 0 \<and> rgEvents r = newest (rgCapacity r) (mnAppended m) \<and>
      rgNext r = of_nat n \<and>
      mset (map meID (mnAppended m @ mnStamped m)) = numbers n \<and>
      rgHistogramCounts r = map (below (mnObserved m)) buckets \<and> rgHistogramCount r = of_nat (length (mnObserved m)))"

lemma mset_remove_nth: "i < length xs \<Longrightarrow> add_mset (xs ! i) (mset (remove_nth i xs)) = mset xs"
  by (metis remove_nth_def id_take_nth_drop mset_append mset.simps(2) union_mset_add_mset_right)

lemma map2_map_left: "map2 f xs (map g xs) = map (\<lambda>x. f x (g x)) xs"
  by (induction xs) auto

lemma monitoring_ok_step:
  assumes "monitoring_ok m"
  shows "monitoring_ok (monitoring_step m call)"
proof (cases call)
  case (CallAdd name ls amount)
  with assms show ?thesis
    by (auto simp: monitoring_ok_def monitoring_step_def add_step_def Add_accepted Let_def split: option.split)
next
  case (CallPublish t s)
  with assms show ?thesis by (simp add: monitoring_ok_def monitoring_step_def Registry_Publish_def Let_def)
next
  case (CallObserve d)
  with assms show ?thesis
    by (simp add: monitoring_ok_def monitoring_step_def ObserveStreamDuration_def Let_def map2_map_left below_def)
next
  case (CallStamp t ev)
  with assms show ?thesis
    by (simp add: monitoring_ok_def monitoring_step_def stamp_event_def Let_def numbers_Suc)
next
  case (CallAppend i)
  show ?thesis
  proof (cases "i < length (mnStamped m)")
    case True
    then have len: "length (mnStamped m) = Suc (length (remove_nth i (mnStamped m)))" by (simp add: remove_nth_def)
    have "mset (map meID (remove_nth i (mnStamped m))) + {#meID (mnStamped m ! i)#} = mset (map meID (mnStamped m))"
      using mset_remove_nth [OF True] by (metis add_mset_add_single image_mset_add_mset mset_map)
    with True assms CallAppend show ?thesis
      by (simp add: monitoring_ok_def monitoring_step_def Let_def append_event_newest len)
         (simp add: append_event_def Let_def ac_simps)
  qed (use assms CallAppend in \<open>simp add: monitoring_step_def\<close>)
qed

text \<open>The samples are typed, and each counts what was accepted for its labels.\<close>

definition counting_ok :: "monitoring \<Rightarrow> bool" where
  "counting_ok m \<longleftrightarrow> typed (mnRegistry m) \<and>
     (\<forall>name ls c. accepted_labels name ls = Some c \<longrightarrow> counter name c (mnRegistry m) = accepted_total name c (mnAdds m))"

lemma metrics_only:
  "rgMetrics r' = rgMetrics r \<Longrightarrow> typed r' = typed r"
  "rgMetrics r' = rgMetrics r \<Longrightarrow> counter name c r' = counter name c r"
  by (simp_all add: typed_def counter_def)

lemma counting_ok_same:
  "counting_ok m \<Longrightarrow> rgMetrics (mnRegistry m') = rgMetrics (mnRegistry m) \<Longrightarrow> mnAdds m' = mnAdds m \<Longrightarrow> counting_ok m'"
  using metrics_only [of "mnRegistry m'" "mnRegistry m"] by (simp add: counting_ok_def)

lemma counting_ok_step:
  assumes "counting_ok m"
  shows "counting_ok (monitoring_step m call)"
proof (cases call)
  case (CallAdd name ls amount)
  with assms show ?thesis
    by (simp add: counting_ok_def monitoring_step_def add_step_typed counter_add accepted_total_def)
next
  case (CallPublish t s)
  show ?thesis by (rule counting_ok_same [OF assms]) (simp_all add: CallPublish monitoring_step_def Registry_Publish_def)
next
  case (CallObserve d)
  show ?thesis by (rule counting_ok_same [OF assms]) (simp_all add: CallObserve monitoring_step_def ObserveStreamDuration_def)
next
  case (CallStamp t ev)
  show ?thesis by (rule counting_ok_same [OF assms]) (simp_all add: CallStamp monitoring_step_def stamp_event_def)
next
  case (CallAppend i)
  show ?thesis by (rule counting_ok_same [OF assms]) (simp_all add: CallAppend monitoring_step_def append_event_def Let_def)
qed

definition fresh_monitoring :: "monitoring \<Rightarrow> bool" where
  "fresh_monitoring m \<longleftrightarrow> (\<exists>capacity deadline started t. m = monitoring_start (Registry_New capacity deadline started t))"

lemma fresh_ok:
  assumes "fresh_monitoring m"
  shows "monitoring_ok m \<and> counting_ok m"
proof -
  from assms obtain capacity deadline started t where m: "m = monitoring_start (Registry_New capacity deadline started t)"
    by (auto simp: fresh_monitoring_def)
  have "map (below []) buckets = replicate 11 0" by (simp add: below_def buckets_def numeral_eq_Suc)
  then have "monitoring_ok m"
    by (simp add: m monitoring_ok_def monitoring_start_def Registry_New_def Registry_Publish_def Let_def newest_def numbers_def)
  moreover have "counting_ok m"
    by (simp add: m counting_ok_def typed_def counter_def accepted_total_def monitoring_start_def Registry_New_def
      Registry_Publish_def Let_def)
  ultimately show ?thesis ..
qed

interpretation monitoring: machine fresh_monitoring monitoring_step "\<lambda>m. monitoring_ok m \<and> counting_ok m"
  by unfold_locales (simp_all add: fresh_ok monitoring_ok_step counting_ok_step)

abbreviation monitoring_run :: "int \<Rightarrow> duration \<Rightarrow> time \<Rightarrow> time \<Rightarrow> registry_call list \<Rightarrow> monitoring" where
  "monitoring_run capacity deadline started t \<equiv> run monitoring_step (monitoring_start (Registry_New capacity deadline started t))"

lemma run_ok:
  "monitoring_ok (monitoring_run capacity deadline started t calls)"
  "counting_ok (monitoring_run capacity deadline started t calls)"
  using monitoring.inv_reachable [of "monitoring_start (Registry_New capacity deadline started t)" calls]
  by (auto simp: fresh_monitoring_def)

section \<open>The reversal of the events\<close>

lemma reverse_loop_nth:
  "i + j = n - 1 \<Longrightarrow> length xs = n \<Longrightarrow> n > 0 \<Longrightarrow>
    \<exists>ys. reverse_loop xs i j = Some ys \<and> length ys = n \<and>
      (\<forall>k < n. ys ! k = (if i \<le> k \<and> k \<le> j then xs ! (n - 1 - k) else xs ! k))"
proof (induction "j - i" arbitrary: xs i j rule: less_induct)
  case less
  show ?case
  proof (cases "i < j")
    case True
    let ?xs = "xs[i := xs ! j, j := xs ! i]"
    have b: "i < n" "j < n" "(j - 1) - (i + 1) < j - i" "(i + 1) + (j - 1) = n - 1" "length ?xs = n" using True less.prems by auto
    from less.hyps [OF b(3,4,5) less.prems(3)] obtain ys where
      ys: "reverse_loop ?xs (i + 1) (j - 1) = Some ys" "length ys = n"
        "\<And>k. k < n \<Longrightarrow> ys ! k = (if i + 1 \<le> k \<and> k \<le> j - 1 then ?xs ! (n - 1 - k) else ?xs ! k)" by auto
    have "reverse_loop xs i j = Some ys"
      using True b(1,2) less.prems(2) ys(1) by (simp add: reverse_loop.simps [of xs i j] at_def)
    moreover have "ys ! k = (if i \<le> k \<and> k \<le> j then xs ! (n - 1 - k) else xs ! k)" if "k < n" for k
    proof -
      have mirror: "n - 1 - i = j" "n - 1 - j = i" using True less.prems by linarith+
      have untouched: "?xs ! l = xs ! l" if "l \<noteq> i" "l \<noteq> j" for l using that by (simp add: nth_list_update)
      have outer: "\<not> j \<le> j - 1" using True by linarith
      have swapped: "?xs ! i = xs ! j" "?xs ! j = xs ! i" using True b(1,2) less.prems(2) by (simp_all add: nth_list_update)
      consider "k = i" | "k = j" | "i + 1 \<le> k \<and> k \<le> j - 1" | "k < i \<or> k > j" using True by linarith
      then show ?thesis
      proof cases
        case 3
        then have "n - 1 - k \<noteq> i" "n - 1 - k \<noteq> j" "k \<le> j" using mirror that by linarith+
        with 3 show ?thesis by (simp add: ys(3) [OF that] untouched)
      next
        case 4
        then have "k \<noteq> i" "k \<noteq> j" using True by linarith+
        from untouched [OF this] 4 show ?thesis by (auto simp: ys(3) [OF that])
      qed (use True ys(3) [OF that] swapped mirror outer in simp_all)
    qed
    ultimately show ?thesis using ys(2) by blast
  next
    case False
    have "k = n - 1 - k" if "i \<le> k" "k \<le> j" for k using that False less.prems by linarith
    with False less.prems show ?thesis by (auto simp: reverse_loop.simps [of xs i j])
  qed
qed

lemma reverse_loop_rev: "reverse_loop xs 0 (length xs - 1) = Some (rev xs)"
proof (cases "xs = []")
  case False
  with reverse_loop_nth [of 0 "length xs - 1" "length xs" xs] obtain ys where
    ys: "reverse_loop xs 0 (length xs - 1) = Some ys" "length ys = length xs"
      "\<And>k. k < length xs \<Longrightarrow> ys ! k = xs ! (length xs - 1 - k)" by (auto split: if_splits)
  then have "ys = rev xs" by (auto simp: list_eq_iff_nth_eq rev_nth)
  with ys(1) show ?thesis by simp
qed (simp add: reverse_loop.simps)

lemma capacity_stays:
  "rgCapacity (mnRegistry (monitoring_run capacity deadline started t calls)) = (if capacity \<le> 0 then 256 else nat capacity)"
proof -
  let ?n = "if capacity \<le> 0 then 256 else nat capacity" and ?m = "monitoring_start (Registry_New capacity deadline started t)"
  have step: "rgCapacity (mnRegistry (monitoring_step m call)) = ?n" if "rgCapacity (mnRegistry m) = ?n" for m call
    using that by (cases call)
      (auto simp: monitoring_step_def add_step_def Add_accepted Registry_Publish_def ObserveStreamDuration_def
        stamp_event_def append_event_def Let_def split: option.split)
  have "monitoring_ok ?m \<and> counting_ok ?m" by (rule fresh_ok) (auto simp: fresh_monitoring_def)
  moreover have "rgCapacity (mnRegistry ?m) = ?n"
    by (simp add: monitoring_start_def Registry_New_def Registry_Publish_def Let_def)
  ultimately show ?thesis by (rule monitoring.stable_run [rotated]) (rule step)
qed

section \<open>Properties\<close>

text \<open>
  C25. After any interleaving of calls every counter of the registry is well typed: no two are stored under
  the same key, each is stored under the key of its name and labels, its labels are exactly those of its
  metric in the documented vocabulary, and each has one of the documented values. No text from the
  network can get into a label.
\<close>

theorem samples_typed:
  "let samples = rgMetrics (mnRegistry (monitoring_run capacity deadline started t calls)) in
    distinct (map fst samples) \<and>
    list_all (\<lambda>(key, s). key = sampleKey (saName s) (saLabels s) \<and> well_labelled (saName s) (saLabels s)) samples"
proof -
  have "typed (mnRegistry (monitoring_run capacity deadline started t calls))"
    using run_ok(2) by (simp add: counting_ok_def)
  then show ?thesis
    unfolding typed_def Let_def list_all_iff wf_map_def by (auto dest: accepted_well_labelled)
qed

text \<open>
  C22. After any interleaving of calls the counter for a metric and its labels is the sum of the amounts
  of the accepted calls of \<^verbatim>\<open>Add\<close> with that metric and those labels, modulo two to the 64:
  no call is lost, none is counted under other labels, and refused calls count nothing.
\<close>

theorem counters_exact:
  assumes "accepted_labels name ls = Some c"
  shows "let m = monitoring_run capacity deadline started t calls in
    counter name c (mnRegistry m) = accepted_total name c (mnAdds m)"
  using run_ok(2) [of capacity deadline started t calls] assms by (simp add: counting_ok_def Let_def)

theorem counters_exact_witness:
  "let l = [(''kind'', ''grant'')]; m = monitoring_run 2 0 0 0 [CallAdd ''opusref_timeouts_total'' l 3, CallAdd ''opusref_busy_total'' [] 1,
      CallAdd ''opusref_timeouts_total'' [(''kind'', ''other'')] 5, CallAdd ''opusref_timeouts_total'' l 4] in
    counter ''opusref_timeouts_total'' l (mnRegistry m) = 7"
proof -
  let ?l = "[(''kind'', ''grant'')]"
  have a: "accepted_labels ''opusref_timeouts_total'' ?l = Some ?l"
    by (simp add: accepted_labels_code metricLabels_def metricValueOverrides_def labelValues_def)
  have n: "accepted_labels ''opusref_timeouts_total'' [(''kind'', ''other'')] = None"
    by (simp add: accepted_labels_code metricLabels_def metricValueOverrides_def labelValues_def)
  show ?thesis
    using counters_exact [OF a, of 2 0 0 0 "[CallAdd ''opusref_timeouts_total'' ?l 3, CallAdd ''opusref_busy_total'' [] 1,
      CallAdd ''opusref_timeouts_total'' [(''kind'', ''other'')] 5, CallAdd ''opusref_timeouts_total'' ?l 4]"]
    by (simp add: Let_def monitoring_step_def monitoring_start_def accepted_total_def a n)
qed

text \<open>
  C26. The endpoint of events never runs out of its slice and answers with the newest events in the
  reverse of the order in which they were appended, as many as the capacity holds.
\<close>

theorem events_endpoint:
  "let m = monitoring_run capacity deadline started t calls; n = (if capacity \<le> 0 then 256 else nat capacity) in
    Handler fmt_g health now RouteEvents (mnRegistry m) = Some (200, BodyEvents (rev (newest n (mnAppended m))))"
  using run_ok(1) [of capacity deadline started t calls] capacity_stays [of capacity deadline started t calls]
  by (simp add: monitoring_ok_def Let_def Handler_def reverse_loop_rev [simplified])

text \<open>
  The numbers of events are those from one on: no number is given out twice while fewer than two
  to the 64 events were added, however the callers interleave.
\<close>

theorem event_numbers_distinct:
  assumes "length (mnAppended m) + length (mnStamped m) < 2 ^ 64"
    and "m = monitoring_run capacity deadline started t calls"
  shows "distinct (map meID (mnAppended m @ mnStamped m))"
proof -
  let ?n = "length (mnAppended m) + length (mnStamped m)"
  have "mset (map meID (mnAppended m @ mnStamped m)) = mset (map (of_nat :: nat \<Rightarrow> u64) [1..<?n + 1])"
    using run_ok(1) [of capacity deadline started t calls] assms(2) by (simp add: monitoring_ok_def Let_def numbers_def)
  moreover have "inj_on (of_nat :: nat \<Rightarrow> u64) {1..<?n + 1}"
    by (rule inj_on_subset [OF inj_on_word_of_nat]) (use assms(1) in auto)
  then have "distinct (map (of_nat :: nat \<Rightarrow> u64) [1..<?n + 1])" by (simp add: distinct_map del: upt_Suc)
  ultimately show ?thesis by (metis mset_eq_imp_distinct_iff)
qed

definition sample_event :: "string \<Rightarrow> MonitorEvent" where
  "sample_event typ = \<lparr>meID = 0, meTime = 0, meType = typ, meSeverity = ''info'', meDetails = []\<rparr>"

theorem event_numbers_distinct_witness:
  "let m = monitoring_run 1 0 0 0 [CallStamp 1 (sample_event ''a''), CallStamp 2 (sample_event ''b''), CallAppend 1] in
    map meID (mnAppended m @ mnStamped m) = [2, 1] \<and> distinct (map meID (mnAppended m @ mnStamped m))"
proof -
  let ?m = "monitoring_run 1 0 0 0 [CallStamp 1 (sample_event ''a''), CallStamp 2 (sample_event ''b''), CallAppend 1]"
  have ids: "map meID (mnAppended ?m @ mnStamped ?m) = [2, 1]"
    and len: "length (mnAppended ?m) + length (mnStamped ?m) < 2 ^ 64"
    by (simp_all add: monitoring_step_def monitoring_start_def stamp_event_def append_event_def Registry_New_def
      Registry_Publish_def remove_nth_def Let_def)
  show ?thesis using event_numbers_distinct [OF len refl] ids by (simp add: Let_def)
qed

text \<open>
  The order of the endpoint is that of the calls of the mutex, not that of the numbers and times:
  the caller that stamped first may append last, and then an older event is served before a newer one.
\<close>

theorem events_out_of_order:
  "let m = monitoring_run 2 0 0 0 [CallStamp 1 (sample_event ''a''), CallStamp 2 (sample_event ''b''), CallAppend 1, CallAppend 0] in
    map_option (\<lambda>(code, b). case b of BodyEvents evs \<Rightarrow> map (\<lambda>e. (meID e, meTime e)) evs | _ \<Rightarrow> [])
      (Handler (\<lambda>_. []) None 3 RouteEvents (mnRegistry m)) = Some [(1, 1), (2, 2)]"
  by (simp add: monitoring_step_def monitoring_start_def stamp_event_def append_event_def Registry_New_def
    Registry_Publish_def remove_nth_def Handler_def reverse_loop.simps at_def Let_def numeral_eq_Suc)

text \<open>
  The histogram of stream durations counts, for each bound, exactly the observations that are not
  longer, and in total all of them, after any interleaving of calls.
\<close>

theorem histogram_exact:
  "let m = monitoring_run capacity deadline started t calls in
    rgHistogramCounts (mnRegistry m) = map (\<lambda>b. of_nat (length (filter (\<lambda>d. d \<le> b) (mnObserved m)))) buckets \<and>
    rgHistogramCount (mnRegistry m) = of_nat (length (mnObserved m))"
  using run_ok(1) [of capacity deadline started t calls] by (simp add: monitoring_ok_def Let_def below_def [abs_def])

end
