(* ===== verification/ReflectorReports.thy ===== *)
theory ReflectorReports
  imports ReflectorProps MonitorProps
begin

text \<open>
  What the reflector reports: every call of its metric sink is one that the registry accepts, and
  every event is one of the documented types with the documented details. The proof goes
  through every handler, timer and phase of the shutdown.
\<close>

section \<open>Documented reports\<close>

text \<open>
  The calls of the metric sink: those that the registry counts, with a documented metric, documented labels and
  documented values; the observations of durations, which are not counters; and the traffic of packets
  whose type is not registered, which has no name: the registry refuses these.
\<close>

definition untyped_traffic :: "string \<Rightarrow> labels \<Rightarrow> bool" where
  "untyped_traffic name ls \<longleftrightarrow> name \<in> {''opusref_packets_total'', ''opusref_bytes_total''} \<and>
     ls \<in> {[(''direction'', ''rx''), (''packet_type'', [])], [(''direction'', ''tx''), (''packet_type'', [])]}"

definition metric_ok :: "metric_call \<Rightarrow> bool" where
  "metric_ok c = (case c of (name, ls, amount) \<Rightarrow> accepted_labels name ls \<noteq> None \<or>
     name = ''ObserveStreamDuration'' \<and> ls = [] \<or> untyped_traffic name ls)"

text \<open>The table of event types in the document, and the fixed values of their details.\<close>

definition event_details :: "string \<Rightarrow> string list option" where
  "event_details = map_of [
     (''client_connected'', [''session_id'', ''node_callsign'']),
     (''client_disconnected'', [''session_id'', ''node_callsign'', ''reason'']),
     (''authentication_failed'', []),
     (''stream_granted'', [''session_id'', ''stream_id'']),
     (''stream_busy'', []),
     (''stream_active'', [''session_id'', ''stream_id'']),
     (''stream_ended'', [''session_id'', ''stream_id'', ''reason'']),
     (''stream_timeout'', [''session_id'', ''stream_id'', ''reason'']),
     (''transmit_time_limit'', [''session_id'', ''stream_id'', ''reason'']),
     (''malformed_packet'', []),
     (''queue_drop'', [''queue'', ''item_type'', ''frame_count'', ''recipient_count'']),
     (''control_overload'', [''session_id''])]"

definition disconnect_reasons :: "string list" where
  "disconnect_reasons = [''client_request'', ''server_shutdown'', ''session_timeout'', ''control_overload'',
     ''admission_delivery_failure'']"

definition detail_ok :: "string \<Rightarrow> string \<times> detail \<Rightarrow> bool" where
  "detail_ok typ d = (case d of
       (k, DText s) \<Rightarrow> if k = ''reason'' then s \<in> set disconnect_reasons
         else if k = ''queue'' then s \<in> set [''server_media'', ''server_control'']
         else if k = ''item_type'' then s \<in> set [''audio'', ''data'', ''control''] else k = ''node_callsign''
     | (k, DReason x) \<Rightarrow> k = ''reason'' \<and>
         (typ = ''stream_timeout'' \<longrightarrow> x = EndGrantTimeout \<or> x = EndMediaInactivity) \<and>
         (typ = ''transmit_time_limit'' \<longrightarrow> x = EndTransmitTimeLimit)
     | _ \<Rightarrow> True)"

definition event_ok :: "EventRecord \<Rightarrow> bool" where
  "event_ok ev \<longleftrightarrow> event_details (evType ev) = Some (map fst (evDetails ev)) \<and> list_all (detail_ok (evType ev)) (evDetails ev) \<and>
     evSeverity ev \<in> set [''info'', ''warn'', ''error'']"

definition reports_ok :: "Reflector \<Rightarrow> bool" where
  "reports_ok r \<longleftrightarrow> list_all metric_ok (metrics r) \<and> list_all event_ok (events r)"

section \<open>A calculus of reports\<close>

definition reports :: "Reflector option \<Rightarrow> bool" where
  "reports m \<longleftrightarrow> (case m of None \<Rightarrow> True | Some r \<Rightarrow> reports_ok r)"

definition reports_with :: "('x \<times> Reflector) option \<Rightarrow> bool" where
  "reports_with m \<longleftrightarrow> (case m of None \<Rightarrow> True | Some (_, r) \<Rightarrow> reports_ok r)"

named_theorems report_simps \<open>which operations leave the reports as they are, or add to them\<close>

lemma reports_simps [report_simps]:
  "reports None" "reports (Some r) = reports_ok r" "reports_with None" "reports_with (Some (x, r)) = reports_ok r"
  by (simp_all add: reports_def reports_with_def)

lemma reports_bind:
  "reports m \<Longrightarrow> (\<And>r. reports_ok r \<Longrightarrow> reports (f r)) \<Longrightarrow> reports (m \<bind> f)"
  by (cases m) (simp_all add: reports_simps)

lemma reports_bind_with:
  "reports_with m \<Longrightarrow> (\<And>x r. reports_ok r \<Longrightarrow> reports (f (x, r))) \<Longrightarrow> reports (m \<bind> f)"
  by (cases m) (auto simp: reports_simps)

lemma reports_with_bind:
  "reports m \<Longrightarrow> (\<And>r. reports_ok r \<Longrightarrow> reports_with (f r)) \<Longrightarrow> reports_with (m \<bind> f)"
  by (cases m) (simp_all add: reports_simps)

lemma reports_with_bind_with:
  "reports_with m \<Longrightarrow> (\<And>x r. reports_ok r \<Longrightarrow> reports_with (f (x, r))) \<Longrightarrow> reports_with (m \<bind> f)"
  by (cases m) (auto simp: reports_simps)

lemma reports_bind_value:
  "(\<And>v. m = Some v \<Longrightarrow> reports (f v)) \<Longrightarrow> reports (m \<bind> f)" for m :: "u64 option"
  by (cases m) (simp_all add: reports_simps)

lemma reports_with_bind_value:
  "(\<And>v. m = Some v \<Longrightarrow> reports_with (f v)) \<Longrightarrow> reports_with (m \<bind> f)" for m :: "u64 option"
  by (cases m) (simp_all add: reports_simps)

lemma reports_ok_metric [report_simps]: "reports_ok (metric n ls v r) \<longleftrightarrow> metric_ok (n, ls, v) \<and> reports_ok r"
  by (auto simp: reports_ok_def metric_def)

lemma reports_ok_event [report_simps]:
  "reports_ok (event typ sev ds r) \<longleftrightarrow> event_ok \<lparr>evType = typ, evSeverity = sev, evDetails = ds\<rparr> \<and> reports_ok r"
  by (auto simp: reports_ok_def event_def)

lemma reports_ok_update [report_simps]:
  "reports_ok (r\<lparr>engine := e\<rparr>) = reports_ok r" "reports_ok (r\<lparr>transport := u\<rparr>) = reports_ok r"
  "reports_ok (r\<lparr>challenges := cs\<rparr>) = reports_ok r" "reports_ok (r\<lparr>peers := ps\<rparr>) = reports_ok r"
  "reports_ok (r\<lparr>transactions := ts\<rparr>) = reports_ok r" "reports_ok (r\<lparr>pending := ns\<rparr>) = reports_ok r"
  "reports_ok (r\<lparr>snapshot := s\<rparr>) = reports_ok r" "reports_ok (r\<lparr>random := b\<rparr>) = reports_ok r"
  by (simp_all add: reports_ok_def)

lemma reports_ok_set_peer [report_simps]: "reports_ok (set_peer sid f r) = reports_ok r"
  by (simp add: set_peer_def report_simps split: option.split)

lemma reports_ok_reads [report_simps]:
  "reports_ok (snd (Clock r)) = reports_ok r" "reports_ok (snd (EngineSnapshot r)) = reports_ok r"
  "reports_ok (snd (ReadRandom n r)) = reports_ok r"
  using EngineSnapshot_eq [of r]
  by (auto simp: Clock_eq report_simps ReadRandom_def split: prod.split sum.split)

lemma reports_ok_transactionID [report_simps]: "reports_ok (snd (transactionID r)) = reports_ok r"
proof (induction r rule: transactionID.induct)
  case (1 r)
  show ?case
  proof (cases "ReadRandom 8 r")
    case (Pair b r1)
    then have "reports_ok r1 = reports_ok r" using reports_ok_reads(3) [of 8 r] by simp
    with 1 Pair show ?thesis by (cases b) (simp_all add: transactionID.simps [of r] Let_def)
  qed
qed

lemma range_loop_reports:
  "(\<And>k v r. reports_ok r \<Longrightarrow> reports (f k v r)) \<Longrightarrow> reports_ok r \<Longrightarrow> reports (range_loop m f ks r)"
proof (induction ks arbitrary: r)
  case (Cons k ks)
  then show ?case by (auto simp: report_simps split: option.split intro!: reports_bind)
qed (simp add: report_simps)

section \<open>The reports themselves\<close>

lemmas label_tables = accepted_labels_code metricLabels_def metricValueOverrides_def labelValues_def

lemma packetName_known: "packetName t = [] \<or> packetName t \<in> set (the (labelValues ''packet_type''))"
proof -
  let ?l = "[(PacketHello, ''hello''), (PacketChallenge, ''challenge''), (PacketAuthenticate, ''authenticate''), (PacketWelcome, ''welcome''),
     (PacketKeepalive, ''keepalive''), (PacketDisconnect, ''disconnect''), (PacketError, ''error''), (PacketStreamRequest, ''stream_request''),
     (PacketStreamGrant, ''stream_grant''), (PacketStreamBusy, ''stream_busy''), (PacketStreamStart, ''stream_start''),
     (PacketStreamEnd, ''stream_end''), (PacketStreamRevoke, ''stream_revoke''), (PacketAudio, ''audio''), (PacketData, ''data'')]"
  have eq: "packetName t = (case map_of ?l t of None \<Rightarrow> [] | Some s \<Rightarrow> s)" unfolding packetName_def ..
  have names: "the (labelValues ''packet_type'') = map snd ?l" by (simp add: labelValues_def)
  show ?thesis
  proof (cases "map_of ?l t")
    case (Some s)
    then have "(t, s) \<in> set ?l" by (rule map_of_SomeD)
    then have "s \<in> set (map snd ?l)" unfolding set_map by (rule image_eqI [rotated]) simp
    then show ?thesis unfolding eq Some names by simp
  qed (simp only: eq option.case simp_thms)
qed

lemma metric_ok_traffic:
  assumes "d \<in> {''rx'', ''tx''}" and "name \<in> {''opusref_packets_total'', ''opusref_bytes_total''}"
  shows "metric_ok (name, [(''direction'', d), (''packet_type'', packetName t)], v)"
proof (cases "packetName t = []")
  case True
  with assms show ?thesis by (auto simp: metric_ok_def untyped_traffic_def)
next
  case False
  let ?ls = "[(''direction'', d), (''packet_type'', packetName t)]"
  have known: "packetName t \<in> set (the (labelValues ''packet_type''))" using packetName_known [of t] False by simp
  have "metricLabels name = Some [''direction'', ''packet_type'']" "metricValueOverrides (name, l) = None" for l
    using assms(2) by (auto simp: metricLabels_def metricValueOverrides_def)
  moreover have "labelValues ''direction'' = Some [''rx'', ''tx'']" by (simp add: labelValues_def)
  moreover obtain vs where "labelValues ''packet_type'' = Some vs" by (simp add: labelValues_def)
  ultimately have "accepted_labels name ?ls \<noteq> None"
    using assms(1) known by (auto simp: accepted_labels_code)
  then show ?thesis by (simp add: metric_ok_def)
qed

lemma metric_ok_end [report_simps]: "metric_ok (''opusref_stream_end_total'', [(''reason'', reason_text x)], v)"
  by (cases x) (simp_all add: metric_ok_def label_tables reason_text_def)

lemma metric_ok_error [report_simps]:
  "metric_ok (''opusref_packet_errors_total'', [(''reason'', validation_reason x)], v)"
  "metric_ok (''opusref_packet_errors_total'', [(''reason'', wire_reason err)], v)"
  by (cases "veReason x"; simp add: metric_ok_def label_tables validation_reason_def)
     (cases err; simp add: metric_ok_def label_tables wire_reason_def)

lemma metric_ok_fixed [report_simps]:
  "s \<in> set [''limit_exceeded'', ''transaction_conflict'', ''invalid_session'', ''address_mismatch''] \<Longrightarrow>
    metric_ok (''opusref_packet_errors_total'', [(''reason'', s)], v)"
  "s \<in> set [''session'', ''grant'', ''media_inactivity'', ''transmit_time_limit'', ''transaction'', ''challenge'', ''shutdown''] \<Longrightarrow>
    metric_ok (''opusref_timeouts_total'', [(''kind'', s)], v)"
  "s \<in> set [''granted'', ''busy''] \<Longrightarrow> metric_ok (''opusref_streams_total'', [(''result'', s)], v)"
  "metric_ok (''opusref_busy_total'', [], v)" "metric_ok (''ObserveStreamDuration'', [], v)"
  "s \<in> set [''audio'', ''data''] \<Longrightarrow> metric_ok (''opusref_fanout_frames_total'', [(''item_type'', s)], v)"
  "s \<in> set [''audio'', ''data''] \<Longrightarrow> metric_ok (''opusref_fanout_recipients_total'', [(''item_type'', s)], v)"
  by (auto simp: metric_ok_def label_tables)

lemma reports_ok_traffic [report_simps]: "d \<in> {''rx'', ''tx''} \<Longrightarrow> reports_ok (traffic d t n r) = reports_ok r"
  by (auto simp: traffic_def Let_def report_simps metric_ok_traffic)

lemma reports_ok_auth [report_simps]:
  "s \<in> set [''accepted'', ''rejected'', ''overloaded''] \<Longrightarrow> reports_ok (auth_metric s r) = reports_ok r"
  "s \<in> set [''accepted'', ''rejected'', ''overloaded''] \<Longrightarrow> reports_ok (authenticationFailure s r) = reports_ok r"
  by (auto simp: auth_metric_def authenticationFailure_def report_simps metric_ok_def label_tables auth_mode_def event_ok_def
    event_details_def)

definition drop_queues :: "(string \<times> string) set" where
  "drop_queues = {(''server_media'', ''audio''), (''server_media'', ''data''), (''server_control'', ''control'')}"

lemma accepted_drop:
  assumes "(q, i) \<in> drop_queues"
  shows "accepted_labels ''opusref_queue_drops_total'' [(''queue'', q), (''item_type'', i)] \<noteq> None"
    and "accepted_labels ''opusref_queue_drop_recipients_total'' [(''queue'', q), (''item_type'', i)] \<noteq> None"
proof -
  have "list_all (\<lambda>(q, i). accepted_labels ''opusref_queue_drops_total'' [(''queue'', q), (''item_type'', i)] \<noteq> None \<and>
      accepted_labels ''opusref_queue_drop_recipients_total'' [(''queue'', q), (''item_type'', i)] \<noteq> None)
    [(''server_media'', ''audio''), (''server_media'', ''data''), (''server_control'', ''control'')]" by code_simp
  with assms show "accepted_labels ''opusref_queue_drops_total'' [(''queue'', q), (''item_type'', i)] \<noteq> None"
    and "accepted_labels ''opusref_queue_drop_recipients_total'' [(''queue'', q), (''item_type'', i)] \<noteq> None"
    unfolding drop_queues_def by auto
qed

lemma metric_ok_drop:
  assumes "(q, i) \<in> drop_queues"
  shows "metric_ok (''opusref_queue_drops_total'', [(''queue'', q), (''item_type'', i)], f)"
    and "metric_ok (''opusref_queue_drop_recipients_total'', [(''queue'', q), (''item_type'', i)], f)"
  using accepted_drop [OF assms] by (simp_all add: metric_ok_def)

lemma event_ok_drop:
  "(q, i) \<in> drop_queues \<Longrightarrow> event_ok \<lparr>evType = ''queue_drop'', evSeverity = ''warn'', evDetails = [(''queue'', DText q),
     (''item_type'', DText i), (''frame_count'', DCount f), (''recipient_count'', DCount n)]\<rparr>"
  by (auto simp: event_ok_def event_details_def detail_ok_def drop_queues_def)

lemma reports_ok_queueDrop:
  "(q, i) \<in> drop_queues \<Longrightarrow> reports_ok (queueDrop q i f n r) = reports_ok r"
  by (simp add: queueDrop_def Let_def report_simps metric_ok_drop event_ok_drop)

lemmas reports_ok_drops [report_simps] =
  reports_ok_queueDrop [of "''server_media''" "''audio''", unfolded drop_queues_def, simplified]
  reports_ok_queueDrop [of "''server_media''" "''data''", unfolded drop_queues_def, simplified]
  reports_ok_queueDrop [of "''server_control''" "''control''", unfolded drop_queues_def, simplified]

lemma reports_ok_packet_error [report_simps]:
  "metric_ok (''opusref_packet_errors_total'', [(''reason'', s)], 1) \<Longrightarrow> reports_ok (packet_error s r) = reports_ok r"
  "metric_ok (''opusref_packet_errors_total'', [(''reason'', s)], 1) \<Longrightarrow> reports_ok (malformed_packet s r) = reports_ok r"
  by (simp_all add: packet_error_def malformed_packet_def report_simps event_ok_def event_details_def)

lemma reports_ok_log_end [report_simps]: "reports_ok (log_end x r) = reports_ok r"
  by (auto simp: log_end_def Let_def report_simps event_ok_def event_details_def detail_ok_def stream_details_def)

lemma reports_ok_disconnectPeer [report_simps]:
  "s \<in> set disconnect_reasons \<Longrightarrow> reports_ok (snd (disconnectPeer sid s r)) = reports_ok r"
  by (auto simp: disconnectPeer_def Let_def case_prod_beta report_simps event_ok_def event_details_def detail_ok_def split: option.split)

section \<open>Notifications\<close>

lemmas handler_simps = Let_def case_prod_beta disconnect_reasons_def

lemma controlOverload_reports:
  assumes "\<And>x r. reports_ok r \<Longrightarrow> reports (again x r)" and "reports_ok r"
  shows "reports (controlOverload_with again sid r)"
  using assms by (auto simp: controlOverload_with_def handler_simps report_simps event_ok_def event_details_def detail_ok_def split: option.split)

lemma sendControl_reports:
  assumes "\<And>x r. reports_ok r \<Longrightarrow> reports (again x r)" and "reports_ok r"
  shows "reports (sendControl_with again a p r)"
  using assms by (auto simp: sendControl_with_def handler_simps report_simps split: option.split sum.split intro: controlOverload_reports)

lemma startNotification_reports:
  assumes "\<And>x r. reports_ok r \<Longrightarrow> reports (again x r)" and "reports_ok r"
  shows "reports (startNotification_with again sid a p r)"
  using assms
  by (auto simp: startNotification_with_def handler_simps report_simps split: option.split
    intro!: reports_bind_value controlOverload_reports sendControl_reports)

lemma notifyEnd_reports:
  assumes "\<And>x r. reports_ok r \<Longrightarrow> reports (again x r)" and "reports_ok r"
  shows "reports (notifyEnd_with again x r)"
  using assms unfolding notifyEnd_with_def Let_def
  by (intro range_loop_reports) (auto simp: notify_listener_def handler_simps report_simps intro!: startNotification_reports)

lemma notifyEnd_depth_reports: "reports_ok r \<Longrightarrow> reports (notifyEnd_depth n x r)"
  by (induction n arbitrary: x r) (simp_all add: report_simps notifyEnd_reports)

lemma notify_reports:
  assumes "reports_ok r"
  shows "reports (notifyEnd x r)" "reports (controlOverload sid r)" "reports (sendControl a p r)" "reports (startNotification sid a p r)"
  using assms notifyEnd_depth_reports
  by (auto simp: notifyEnd_def controlOverload_def sendControl_def startNotification_def
    intro!: controlOverload_reports sendControl_reports startNotification_reports)

section \<open>Handlers\<close>

lemma notifyStart_reports: "reports_ok r \<Longrightarrow> reports (notifyStart sid fl r)"
  by (auto simp: notifyStart_def handler_simps report_simps split: option.split intro!: notify_reports)

lemma enqueueRaw_reports [report_simps]: "reports_ok (snd (enqueueRaw a d r)) = reports_ok r"
  by (auto simp: enqueueRaw_def handler_simps report_simps split: option.split)

lemma replayOverload_reports: "reports_ok r \<Longrightarrow> reports (replayOverload a d r)"
  by (auto simp: replayOverload_def handler_simps report_simps split: option.split intro!: notify_reports)

lemma sendError_reports: "reports_ok r \<Longrightarrow> reports (sendError a p code r)"
  by (auto simp: sendError_def handler_simps report_simps intro!: notify_reports)

lemma hello_reports: "reports_ok r \<Longrightarrow> reports_ok (snd (hello a p r))"
  using reports_ok_reads(3) [of 32 r]
  by (auto simp: hello_def handler_simps report_simps split: option.split)

lemma admit_reports: "reports_ok r \<Longrightarrow> reports_ok (snd (admit a key node t r))"
proof (induction a key node t r rule: admit.induct)
  case (1 a key node t r)
  obtain b r1 where b: "ReadRandom 8 r = (b, r1)" by force
  with reports_ok_reads(3) [of 8 r] 1(2) have r1: "reports_ok r1" by simp
  show ?case
  proof (cases b)
    case None
    with b r1 show ?thesis by (simp add: admit.simps [of a key node t r])
  next
    case (Some raw)
    let ?x = "if (get_be raw :: u64) \<noteq> 0 then AddSession (get_be raw) a node False (engine r1) else (False, engine r1)"
    show ?thesis
    proof (cases "fst ?x")
      case False
      have "reports_ok (snd (admit a key node t (r1\<lparr>engine := snd ?x\<rparr>)))"
        by (rule 1(1) [OF b [symmetric] Some refl refl _ _]) (use False r1 in \<open>auto simp: report_simps prod_eq_iff\<close>)
      with False b Some show ?thesis by (simp add: admit.simps [of a key node t r] Let_def case_prod_beta)
    next
      case True
      with b Some r1 show ?thesis
        by (simp add: admit.simps [of a key node t r] handler_simps report_simps event_ok_def event_details_def detail_ok_def)
    qed
  qed
qed

lemma authenticate_reports: "reports_ok r \<Longrightarrow> reports_ok (snd (authenticate a p r))"
  by (auto simp: authenticate_def handler_simps report_simps event_ok_def event_details_def split: option.split intro!: admit_reports)

lemma control_reports: "reports_ok r \<Longrightarrow> reports_with (control sid p r)"
  by (auto simp: control_def notifyEnd_ptr_def handler_simps report_simps event_ok_def event_details_def detail_ok_def
    split: option.split sum.split
    intro!: reports_with_bind notify_reports range_loop_reports notifyStart_reports)

lemma ack_reports: "reports_ok r \<Longrightarrow> reports_with (ack sid p r)"
  by (auto simp: ack_def handler_simps report_simps split: option.split intro!: reports_with_bind_value)

lemma enqueue_batch_reports: "reports_ok r \<Longrightarrow> reports_ok (enqueue_batch p raw rs r)"
  by (auto simp: enqueue_batch_def handler_simps report_simps)

lemma media_reports: "reports_ok r \<Longrightarrow> reports_ok (snd (media sid a p raw r))"
  by (auto simp: media_def handler_simps report_simps event_ok_def event_details_def detail_ok_def split: sum.split intro!: enqueue_batch_reports)

lemma undo_delivery_reports: "reports_ok r \<Longrightarrow> reports (undo_delivery a p r)"
  by (auto simp: undo_delivery_def handler_simps report_simps split: option.split intro!: range_loop_reports notify_reports)

lemma late_start_reports: "reports_ok r \<Longrightarrow> reports (late_start p r)"
  by (auto simp: late_start_def handler_simps report_simps split: option.split intro!: notifyStart_reports)

lemma replayDisconnect_reports: "reports_ok r \<Longrightarrow> reports_with (replayDisconnect a p r)"
  by (auto simp: replayDisconnect_def handler_simps report_simps split: option.split sum.split bool.split
    intro!: reports_with_bind reports_with_bind_value replayOverload_reports)

lemma transact_reports:
  assumes "\<And>p r. reports_ok r \<Longrightarrow> reports_with (f p r)" and "reports_ok r"
  shows "reports_with (transact a p f r)"
proof -
  have finish: "reports_with (case enqueueRaw a d r of
      (False, r) \<Rightarrow> do { let r = (if c then r else r\<lparr>transactions := AList.delete k (transactions r)\<rparr>);
        r \<leftarrow> undo_delivery a q r; Some (False, r) }
    | (True, r) \<Rightarrow> do { r \<leftarrow> late_start q r; Some (b, r) })" if "reports_ok r" for r d c k q b
    using enqueueRaw_reports [of a d r] that
    by (cases "enqueueRaw a d r"; cases "fst (enqueueRaw a d r)")
      (auto simp: report_simps Let_def intro!: reports_with_bind undo_delivery_reports late_start_reports)
  have applied: "reports_with (do {
      (response, r) \<leftarrow> f (sort_extensions p) r;
      if hType (pHeader response) = 0 then Some (False, r)
      else case Encode response of
        None \<Rightarrow> None
      | Some (Inl _) \<Rightarrow> Some (False, r)
      | Some (Inr data) \<Rightarrow>
          let (at, r) = Clock r;
              r = r\<lparr>transactions := AList.update key \<lparr>coFingerprint = fp, coResponse = data, coAddress = a, coAt = at\<rparr> (transactions r)\<rparr> in
          (case enqueueRaw a data r of
             (False, r) \<Rightarrow> do {
               let r = (if hType (pHeader (sort_extensions p)) = PacketDisconnect \<and> hSessionID (pHeader (sort_extensions p)) \<noteq> 0 then r
                        else r\<lparr>transactions := AList.delete key (transactions r)\<rparr>);
               r \<leftarrow> undo_delivery a (sort_extensions p) r;
               Some (False, r)
             }
           | (True, r) \<Rightarrow> do {
               r \<leftarrow> late_start (sort_extensions p) r;
               Some (hType (pHeader response) \<noteq> PacketError, r)
             }) })" for key fp
    using assms(2)
    by (intro reports_with_bind_with assms(1), assumption)
      (auto simp: Let_def Clock_eq report_simps split: option.split sum.split intro!: finish)
  have replay: "reports_with (case enqueueRaw a d r of
      (False, r) \<Rightarrow> do { r \<leftarrow> replayOverload a d r; Some (False, r) } | (True, r) \<Rightarrow> Some (b, r))" for d b
    using enqueueRaw_reports [of a d r] assms(2)
    by (cases "enqueueRaw a d r"; cases "fst (enqueueRaw a d r)")
      (auto simp: report_simps intro!: reports_with_bind replayOverload_reports)
  show ?thesis
    unfolding transact_def Let_def
    by (auto simp: report_simps assms(2) split: option.split
      intro!: reports_with_bind_value reports_with_bind sendError_reports replay applied [unfolded Let_def])
qed

lemma handshake_reports:
  "(\<And>a p r. reports_ok r \<Longrightarrow> reports_ok (snd (f a p r))) \<Longrightarrow> reports_ok r \<Longrightarrow> reports (handshake a p f r)"
  by (auto simp: handshake_def handler_simps report_simps split: option.split
    intro!: reports_bind_with transact_reports) (metis prod.collapse reports_simps(4))

lemma dispatch_reports: "reports_ok r \<Longrightarrow> reports_with (dispatch a sid p d r)"
  using media_reports [of r sid a p d]
  by (cases "media sid a p d r") (auto simp: dispatch_def Let_def report_simps intro!: transact_reports control_reports ack_reports)

lemma handle_peer_reports: "reports_ok r \<Longrightarrow> reports (handle_peer a p d r)"
  by (auto simp: handle_peer_def handler_simps report_simps split: option.split intro!: reports_bind_with dispatch_reports)

lemma handle_packet_reports: "reports_ok r \<Longrightarrow> reports (handle_packet a p d r)"
  by (auto simp: handle_packet_def handler_simps report_simps
    intro!: reports_bind_with handshake_reports hello_reports authenticate_reports replayDisconnect_reports handle_peer_reports)

lemma reports_publish [report_simps]: "reports_ok (publish r) = reports_ok r"
  by (simp add: publish_def handler_simps report_simps)

lemma handle_reports: "reports_ok r \<Longrightarrow> reports (handle a d r)"
  by (auto simp: handle_def handler_simps report_simps split: option.split sum.split intro!: reports_bind handle_packet_reports)

lemma handleDrain_reports: "reports_ok r \<Longrightarrow> reports (handleDrain a d r)"
  by (auto simp: handleDrain_def handler_simps report_simps split: option.split sum.split
    intro!: reports_bind_with ack_reports transact_reports control_reports)

section \<open>Timers and shutdown\<close>

lemma tick_peer_reports: "reports_ok r \<Longrightarrow> reports (tick_peer t sid q r)"
  by (auto simp: tick_peer_def handler_simps report_simps split: option.split intro!: notify_reports)

lemma tick_engine_reports: "reports_ok r \<Longrightarrow> reports (tick_engine r)"
  by (auto simp: tick_engine_def handler_simps report_simps split: option.split intro!: notify_reports)

lemma reports_bind_time: "(\<And>v. m = Some v \<Longrightarrow> reports (f v)) \<Longrightarrow> reports (m \<bind> f)" for m :: "time option"
  by (cases m) (simp_all add: reports_simps)

lemma tick_pending_reports: "reports_ok r \<Longrightarrow> reports (tick_pending t key n r)"
  by (auto simp: tick_pending_def handler_simps report_simps split: option.split intro!: reports_bind_time notify_reports)

lemma reports_fold: "(\<And>x r. reports_ok (f x r) = reports_ok r) \<Longrightarrow> reports_ok (fold f xs r) = reports_ok r"
  by (induction xs arbitrary: r) simp_all

lemma tick_reports:
  assumes "reports_ok r"
  shows "reports (tick r)"
proof -
  have "reports_ok (fold (\<lambda>_. metric ''opusref_timeouts_total'' [(''kind'', ''challenge'')] 1) xs r') = reports_ok r'" for xs :: "(string \<times> challenge) list" and r'
    by (rule reports_fold) (simp add: report_simps)
  with assms show ?thesis
    by (auto simp: tick_def handler_simps report_simps
      intro!: reports_bind range_loop_reports tick_peer_reports tick_engine_reports tick_pending_reports)
qed

lemma background_reports: "reports_ok r \<Longrightarrow> reports_ok (background_step b r)"
  by (cases b) (auto simp: report_simps reports_ok_def split: option.split)

lemma drainPending_reports: "reports_ok r \<Longrightarrow> reports (drainPending evs r)"
proof (induction evs arbitrary: r)
  case (Cons ev evs)
  then show ?case
    by (cases ev) (auto simp: report_simps background_reports simp del: background_step.simps split: option.split
      intro!: reports_bind handleDrain_reports tick_reports)
qed (simp add: report_simps)

lemma begin_drain_reports:
  assumes "reports_ok r"
  shows "reports (begin_drain r)"
proof -
  have "reports_ok (fold log_drop ds r') = reports_ok r'" for ds r'
    by (rule reports_fold) (auto simp: log_drop_def report_simps split: prod.split)
  with assms show ?thesis
    by (auto simp: begin_drain_def handler_simps report_simps split: option.split intro!: reports_bind notify_reports)
qed

lemma drain_reports:
  assumes "reports_ok r"
  shows "reports (drain evs1 evs2 r)"
proof -
  have "reports (say_goodbye r)" if "reports_ok r" for r
    using that by (auto simp: say_goodbye_def handler_simps report_simps intro!: range_loop_reports notify_reports)
  moreover have "reports (drop_peers r)" if "reports_ok r" for r
    using that by (auto simp: drop_peers_def handler_simps report_simps split: option.split intro!: range_loop_reports notify_reports)
  ultimately show ?thesis
    using assms by (auto simp: drain_def intro!: reports_bind begin_drain_reports drainPending_reports)
qed

lemma Run_step_reports: "reports_ok r \<Longrightarrow> reports (Run_step ev r)"
  by (cases ev) (auto simp: report_simps background_reports simp del: background_step.simps split: option.split
    intro!: handle_reports tick_reports)

section \<open>Property\<close>

lemma untyped_refused:
  assumes "untyped_traffic name ls"
  shows "fst (Registry_Add name ls amount reg) = Some (InvalidLabel ''packet_type'')"
proof -
  have "metricLabels name = Some [''direction'', ''packet_type'']" "metricValueOverrides (name, l) = None" for l
    using assms by (auto simp: untyped_traffic_def metricLabels_def metricValueOverrides_def)
  moreover have "labelValues ''direction'' = Some [''rx'', ''tx'']" by (simp add: labelValues_def)
  moreover obtain vs where "labelValues ''packet_type'' = Some vs" "[] \<notin> set vs" by (simp add: labelValues_def)
  ultimately show ?thesis using assms by (auto simp: untyped_traffic_def Registry_Add_def)
qed

lemma accepted_counted: "accepted_labels name ls \<noteq> None \<Longrightarrow> fst (Registry_Add name ls amount reg) = None"
  by (auto simp: accepted_labels_code Registry_Add_def Let_def split: option.splits if_splits sum.splits)

lemma NewReflector_reports: "NewReflector q c rnd uni = Inr r \<Longrightarrow> reports_ok r"
  using EngineSnapshot_eq
  by (auto simp: reports_ok_def NewReflector_def publish_def Clock_eq Let_def case_prod_beta EngineSnapshot_def
    split: sum.splits if_splits option.splits)

interpretation reporting: machine server_init server_step reports
proof
  show "server_init s \<Longrightarrow> reports s" for s
    by (auto simp: server_init_def report_simps dest: NewReflector_reports)
  show "reports (server_step s ev)" if "reports s" for s ev
    using that Run_step_reports by (cases s) (simp_all add: server_step_def report_simps)
qed

lemma reports_run:
  assumes "NewReflector q c rnd uni = Inr r" and "run server_step (Some r) evs = Some r'"
  shows "reports_ok r'"
  using reporting.inv_reachable [of "Some r" evs] assms by (auto simp: server_init_def report_simps)

text \<open>
  C23. Reports are documented. Along every run of a new reflector, and through its shutdown, every call of the
  metric sink but the observations of durations has a documented metric, documented labels and documented
  values, and the registry counts it, whatever state it is in; the one exception is the traffic of packets whose
  type is not registered, which is reported with an empty packet type and which the registry refuses. Every event
  is of a documented type with exactly the documented details, reasons, queues and item types, and of
  severity info, warn or error: no text from the network is reported except callsigns.
\<close>

theorem reports_documented:
  assumes "NewReflector q c rnd uni = Inr r" and "run server_step (Some r) evs = Some r'"
    and "rs \<in> {Some r', drain evs1 evs2 r'}"
  shows "pred_option (\<lambda>r. list_all event_ok (events r) \<and>
    list_all (\<lambda>(name, ls, amount). accepted_labels name ls \<noteq> None \<and> fst (Registry_Add name ls amount reg) = None \<or>
      name = ''ObserveStreamDuration'' \<and> ls = [] \<or>
      untyped_traffic name ls \<and> fst (Registry_Add name ls amount reg) = Some (InvalidLabel ''packet_type'')) (metrics r)) rs"
proof -
  have r': "reports_ok r'" using assms(1,2) by (rule reports_run)
  with drain_reports [OF r', of evs1 evs2] assms(3) have "reports rs" by (auto simp: report_simps)
  moreover have "list_all (\<lambda>(name, ls, amount). accepted_labels name ls \<noteq> None \<and> fst (Registry_Add name ls amount reg) = None \<or>
      name = ''ObserveStreamDuration'' \<and> ls = [] \<or>
      untyped_traffic name ls \<and> fst (Registry_Add name ls amount reg) = Some (InvalidLabel ''packet_type'')) ms"
    if "list_all metric_ok ms" for ms
    using that by (induction ms) (auto simp: metric_ok_def accepted_counted untyped_refused)
  ultimately show ?thesis by (cases rs) (simp_all add: report_simps reports_ok_def)
qed

theorem reports_documented_witness:
  "\<exists>r'. run server_step (Some demo) [SReceive \<lparr>dAddress = ''a'', dData = [1, 2]\<rparr>, SHandle] = Some r' \<and>
    list_all event_ok (events r')"
proof -
  obtain r' where r': "run server_step (Some demo) [SReceive \<lparr>dAddress = ''a'', dData = [1, 2]\<rparr>, SHandle] = Some r'"
    using server_running [OF demo_new_ok] by blast
  have "Some r' \<in> {Some r', drain [] [] r'}" by simp
  from reports_documented [OF demo_new_ok r' this] r' show ?thesis by simp
qed

end
