(* ===== verification/ReflectorRun.thy ===== *)
theory ReflectorRun
  imports ReflectorReports
begin

text \<open>
  The loop of \<^verbatim>\<open>Run\<close> and \<^verbatim>\<open>Close\<close>: \<^verbatim>\<open>pkg/server/reflector.go\<close> from the first select to the last.
\<close>

section \<open>The loop\<close>

text \<open>
  One item of a script is a step of the running reflector (its inbound and ticker cases, and what the
  socket goroutines do meanwhile), the end of a socket goroutine with what it returned and
  whether the context was done by then, or the end of the context. The script may end before
  the loop does. The results are: still running, returned the error of a socket, returned from \<^verbatim>\<open>drain\<close>.
\<close>

datatype run_event = RunStep server_event | RunSocket bool "string option" | RunStop

datatype run_result = Running | Failed_socket "string option" | Drained

fun Run :: "drain_event list \<Rightarrow> drain_event list \<Rightarrow> run_event list \<Rightarrow> Reflector \<Rightarrow> (run_result \<times> Reflector) option" where
  "Run evs1 evs2 [] r = Some (Running, r)"
| "Run evs1 evs2 (RunStep ev # evs) r = do { r \<leftarrow> Run_step ev r; Run evs1 evs2 evs r }"
| "Run evs1 evs2 (RunSocket stopped err # evs) r =
     (if \<not> stopped then Some (Failed_socket err, r) else do { r \<leftarrow> drain evs1 evs2 r; Some (Drained, r) })"
| "Run evs1 evs2 (RunStop # evs) r = do { r \<leftarrow> drain evs1 evs2 r; Some (Drained, r) }"

text \<open>\<^verbatim>\<open>Close\<close>: the connection is closed once; later calls return nil.\<close>

definition Reflector_Close :: "string option \<Rightarrow> bool \<Rightarrow> string option \<times> bool" where
  "Reflector_Close conn_err closed = (if closed then (None, closed) else (conn_err, True))"

section \<open>Property\<close>

fun steps_only :: "run_event list \<Rightarrow> bool" where
  "steps_only [] = True"
| "steps_only (RunStep ev # evs) = steps_only evs"
| "steps_only _ = False"

lemma Run_result:
  assumes "refl_inv r" and "reports_ok r"
  shows "\<exists>res r'. Run evs1 evs2 evs r = Some (res, r') \<and> reports_ok r' \<and>
    (case res of Running \<Rightarrow> steps_only evs \<and> refl_inv r'
     | Failed_socket err \<Rightarrow> RunSocket False err \<in> set evs \<and> refl_inv r'
     | Drained \<Rightarrow> peers r' = [] \<and> sessions (engine r') = [] \<and> floor_of (engine r') = None)"
  using assms
proof (induction evs arbitrary: r)
  case (Cons e evs)
  have drained: "\<exists>r'. drain evs1 evs2 r = Some r' \<and> reports_ok r' \<and> peers r' = [] \<and> sessions (engine r') = [] \<and> floor_of (engine r') = None"
    using drain_empties [OF Cons.prems(1), of evs1 evs2] no_peers_no_sessions drain_reports [OF Cons.prems(2), of evs1 evs2]
    by (auto simp: report_simps)
  show ?case
  proof (cases e)
    case (RunStep ev)
    obtain r1 where r1: "Run_step ev r = Some r1" "refl_inv r1" using Run_step_inv [OF Cons.prems(1), of ev] by blast
    then have "reports_ok r1" using Run_step_reports [OF Cons.prems(2), of ev] by (simp add: report_simps)
    from Cons.IH [OF r1(2) this] r1(1) RunStep show ?thesis by (auto split: run_result.splits)
  next
    case (RunSocket stopped err)
    with drained Cons.prems show ?thesis by (cases stopped) auto
  next
    case RunStop
    with drained show ?thesis by auto
  qed
qed simp

text \<open>
  C15. \<^verbatim>\<open>Run\<close> returns. Whatever happens to a new reflector, \<^verbatim>\<open>Run\<close> does not panic; it goes on only as
  long as no socket goroutine ends and the context is not done. It returns the error of a socket
  only when that socket failed before the context was done. Otherwise it returns from the
  drain, and then no peer, no session and no holder of the floor is left.
\<close>

theorem Run_returns:
  assumes "NewReflector q c rnd uni = Inr r"
  shows "\<exists>res r'. Run evs1 evs2 evs r = Some (res, r') \<and> reports_ok r' \<and>
    (case res of Running \<Rightarrow> steps_only evs \<and> refl_inv r'
     | Failed_socket err \<Rightarrow> RunSocket False err \<in> set evs \<and> refl_inv r'
     | Drained \<Rightarrow> peers r' = [] \<and> sessions (engine r') = [] \<and> floor_of (engine r') = None)"
  by (rule Run_result [OF NewReflector_inv [OF assms] NewReflector_reports [OF assms]])

theorem Run_returns_witness:
  "\<exists>res r'. Run [DrainTimer] [DrainDone] [RunStep (SReceive \<lparr>dAddress = ''a'', dData = [1, 2]\<rparr>), RunStep SHandle, RunStep STick, RunStop] demo =
    Some (res, r') \<and> res \<noteq> Running"
proof -
  let ?evs = "[RunStep (SReceive \<lparr>dAddress = ''a'', dData = [1, 2]\<rparr>), RunStep SHandle, RunStep STick, RunStop]"
  obtain res r' where r': "Run [DrainTimer] [DrainDone] ?evs demo = Some (res, r')" and res: "case res of Running \<Rightarrow> steps_only ?evs \<and> refl_inv r'
     | Failed_socket err \<Rightarrow> RunSocket False err \<in> set ?evs \<and> refl_inv r'
     | Drained \<Rightarrow> peers r' = [] \<and> sessions (engine r') = [] \<and> floor_of (engine r') = None"
    using Run_returns [OF demo_new_ok, of "[DrainTimer]" "[DrainDone]" ?evs] by blast
  from res have "res \<noteq> Running" by (cases res) simp_all
  with r' show ?thesis by blast
qed

end
