(* ===== verification/QueueClient.thy ===== *)
theory QueueClient
  imports GoStd Systems
begin

text \<open>
  \<^verbatim>\<open>pkg/client/client.go\<close>: the client that applies queue and ownership rules around an injected
  sender.

  Its calls run on the goroutines of the application, so each is cut at the points where other
  goroutines can run: a critical section of the mutex, an operation on a channel, or a call of
  the sender is one step, and a \<open>thread\<close> says where a call is. Any number of threads share
  the client. The sender is not modelled: which of the optional interfaces it implements is
  \<open>Sender\<close>, and each of its answers is chosen by the environment. \<^verbatim>\<open>fail\<close> closes the channel
  \<^verbatim>\<open>done\<close> in the step that sets the error. A close of a closed channel, which panics, is
  \<^term>\<open>None\<close>.
\<close>

section \<open>Data\<close>

datatype client_error =
    ErrBackpressure
  | ErrApplicationBackpressure
  | ErrControlBackpressure
  | ErrNotConnected
  | ErrStreamInactive
  | ErrConnectInProgress
  | ErrBusy
  | ProtocolError u16 string
  | ErrText string
  | ErrJoin client_error client_error

datatype EventKind =
    EventStreamStart | EventAudio | EventData | EventStreamEnd | EventBusy | EventStatus | EventProtocolError

record Event =
  ceKind :: EventKind
  ceSessionID :: u64
  ceStreamID :: u32
  ceSequence :: u32
  ceTimestamp :: u32
  ceDataType :: u16
  ceNodeCallsign :: string
  ceSourceCallsign :: string
  cePayload :: bytes
  ceProtocolErrorCode :: u16
  ceMessage :: string

definition newEvent :: "EventKind \<Rightarrow> Event" where
  "newEvent k = \<lparr>ceKind = k, ceSessionID = 0, ceStreamID = 0, ceSequence = 0, ceTimestamp = 0, ceDataType = 0,
     ceNodeCallsign = [], ceSourceCallsign = [], cePayload = [], ceProtocolErrorCode = 0, ceMessage = []\<rparr>"

record Options =
  clServerAddress :: string
  clNodeCallsign :: string
  clSharedKey :: string
  clInboundQueuePackets :: int
  clApplicationQueueEvents :: int
  clMediaSendQueueFrames :: int
  clControlSendQueuePackets :: int
  clConnectTimeout :: duration
  clOperationTimeout :: duration

definition Options_defaults :: "Options \<Rightarrow> Options" where
  "Options_defaults q = q\<lparr>
     clInboundQueuePackets := (if clInboundQueuePackets q = 0 then 256 else clInboundQueuePackets q),
     clApplicationQueueEvents := (if clApplicationQueueEvents q = 0 then 256 else clApplicationQueueEvents q),
     clMediaSendQueueFrames := (if clMediaSendQueueFrames q = 0 then 256 else clMediaSendQueueFrames q),
     clControlSendQueuePackets := (if clControlSendQueuePackets q = 0 then 32 else clControlSendQueuePackets q),
     clConnectTimeout := (if clConnectTimeout q = 0 then 10 * Second else clConnectTimeout q),
     clOperationTimeout := (if clOperationTimeout q = 0 then 5 * Second else clOperationTimeout q)\<rparr>"

definition Options_validate :: "Options \<Rightarrow> client_error option" where
  "Options_validate q =
     (if clInboundQueuePackets q \<le> 0 \<or> clApplicationQueueEvents q \<le> 0 \<or> clMediaSendQueueFrames q \<le> 0 \<or>
         clControlSendQueuePackets q \<le> 0
      then Some (ErrText ''all client queue capacities must be positive'')
      else if clConnectTimeout q \<le> 0 \<or> clOperationTimeout q \<le> 0
      then Some (ErrText ''all client timeouts must be positive'')
      else None)"

record Outbound =
  ouKind :: EventKind
  ouStreamID :: u32
  ouSequence :: u32
  ouTimestamp :: u32
  ouDataType :: u16
  ouSourceCallsign :: string
  ouPayload :: bytes

definition newOutbound :: "EventKind \<Rightarrow> Outbound" where
  "newOutbound k = \<lparr>ouKind = k, ouStreamID = 0, ouSequence = 0, ouTimestamp = 0, ouDataType = 0,
     ouSourceCallsign = [], ouPayload = []\<rparr>"

text \<open>Which of the interfaces \<^verbatim>\<open>floorRequester\<close>, \<^verbatim>\<open>streamEnder\<close>, \<^verbatim>\<open>disconnecter\<close> and \<^verbatim>\<open>io.Closer\<close>
  the sender implements, and the calls it gets.\<close>

record Sender =
  seFloor :: bool
  seEnd :: bool
  seDisconnect :: bool
  seClose :: bool

datatype sender_call = CallSend Outbound | CallRequestFloor Outbound | CallEndFloor Outbound | CallDisconnect | CallClose

record QueueClient =
  qcOptions :: Options
  qcSender :: Sender
  qcEvents :: "Event chan"
  qcMedia :: "Outbound chan"
  qcProgress :: "unit chan"
  qcControl :: "Outbound chan"
  qcDone :: bool
  qcConnected :: bool
  qcConnecting :: bool
  qcStream :: bool
  qcEnding :: bool
  qcRequesting :: bool
  qcStreamID :: u32
  qcSequence :: u32
  qcLastTimestamp :: u32
  qcMediaAccepted :: u64
  qcMediaSent :: u64
  qcTerminal :: "client_error option"
  qcCloseResult :: "client_error option"
  qcCloseCalled :: bool
  qcCloseDone :: bool

definition New :: "Options \<Rightarrow> Sender option \<Rightarrow> client_error + QueueClient" where
  "New q sender =
     (let q = Options_defaults q in
      case Options_validate q of
        Some err \<Rightarrow> Inl err
      | None \<Rightarrow>
          if clServerAddress q = [] \<or> clNodeCallsign q = []
          then Inl (ErrText ''server address and node callsign are required'')
          else case sender of
            None \<Rightarrow> Inl (ErrText ''sender is required'')
          | Some s \<Rightarrow> Inr \<lparr>qcOptions = q, qcSender = s,
              qcEvents = make_chan (nat (clApplicationQueueEvents q)),
              qcMedia = make_chan (nat (clMediaSendQueueFrames q)), qcProgress = make_chan 1,
              qcControl = make_chan (nat (clControlSendQueuePackets q)), qcDone = False,
              qcConnected = False, qcConnecting = False, qcStream = False, qcEnding = False,
              qcRequesting = False, qcStreamID = 0, qcSequence = 0, qcLastTimestamp = 0,
              qcMediaAccepted = 0, qcMediaSent = 0, qcTerminal = None, qcCloseResult = None,
              qcCloseCalled = False, qcCloseDone = False\<rparr>)"

section \<open>Threads\<close>

text \<open>
  Where a call is: in \<^verbatim>\<open>Connect\<close> before the sender's answer or before the publication; in
  \<^verbatim>\<open>requestStream\<close> before the control slot or before the sender's answer; in \<^verbatim>\<open>EndStream\<close>
  likewise, with the two steps of \<^verbatim>\<open>waitMedia\<close>; before a deferred release of the control slot
  or a deferred reset of the flag of the call (\<open>Release\<close>, \<open>Done\<close>); in \<^verbatim>\<open>run\<close>; in
  \<^verbatim>\<open>closeContext\<close> or \<^verbatim>\<open>remoteClose\<close>; or returned.
\<close>

datatype thread =
    TConnectSend
  | TConnectPublish
  | TConnectDone "client_error option"
  | TRequestAcquire Outbound
  | TRequestSend Outbound
  | TRequestRelease "client_error option"
  | TRequestDone "client_error option"
  | TEndWait Outbound u64
  | TEndSelect Outbound u64
  | TEndAcquire Outbound
  | TEndSend Outbound
  | TEndRelease "client_error option"
  | TEndDone "client_error option"
  | TRunSelect
  | TRunSend Outbound
  | TRunCount
  | TRunProgress
  | TCloseWait
  | TCloseDisconnect bool
  | TCloseSender "client_error option"
  | TCloseFinish "client_error option"
  | TRemoteSender
  | TReturned "client_error option"

text \<open>
  What the environment decides in a step: the answer of the sender, whether the context is
  done, and whether a select with several ready cases takes the one of \<^verbatim>\<open>done\<close>.
\<close>

record answer =
  anErr :: "client_error option"
  anContext :: "client_error option"
  anDone :: bool

text \<open>A step returns the thread, the client, the goroutines it starts and the sender calls it makes.\<close>

type_synonym step_result = "thread \<times> QueueClient \<times> thread list \<times> sender_call list"

definition quietly :: "thread \<Rightarrow> QueueClient \<Rightarrow> step_result option" where
  "quietly t c = Some (t, c, [], [])"

section \<open>Failing, publishing and control slots\<close>

definition fail :: "client_error \<Rightarrow> QueueClient \<Rightarrow> QueueClient \<times> sender_call list" where
  "fail err c =
     (c\<lparr>qcTerminal := (if qcTerminal c = None then Some err else qcTerminal c), qcConnected := False,
        qcStream := False, qcDone := True\<rparr>,
      if seClose (qcSender c) then [CallClose] else [])"

definition publish_event :: "Event \<Rightarrow> bool \<Rightarrow> QueueClient \<Rightarrow> client_error option \<times> QueueClient \<times> sender_call list" where
  "publish_event ev required c =
     (case try_send (qcEvents c) ev of
        (True, ch) \<Rightarrow> (None, c\<lparr>qcEvents := ch\<rparr>, [])
      | (False, _) \<Rightarrow>
          if required then (let (c, calls) = fail ErrApplicationBackpressure c in (Some ErrApplicationBackpressure, c, calls))
          else (None, c, []))"

definition Publish :: "Event \<Rightarrow> QueueClient \<Rightarrow> client_error option \<times> QueueClient \<times> sender_call list" where
  "Publish ev = publish_event ev (ceKind ev \<noteq> EventAudio \<and> ceKind ev \<noteq> EventData)"

definition acquireControl :: "Outbound \<Rightarrow> QueueClient \<Rightarrow> client_error option \<times> QueueClient \<times> sender_call list" where
  "acquireControl out c =
     (case try_send (qcControl c) out of
        (True, ch) \<Rightarrow> (None, c\<lparr>qcControl := ch\<rparr>, [])
      | (False, _) \<Rightarrow> (let (c, calls) = fail ErrControlBackpressure c in (Some ErrControlBackpressure, c, calls)))"

text \<open>\<^verbatim>\<open>releaseControl\<close> would block on an empty channel: \<^term>\<open>None\<close>.\<close>

definition releaseControl :: "QueueClient \<Rightarrow> QueueClient option" where
  "releaseControl c = (case try_recv (qcControl c) of None \<Rightarrow> None | Some (_, ch) \<Rightarrow> Some (c\<lparr>qcControl := ch\<rparr>))"

definition revoke :: "u32 \<Rightarrow> QueueClient \<Rightarrow> bool \<times> QueueClient" where
  "revoke st c = (if \<not> qcStream c \<or> qcStreamID c \<noteq> st then (False, c) else (True, c\<lparr>qcStream := False\<rparr>))"

section \<open>Media\<close>

definition enqueueMedia :: "Outbound \<Rightarrow> QueueClient \<Rightarrow> client_error option \<times> QueueClient" where
  "enqueueMedia out c =
     (if \<not> qcStream c then (Some ErrStreamInactive, c)
      else let out = out\<lparr>ouStreamID := qcStreamID c, ouSequence := qcSequence c\<rparr> in
        case try_send (qcMedia c) out of
          (True, ch) \<Rightarrow> (None, c\<lparr>qcMedia := ch, qcSequence := qcSequence c + 1, qcLastTimestamp := ouTimestamp out,
             qcMediaAccepted := qcMediaAccepted c + 1\<rparr>)
        | (False, _) \<Rightarrow> (Some ErrBackpressure, c))"

definition SendAudio :: "u32 \<Rightarrow> bytes \<Rightarrow> QueueClient \<Rightarrow> client_error option \<times> QueueClient" where
  "SendAudio ts payload c =
     (if length payload < 1 \<or> length payload > 1168 then (Some (ErrText ''audio payload length is invalid''), c)
      else enqueueMedia ((newOutbound EventAudio)\<lparr>ouTimestamp := ts, ouPayload := payload\<rparr>) c)"

definition SendData :: "u32 \<Rightarrow> u16 \<Rightarrow> bytes \<Rightarrow> QueueClient \<Rightarrow> client_error option \<times> QueueClient" where
  "SendData ts typ payload c =
     (if typ = 0 \<or> length payload < 1 \<or> length payload > 1160 then (Some (ErrText ''data record is invalid''), c)
      else enqueueMedia ((newOutbound EventData)\<lparr>ouTimestamp := ts, ouDataType := typ, ouPayload := payload\<rparr>) c)"

section \<open>Calls\<close>

text \<open>The first critical section of each call; a thread that is \<open>TReturned\<close> has returned at once.\<close>

definition Connect :: "QueueClient \<Rightarrow> thread \<times> QueueClient" where
  "Connect c =
     (if qcConnected c then (TReturned None, c)
      else if qcConnecting c then (TReturned (Some ErrConnectInProgress), c)
      else (TConnectSend, c\<lparr>qcConnecting := True\<rparr>))"

definition next_stream :: "u32 \<Rightarrow> u32" where
  "next_stream st = (if st + 1 = 0 then st + 2 else st + 1)"

definition requestStream :: "string \<Rightarrow> QueueClient \<Rightarrow> thread \<times> QueueClient" where
  "requestStream source c =
     (if \<not> qcConnected c then (TReturned (Some ErrNotConnected), c)
      else if source = [] then (TReturned (Some (ErrText ''source callsign is required'')), c)
      else if qcStream c \<or> qcRequesting c \<or> qcEnding c
      then (TReturned (Some (ErrText ''stream request is already active'')), c)
      else (TRequestAcquire ((newOutbound EventStreamStart)\<lparr>ouStreamID := next_stream (qcStreamID c),
              ouSourceCallsign := source\<rparr>), c\<lparr>qcRequesting := True\<rparr>))"

definition EndStream :: "QueueClient \<Rightarrow> thread \<times> QueueClient" where
  "EndStream c =
     (if \<not> qcStream c then (TReturned (Some ErrStreamInactive), c)
      else (TEndWait ((newOutbound EventStreamEnd)\<lparr>ouStreamID := qcStreamID c, ouSequence := qcSequence c,
              ouTimestamp := qcLastTimestamp c\<rparr>) (qcMediaAccepted c),
            c\<lparr>qcStream := False, qcEnding := True\<rparr>))"

definition closeContext :: "QueueClient \<Rightarrow> thread \<times> QueueClient" where
  "closeContext c =
     (if qcCloseCalled c then (TCloseWait, c)
      else (TCloseDisconnect (qcConnected c \<and> qcTerminal c = None),
            c\<lparr>qcCloseCalled := True, qcConnected := False, qcStream := False\<rparr>))"

definition remoteClose :: "QueueClient \<Rightarrow> thread \<times> QueueClient" where
  "remoteClose c =
     (if qcCloseCalled c then (TReturned None, c)
      else (TRemoteSender, c\<lparr>qcCloseCalled := True, qcConnected := False, qcStream := False\<rparr>))"

text \<open>\<^verbatim>\<open>errors.Join\<close> of two errors: \<^verbatim>\<open>nil\<close> only when both are.\<close>

fun join_errors :: "client_error option \<Rightarrow> client_error option \<Rightarrow> client_error option" where
  "join_errors None e = e"
| "join_errors e None = e"
| "join_errors (Some a) (Some b) = Some (ErrJoin a b)"

section \<open>Steps of the calls\<close>

definition connect_send :: "answer \<Rightarrow> QueueClient \<Rightarrow> step_result option" where
  "connect_send an c =
     (case anErr an of
        Some err \<Rightarrow> Some (TConnectDone (Some err), c, [], [CallSend (newOutbound EventStatus)])
      | None \<Rightarrow> Some (TConnectPublish, c\<lparr>qcConnected := True\<rparr>, [TRunSelect], [CallSend (newOutbound EventStatus)]))"

definition connect_publish :: "QueueClient \<Rightarrow> step_result option" where
  "connect_publish c =
     (let (res, c, calls) = publish_event ((newEvent EventStatus)\<lparr>ceMessage := ''connected''\<rparr>) True c in
      Some (TConnectDone res, c, [], calls))"

definition request_acquire :: "Outbound \<Rightarrow> QueueClient \<Rightarrow> step_result option" where
  "request_acquire out c =
     (case acquireControl out c of
        (None, c, calls) \<Rightarrow> Some (TRequestSend out, c, [], calls)
      | (Some err, c, calls) \<Rightarrow> Some (TRequestDone (Some err), c, [], calls))"

text \<open>After the answer of the sender, and the critical section that a success enters.\<close>

definition request_send :: "answer \<Rightarrow> Outbound \<Rightarrow> QueueClient \<Rightarrow> step_result option" where
  "request_send an out c =
     Some (TRequestRelease (anErr an),
       (if anErr an = None
        then c\<lparr>qcStreamID := ouStreamID out, qcSequence := 0, qcLastTimestamp := 0, qcStream := True\<rparr> else c),
       [], [if seFloor (qcSender c) then CallRequestFloor out else CallSend out])"

text \<open>A deferred release of the control slot; \<open>t\<close> is what the call does next.\<close>

definition release_step :: "thread \<Rightarrow> QueueClient \<Rightarrow> step_result option" where
  "release_step t c = do { c \<leftarrow> releaseControl c; quietly t c }"

definition end_wait :: "Outbound \<Rightarrow> u64 \<Rightarrow> QueueClient \<Rightarrow> step_result option" where
  "end_wait out target c =
     (if qcMediaSent c \<ge> target then quietly (TEndAcquire out) c
      else case qcTerminal c of
        Some err \<Rightarrow> quietly (TEndDone (Some err)) c
      | None \<Rightarrow> quietly (TEndSelect out target) c)"

text \<open>
  The select of \<^verbatim>\<open>waitMedia\<close>. When \<^verbatim>\<open>done\<close> is closed it returns \<^verbatim>\<open>c.Err()\<close>, which is \<^verbatim>\<open>nil\<close>
  after a \<^verbatim>\<open>Close\<close> without failure: then \<^verbatim>\<open>EndStream\<close> goes on.
\<close>

definition end_select :: "answer \<Rightarrow> Outbound \<Rightarrow> u64 \<Rightarrow> QueueClient \<Rightarrow> step_result option" where
  "end_select an out target c =
     (case anContext an of
        Some err \<Rightarrow> quietly (TEndDone (Some err)) c
      | None \<Rightarrow>
          if qcDone c \<and> (anDone an \<or> ch_items (qcProgress c) = []) then
            (case qcTerminal c of
               Some err \<Rightarrow> quietly (TEndDone (Some err)) c
             | None \<Rightarrow> quietly (TEndAcquire out) c)
          else (case try_recv (qcProgress c) of
                  Some (_, ch) \<Rightarrow> quietly (TEndWait out target) (c\<lparr>qcProgress := ch\<rparr>)
                | None \<Rightarrow> quietly (TEndSelect out target) c))"

definition end_acquire :: "Outbound \<Rightarrow> QueueClient \<Rightarrow> step_result option" where
  "end_acquire out c =
     (case acquireControl out c of
        (None, c, calls) \<Rightarrow> Some (TEndSend out, c, [], calls)
      | (Some err, c, calls) \<Rightarrow> Some (TEndDone (Some err), c, [], calls))"

definition end_send :: "answer \<Rightarrow> Outbound \<Rightarrow> QueueClient \<Rightarrow> step_result option" where
  "end_send an out c =
     Some (TEndRelease (anErr an), c, [], [if seEnd (qcSender c) then CallEndFloor out else CallSend out])"

text \<open>The goroutine \<^verbatim>\<open>run\<close>.\<close>

definition run_select :: "answer \<Rightarrow> QueueClient \<Rightarrow> step_result option" where
  "run_select an c =
     (if qcDone c \<and> (anDone an \<or> ch_items (qcMedia c) = []) then quietly (TReturned None) c
      else case try_recv (qcMedia c) of
        Some (out, ch) \<Rightarrow> quietly (TRunSend out) (c\<lparr>qcMedia := ch\<rparr>)
      | None \<Rightarrow> quietly TRunSelect c)"

definition run_send :: "answer \<Rightarrow> Outbound \<Rightarrow> QueueClient \<Rightarrow> step_result option" where
  "run_send an out c =
     (case anErr an of
        Some err \<Rightarrow> let (c, calls) = fail err c in Some (TReturned None, c, [], CallSend out # calls)
      | None \<Rightarrow> Some (TRunCount, c, [], [CallSend out]))"

definition run_progress :: "QueueClient \<Rightarrow> step_result option" where
  "run_progress c = quietly TRunSelect (c\<lparr>qcProgress := snd (try_send (qcProgress c) ())\<rparr>)"

text \<open>The steps of \<^verbatim>\<open>closeContext\<close> and \<^verbatim>\<open>remoteClose\<close>.\<close>

definition close_wait :: "answer \<Rightarrow> QueueClient \<Rightarrow> step_result option" where
  "close_wait an c =
     (case anContext an of
        Some err \<Rightarrow> quietly (TReturned (Some err)) c
      | None \<Rightarrow> quietly (if qcCloseDone c then TReturned (qcCloseResult c) else TCloseWait) c)"

definition close_disconnect :: "answer \<Rightarrow> bool \<Rightarrow> QueueClient \<Rightarrow> step_result option" where
  "close_disconnect an was_connected c =
     (if was_connected \<and> seDisconnect (qcSender c) then Some (TCloseSender (anErr an), c, [], [CallDisconnect])
      else quietly (TCloseSender None) c)"

definition close_sender :: "answer \<Rightarrow> client_error option \<Rightarrow> QueueClient \<Rightarrow> step_result option" where
  "close_sender an result c =
     (if seClose (qcSender c) then Some (TCloseFinish (join_errors result (anErr an)), c, [], [CallClose])
      else quietly (TCloseFinish result) c)"

definition remote_sender :: "answer \<Rightarrow> QueueClient \<Rightarrow> step_result option" where
  "remote_sender an c =
     (if seClose (qcSender c) then Some (TCloseFinish (anErr an), c, [], [CallClose])
      else quietly (TCloseFinish None) c)"

definition close_finish :: "client_error option \<Rightarrow> QueueClient \<Rightarrow> step_result option" where
  "close_finish result c =
     (if qcCloseDone c then None
      else quietly (TReturned result) (c\<lparr>qcCloseResult := result, qcDone := True, qcCloseDone := True\<rparr>))"

fun resume :: "answer \<Rightarrow> thread \<Rightarrow> QueueClient \<Rightarrow> step_result option" where
  "resume an TConnectSend c = connect_send an c"
| "resume an TConnectPublish c = connect_publish c"
| "resume an (TConnectDone res) c = quietly (TReturned res) (c\<lparr>qcConnecting := False\<rparr>)"
| "resume an (TRequestAcquire out) c = request_acquire out c"
| "resume an (TRequestSend out) c = request_send an out c"
| "resume an (TRequestRelease res) c = release_step (TRequestDone res) c"
| "resume an (TRequestDone res) c = quietly (TReturned res) (c\<lparr>qcRequesting := False\<rparr>)"
| "resume an (TEndWait out target) c = end_wait out target c"
| "resume an (TEndSelect out target) c = end_select an out target c"
| "resume an (TEndAcquire out) c = end_acquire out c"
| "resume an (TEndSend out) c = end_send an out c"
| "resume an (TEndRelease res) c = release_step (TEndDone res) c"
| "resume an (TEndDone res) c = quietly (TReturned res) (c\<lparr>qcEnding := False\<rparr>)"
| "resume an TRunSelect c = run_select an c"
| "resume an (TRunSend out) c = run_send an out c"
| "resume an TRunCount c = quietly TRunProgress (c\<lparr>qcMediaSent := qcMediaSent c + 1\<rparr>)"
| "resume an TRunProgress c = run_progress c"
| "resume an TCloseWait c = close_wait an c"
| "resume an (TCloseDisconnect b) c = close_disconnect an b c"
| "resume an (TCloseSender res) c = close_sender an res c"
| "resume an (TCloseFinish res) c = close_finish res c"
| "resume an TRemoteSender c = remote_sender an c"
| "resume an (TReturned res) c = quietly (TReturned res) c"

section \<open>Interleavings\<close>

text \<open>
  The client with its threads. As history: the frames accepted since the stream was granted,
  all accepted frames, the frames taken by \<^verbatim>\<open>run\<close>, and the calls of the sender.
\<close>

record world =
  wClient :: QueueClient
  wThreads :: "thread list"
  wFrames :: "Outbound list"
  wAccepted :: "Outbound list"
  wTaken :: "Outbound list"
  wCalls :: "sender_call list"

datatype client_event =
    CConnect
  | CRequestStream string
  | CSendAudio u32 bytes
  | CSendData u32 u16 bytes
  | CEndStream
  | CClose
  | CPublish Event
  | CRevoke u32
  | CRemoteClose
  | CFail client_error
  | CTakeEvent
  | CResume nat answer

definition call :: "thread \<times> QueueClient \<Rightarrow> world \<Rightarrow> world" where
  "call r w = w\<lparr>wClient := snd r, wThreads := wThreads w @ [fst r]\<rparr>"

definition send_frame :: "client_error option \<times> QueueClient \<Rightarrow> world \<Rightarrow> world" where
  "send_frame r w =
     (let sent = (if fst r = None then [last (ch_items (qcMedia (snd r)))] else []) in
      w\<lparr>wClient := snd r, wFrames := wFrames w @ sent, wAccepted := wAccepted w @ sent\<rparr>)"

definition resume_thread :: "nat \<Rightarrow> answer \<Rightarrow> world \<Rightarrow> world option" where
  "resume_thread i an w =
     (case at (wThreads w) i of
        None \<Rightarrow> Some w
      | Some t \<Rightarrow> do {
          (t', c, started, calls) \<leftarrow> resume an t (wClient w);
          Some (w\<lparr>wClient := c, wThreads := (wThreads w)[i := t'] @ started, wCalls := wCalls w @ calls,
            wTaken := wTaken w @ (case (t, t') of (TRunSelect, TRunSend out) \<Rightarrow> [out] | _ \<Rightarrow> []),
            wFrames := (case (t, t') of (TRequestSend _, TRequestRelease None) \<Rightarrow> [] | _ \<Rightarrow> wFrames w)\<rparr>)
        })"

fun client_do :: "client_event \<Rightarrow> world \<Rightarrow> world option" where
  "client_do CConnect w = Some (call (Connect (wClient w)) w)"
| "client_do (CRequestStream source) w = Some (call (requestStream source (wClient w)) w)"
| "client_do (CSendAudio ts payload) w = Some (send_frame (SendAudio ts payload (wClient w)) w)"
| "client_do (CSendData ts ty payload) w = Some (send_frame (SendData ts ty payload (wClient w)) w)"
| "client_do CEndStream w = Some (call (EndStream (wClient w)) w)"
| "client_do CClose w = Some (call (closeContext (wClient w)) w)"
| "client_do (CPublish ev) w =
     (let (_, c, calls) = Publish ev (wClient w) in Some (w\<lparr>wClient := c, wCalls := wCalls w @ calls\<rparr>))"
| "client_do (CRevoke st) w = Some (w\<lparr>wClient := snd (revoke st (wClient w))\<rparr>)"
| "client_do CRemoteClose w = Some (call (remoteClose (wClient w)) w)"
| "client_do (CFail err) w = (let (c, calls) = fail err (wClient w) in Some (w\<lparr>wClient := c, wCalls := wCalls w @ calls\<rparr>))"
| "client_do CTakeEvent w =
     Some (case try_recv (qcEvents (wClient w)) of
        None \<Rightarrow> w | Some (_, ch) \<Rightarrow> w\<lparr>wClient := (wClient w)\<lparr>qcEvents := ch\<rparr>\<rparr>)"
| "client_do (CResume i an) w = resume_thread i an w"

definition client_step :: "world option \<Rightarrow> client_event \<Rightarrow> world option" where
  "client_step s ev = s \<bind> client_do ev"

definition start_world :: "QueueClient \<Rightarrow> world" where
  "start_world c = \<lparr>wClient = c, wThreads = [], wFrames = [], wAccepted = [], wTaken = [], wCalls = []\<rparr>"

end
