(* ===== verification/QueueClientLaws.thy ===== *)
theory QueueClientLaws
  imports QueueClient "HOL-Library.Multiset"
begin

text \<open>
  The invariant of the queue client under every interleaving of its calls, and what follows:
  no panic and no blocked release, one stream request or stream end at a time, consecutive
  sequence numbers, and an end that follows the media.
\<close>

section \<open>Counting threads\<close>

fun holder :: "thread \<Rightarrow> bool" where
  "holder (TRequestSend _) = True"
| "holder (TRequestRelease _) = True"
| "holder (TEndSend _) = True"
| "holder (TEndRelease _) = True"
| "holder _ = False"

fun closer :: "thread \<Rightarrow> bool" where
  "closer (TCloseDisconnect _) = True"
| "closer (TCloseSender _) = True"
| "closer (TCloseFinish _) = True"
| "closer TRemoteSender = True"
| "closer _ = False"

fun ender :: "thread \<Rightarrow> bool" where
  "ender (TEndWait _ _) = True"
| "ender (TEndSelect _ _) = True"
| "ender (TEndAcquire _) = True"
| "ender (TEndSend _) = True"
| "ender (TEndRelease _) = True"
| "ender (TEndDone _) = True"
| "ender _ = False"

fun requester :: "thread \<Rightarrow> bool" where
  "requester (TRequestAcquire _) = True"
| "requester (TRequestSend _) = True"
| "requester (TRequestRelease _) = True"
| "requester (TRequestDone _) = True"
| "requester _ = False"

text \<open>Those that have no answer yet.\<close>

fun asker :: "thread \<Rightarrow> bool" where
  "asker (TRequestAcquire _) = True"
| "asker (TRequestSend _) = True"
| "asker _ = False"

lemma asker_requester: "asker t \<Longrightarrow> requester t"
  by (cases t) simp_all

fun counting :: "thread \<Rightarrow> bool" where
  "counting TRunCount = True"
| "counting _ = False"

definition cnt :: "(thread \<Rightarrow> bool) \<Rightarrow> thread list \<Rightarrow> nat" where
  "cnt P ts = length (filter P ts)"

lemma cnt_simps [simp]:
  "cnt P [] = 0" "cnt P (t # ts) = (if P t then Suc (cnt P ts) else cnt P ts)" "cnt P (ts @ us) = cnt P ts + cnt P us"
  by (simp_all add: cnt_def)

lemma cnt_mono: "(\<And>t. P t \<Longrightarrow> Q t) \<Longrightarrow> cnt P ts \<le> cnt Q ts"
  by (induction ts) auto

lemma cnt_pos: "t \<in> set ts \<Longrightarrow> P t \<Longrightarrow> cnt P ts > 0"
  by (auto simp: cnt_def filter_empty_conv)

fun sending :: "thread \<Rightarrow> Outbound list" where
  "sending (TRunSend out) = [out]"
| "sending _ = []"

definition inflight :: "thread list \<Rightarrow> Outbound list" where
  "inflight ts = concat (map sending ts)"

lemma inflight_simps [simp]:
  "inflight [] = []" "inflight (t # ts) = sending t @ inflight ts" "inflight (ts @ us) = inflight ts @ inflight us"
  by (simp_all add: inflight_def)

section \<open>The invariant\<close>

text \<open>Slots, closers, enders and requesters.\<close>

definition threads_ok :: "QueueClient \<Rightarrow> thread list \<Rightarrow> bool" where
  "threads_ok c ts \<longleftrightarrow>
     length (ch_items (qcControl c)) = cnt holder ts \<and>
     cnt closer ts = (if qcCloseCalled c \<and> \<not> qcCloseDone c then 1 else 0) \<and>
     (qcCloseDone c \<longrightarrow> qcCloseCalled c \<and> qcDone c) \<and>
     cnt ender ts = (if qcEnding c then 1 else 0) \<and> (qcEnding c \<longrightarrow> \<not> qcStream c) \<and>
     cnt requester ts = (if qcRequesting c then 1 else 0) \<and> (cnt asker ts > 0 \<longrightarrow> \<not> qcStream c \<and> \<not> qcEnding c) \<and>
     (qcTerminal c \<noteq> None \<longrightarrow> qcDone c) \<and> wf_chan (qcMedia c) \<and> wf_chan (qcControl c) \<and> wf_chan (qcEvents c)"

text \<open>The frames of the stream are numbered from zero, and the client knows the next number.\<close>

definition frames_ok :: "QueueClient \<Rightarrow> Outbound list \<Rightarrow> bool" where
  "frames_ok c fs \<longleftrightarrow>
     map ouSequence fs = map word_of_nat [0..<length fs] \<and> (\<forall>f \<in> set fs. ouStreamID f = qcStreamID c) \<and>
     qcSequence c = word_of_nat (length fs) \<and> qcLastTimestamp c = (if fs = [] then 0 else ouTimestamp (last fs))"

text \<open>What a thread that ends or requests a stream carries.\<close>

definition end_frame :: "QueueClient \<Rightarrow> Outbound" where
  "end_frame c = (newOutbound EventStreamEnd)\<lparr>ouStreamID := qcStreamID c, ouSequence := qcSequence c,
     ouTimestamp := qcLastTimestamp c\<rparr>"

definition is_media :: "Outbound \<Rightarrow> bool" where
  "is_media out \<longleftrightarrow> ouKind out = EventAudio \<or> ouKind out = EventData"

definition sent_media :: "sender_call list \<Rightarrow> Outbound list" where
  "sent_media calls = List.map_filter (\<lambda>x. case x of CallSend out \<Rightarrow> if is_media out then Some out else None | _ \<Rightarrow> None) calls"

definition media_out :: "QueueClient \<Rightarrow> Outbound list \<Rightarrow> sender_call list \<Rightarrow> bool" where
  "media_out c accepted calls \<longleftrightarrow> qcDone c \<or> 2 ^ 64 \<le> length accepted \<or> mset (sent_media calls) = mset accepted"

fun thread_ok :: "QueueClient \<Rightarrow> Outbound list \<Rightarrow> sender_call list \<Rightarrow> thread \<Rightarrow> bool" where
  "thread_ok c acc calls (TEndWait out target) = (out = end_frame c \<and> target = qcMediaAccepted c)"
| "thread_ok c acc calls (TEndSelect out target) = (out = end_frame c \<and> target = qcMediaAccepted c)"
| "thread_ok c acc calls (TEndAcquire out) = (out = end_frame c \<and> media_out c acc calls)"
| "thread_ok c acc calls (TEndSend out) = (out = end_frame c \<and> media_out c acc calls)"
| "thread_ok c acc calls (TRequestAcquire out) = (ouStreamID out = next_stream (qcStreamID c) \<and> ouKind out = EventStreamStart)"
| "thread_ok c acc calls (TRequestSend out) = (ouStreamID out = next_stream (qcStreamID c) \<and> ouKind out = EventStreamStart)"
| "thread_ok c acc calls _ = True"

text \<open>Accepted frames are taken in order, each is sent by the thread that took it, and the counters agree.\<close>

definition media_ok :: "world \<Rightarrow> bool" where
  "media_ok w \<longleftrightarrow>
     wAccepted w = wTaken w @ ch_items (qcMedia (wClient w)) \<and> (\<forall>f \<in> set (wAccepted w). is_media f) \<and>
     qcMediaAccepted (wClient w) = word_of_nat (length (wAccepted w)) \<and>
     mset (sent_media (wCalls w)) + mset (inflight (wThreads w)) = mset (wTaken w) \<and>
     (\<exists>k. qcMediaSent (wClient w) = word_of_nat k \<and> k + cnt counting (wThreads w) \<le> length (sent_media (wCalls w)))"

definition client_ok :: "world \<Rightarrow> bool" where
  "client_ok w \<longleftrightarrow> threads_ok (wClient w) (wThreads w) \<and> frames_ok (wClient w) (wFrames w) \<and>
     (\<forall>t \<in> set (wThreads w). thread_ok (wClient w) (wAccepted w) (wCalls w) t) \<and> media_ok w"

lemma start_ok:
  assumes "New q s = Inr c"
  shows "client_ok (start_world c)"
  using assms
  by (auto simp: New_def Let_def start_world_def client_ok_def threads_ok_def frames_ok_def media_ok_def
      make_chan_def wf_chan_def sent_media_def map_filter_def split: option.splits if_splits)

section \<open>Threads that the step does not touch\<close>

lemma thread_ok_other: "\<not> ender t \<Longrightarrow> \<not> asker t \<Longrightarrow> thread_ok c acc calls t"
  by (cases t) auto

definition calm :: "QueueClient \<Rightarrow> QueueClient \<Rightarrow> bool" where
  "calm c c' \<longleftrightarrow> qcStreamID c' = qcStreamID c \<and> qcSequence c' = qcSequence c \<and>
     qcLastTimestamp c' = qcLastTimestamp c \<and> qcMediaAccepted c' = qcMediaAccepted c \<and> (qcDone c \<longrightarrow> qcDone c')"

lemma thread_ok_calm:
  assumes "thread_ok c acc calls t" and "calm c c'"
    and "media_out c acc calls \<Longrightarrow> media_out c' acc calls'"
  shows "thread_ok c' acc calls' t"
  using assms by (cases t) (auto simp: calm_def end_frame_def)

lemma sent_media_simps [simp]:
  "sent_media [] = []" "sent_media (xs @ ys) = sent_media xs @ sent_media ys"
  "sent_media (CallSend out # xs) = (if is_media out then out # sent_media xs else sent_media xs)"
  "sent_media (CallRequestFloor out # xs) = sent_media xs" "sent_media (CallEndFloor out # xs) = sent_media xs"
  "sent_media (CallDisconnect # xs) = sent_media xs" "sent_media (CallClose # xs) = sent_media xs"
  by (simp_all add: sent_media_def map_filter_def)

lemma media_out_calm: "media_out c acc calls \<Longrightarrow> calm c c' \<Longrightarrow> sent_media calls' = sent_media calls \<Longrightarrow> media_out c' acc calls'"
  by (auto simp: media_out_def calm_def)

lemma fail_calm: "calm c (fst (fail err c))" "sent_media (snd (fail err c)) = []"
  by (simp_all add: fail_def calm_def)

text \<open>Frames in flight are accepted and not yet sent.\<close>

lemma media_out_inflight:
  assumes "media_ok w" and "media_out c (wAccepted w) (wCalls w)" and "out \<in> set (inflight (wThreads w))"
  shows "qcDone c \<or> 2 ^ 64 \<le> length (wAccepted w)"
proof (rule ccontr)
  assume "\<not> ?thesis"
  with assms(2) have "mset (sent_media (wCalls w)) = mset (wAccepted w)" by (auto simp: media_out_def)
  with assms(1) have "mset (inflight (wThreads w)) + mset (ch_items (qcMedia (wClient w))) = {#}"
    by (auto simp: media_ok_def)
  with assms(3) show False by auto
qed

lemma all_media_sent:
  assumes "media_ok w" and "qcMediaAccepted (wClient w) \<le> qcMediaSent (wClient w)"
  shows "media_out c (wAccepted w) (wCalls w)"
proof (cases "length (wAccepted w) < 2 ^ 64")
  case True
  from assms(1) obtain k where k: "qcMediaSent (wClient w) = word_of_nat k" "k \<le> length (sent_media (wCalls w))"
    by (auto simp: media_ok_def)
  have split: "mset (sent_media (wCalls w)) + (mset (inflight (wThreads w)) + mset (ch_items (qcMedia (wClient w)))) = mset (wAccepted w)"
    using assms(1) by (simp add: media_ok_def add.assoc [symmetric])
  then have le: "length (sent_media (wCalls w)) \<le> length (wAccepted w)"
    by (metis le_add1 size_mset size_union)
  have "unat (word_of_nat (length (wAccepted w)) :: u64) \<le> unat (word_of_nat k :: u64)"
    using assms k by (simp add: media_ok_def word_le_nat_alt)
  then have "length (wAccepted w) \<le> k"
    using True k(2) le by (simp add: unat_of_nat)
  with k(2) le have "size (mset (sent_media (wCalls w))) = size (mset (wAccepted w))" by simp
  with split have "mset (inflight (wThreads w)) + mset (ch_items (qcMedia (wClient w))) = {#}"
    by (metis add_cancel_right_right size_eq_0_iff_empty size_union)
  with split show ?thesis by (simp add: media_out_def)
qed (simp add: media_out_def)

section \<open>Calls keep the invariant\<close>

lemma ok_thread:
  assumes "client_ok w" and "t \<in> set (wThreads w)"
  shows "thread_ok (wClient w) (wAccepted w) (wCalls w) t"
  using assms by (simp add: client_ok_def)

lemma no_stream_threads:
  assumes "threads_ok c ts" and "qcStream c" and "t \<in> set ts"
  shows "\<not> ender t \<and> \<not> asker t"
proof -
  have "cnt ender ts = 0" "cnt asker ts = 0" using assms(1,2) by (auto simp: threads_ok_def)
  with assms(3) show ?thesis by (auto simp: cnt_def filter_empty_conv)
qed

lemma send_frame_ok:
  assumes "client_ok w" and "is_media out"
  shows "client_ok (send_frame (enqueueMedia out (wClient w)) w)"
proof (cases "qcStream (wClient w) \<and> length (ch_items (qcMedia (wClient w))) < ch_cap (qcMedia (wClient w))")
  case False
  then have "enqueueMedia out (wClient w) \<in> {(Some ErrStreamInactive, wClient w), (Some ErrBackpressure, wClient w)}"
    by (auto simp: enqueueMedia_def try_send_def)
  with assms(1) show ?thesis by (auto simp: send_frame_def)
next
  case True
  let ?c = "wClient w"
  let ?f = "out\<lparr>ouStreamID := qcStreamID ?c, ouSequence := qcSequence ?c\<rparr>"
  let ?c' = "?c\<lparr>qcMedia := (qcMedia ?c)\<lparr>ch_items := ch_items (qcMedia ?c) @ [?f]\<rparr>, qcSequence := qcSequence ?c + 1,
    qcLastTimestamp := ouTimestamp out, qcMediaAccepted := qcMediaAccepted ?c + 1\<rparr>"
  let ?w = "w\<lparr>wClient := ?c', wFrames := wFrames w @ [?f], wAccepted := wAccepted w @ [?f]\<rparr>"
  have eq: "send_frame (enqueueMedia out ?c) w = ?w"
    using True by (simp add: send_frame_def enqueueMedia_def try_send_def Let_def)
  have "\<not> ender t \<and> \<not> asker t" if "t \<in> set (wThreads w)" for t
    using assms(1) True that no_stream_threads by (auto simp: client_ok_def)
  then have "\<forall>t \<in> set (wThreads w). thread_ok ?c' (wAccepted w @ [?f]) (wCalls w) t" by (simp add: thread_ok_other)
  moreover have "frames_ok ?c' (wFrames w @ [?f])"
    using assms(1) by (auto simp: client_ok_def frames_ok_def)
  moreover have "threads_ok ?c' (wThreads w)"
    using assms(1) True by (auto simp: client_ok_def threads_ok_def wf_chan_def)
  moreover have "media_ok ?w"
    using assms by (auto simp: client_ok_def media_ok_def is_media_def)
  ultimately show ?thesis by (simp add: eq client_ok_def)
qed

lemma call_ok:
  assumes "client_ok w" and "threads_ok c' (wThreads w @ [t])" and "calm (wClient w) c'"
    and "qcMedia c' = qcMedia (wClient w)" and "qcMediaSent c' = qcMediaSent (wClient w)"
    and "thread_ok c' (wAccepted w) (wCalls w) t" and "sending t = []" and "\<not> counting t"
  shows "client_ok (call (t, c') w)"
proof -
  have "\<forall>s \<in> set (wThreads w). thread_ok c' (wAccepted w) (wCalls w) s"
    using assms(1,3) by (auto simp: client_ok_def intro: thread_ok_calm media_out_calm)
  moreover have "frames_ok c' (wFrames w)"
    using assms(1,3) by (simp add: client_ok_def frames_ok_def calm_def)
  moreover have "media_ok (call (t, c') w)"
    using assms by (simp add: client_ok_def media_ok_def call_def calm_def)
  ultimately show ?thesis
    using assms by (auto simp: client_ok_def call_def)
qed

lemma threads_ok_returned [simp]: "threads_ok c (ts @ [TReturned e]) = threads_ok c ts"
  by (simp add: threads_ok_def)

lemma calm_refl [simp]: "calm c c"
  by (simp add: calm_def)

lemma returned_ok:
  assumes "client_ok w"
  shows "client_ok (call (TReturned e, wClient w) w)"
  by (rule call_ok [OF assms]) (use assms in \<open>simp_all add: client_ok_def\<close>)

lemma Connect_ok:
  assumes "client_ok w"
  shows "client_ok (call (Connect (wClient w)) w)"
proof -
  have t: "threads_ok (wClient w) (wThreads w)" using assms by (simp add: client_ok_def)
  have "client_ok (call (TConnectSend, (wClient w)\<lparr>qcConnecting := True\<rparr>) w)"
    by (rule call_ok [OF assms]) (use t in \<open>simp_all add: threads_ok_def calm_def\<close>)
  with returned_ok [OF assms] show ?thesis by (simp add: Connect_def)
qed

lemma requestStream_ok:
  assumes "client_ok w"
  shows "client_ok (call (requestStream source (wClient w)) w)"
proof -
  have t: "threads_ok (wClient w) (wThreads w)" using assms by (simp add: client_ok_def)
  have "client_ok (call (TRequestAcquire out, (wClient w)\<lparr>qcRequesting := True\<rparr>) w)"
    if "\<not> (qcStream (wClient w) \<or> qcRequesting (wClient w) \<or> qcEnding (wClient w))"
      "ouStreamID out = next_stream (qcStreamID (wClient w))" "ouKind out = EventStreamStart" for out
    by (rule call_ok [OF assms]) (use t that in \<open>simp_all add: threads_ok_def calm_def\<close>)
  with returned_ok [OF assms] show ?thesis by (simp add: requestStream_def newOutbound_def)
qed

lemma EndStream_ok:
  assumes "client_ok w"
  shows "client_ok (call (EndStream (wClient w)) w)"
proof (cases "qcStream (wClient w)")
  case True
  have "threads_ok (wClient w) (wThreads w)" using assms by (simp add: client_ok_def)
  with True have "\<not> qcEnding (wClient w)" "cnt asker (wThreads w) = 0"
    and t: "threads_ok (wClient w) (wThreads w)" by (simp_all add: threads_ok_def)
  with True show ?thesis
    unfolding EndStream_def end_frame_def [symmetric]
    by (simp, intro call_ok [OF assms]) (simp_all add: threads_ok_def calm_def end_frame_def)
next
  case False
  with returned_ok [OF assms] show ?thesis by (simp add: EndStream_def)
qed

lemma closing_ok:
  assumes "client_ok w" and "\<not> qcCloseCalled (wClient w)" and "closer t" "\<not> holder t" "\<not> ender t" "\<not> requester t" "\<not> asker t"
  shows "client_ok (call (t, (wClient w)\<lparr>qcCloseCalled := True, qcConnected := False, qcStream := False\<rparr>) w)"
proof -
  have t: "threads_ok (wClient w) (wThreads w)" using assms by (simp add: client_ok_def)
  with assms(2) have "\<not> qcCloseDone (wClient w)" by (simp add: threads_ok_def)
  moreover have "sending t = []" "\<not> counting t" using assms(3) by (cases t; simp)+
  ultimately show ?thesis
    using t assms(2-) by (intro call_ok [OF assms(1)]) (simp_all add: threads_ok_def calm_def thread_ok_other)
qed

lemma close_calls_ok:
  assumes "client_ok w"
  shows "client_ok (call (closeContext (wClient w)) w)" "client_ok (call (remoteClose (wClient w)) w)"
proof -
  have t: "threads_ok (wClient w) (wThreads w)" using assms by (simp add: client_ok_def)
  have "client_ok (call (TCloseWait, wClient w) w)"
    by (rule call_ok [OF assms]) (use t in \<open>simp_all add: threads_ok_def\<close>)
  then show "client_ok (call (closeContext (wClient w)) w)"
    using closing_ok [OF assms] by (simp add: closeContext_def)
  show "client_ok (call (remoteClose (wClient w)) w)"
    using closing_ok [OF assms] returned_ok [OF assms] by (simp add: remoteClose_def)
qed

text \<open>A change of the client that leaves its media and its stream alone.\<close>

lemma client_ok_update:
  assumes "client_ok w" and "threads_ok c' (wThreads w)" and "calm (wClient w) c'"
    and "qcMedia c' = qcMedia (wClient w)" and "qcMediaSent c' = qcMediaSent (wClient w)" and "sent_media calls = []"
  shows "client_ok (w\<lparr>wClient := c', wCalls := wCalls w @ calls\<rparr>)"
proof -
  have "\<forall>s \<in> set (wThreads w). thread_ok c' (wAccepted w) (wCalls w @ calls) s"
    using ok_thread [OF assms(1)] media_out_calm [OF _ assms(3), of _ "wCalls w" "wCalls w @ calls"] assms(3,6)
    by (auto intro: thread_ok_calm)
  moreover have "frames_ok c' (wFrames w)"
    using assms(1,3) by (simp add: client_ok_def frames_ok_def calm_def)
  moreover have "media_ok (w\<lparr>wClient := c', wCalls := wCalls w @ calls\<rparr>)"
    using assms by (simp add: client_ok_def media_ok_def calm_def)
  ultimately show ?thesis using assms by (auto simp: client_ok_def)
qed

lemma fail_threads: "threads_ok c ts \<Longrightarrow> threads_ok (fst (fail err c)) ts"
  by (auto simp: threads_ok_def fail_def)

lemma fail_frame:
  "qcMedia (fst (fail err c)) = qcMedia c" "qcMediaSent (fst (fail err c)) = qcMediaSent c"
  "qcControl (fst (fail err c)) = qcControl c" "qcSender (fst (fail err c)) = qcSender c"
  by (simp_all add: fail_def)

lemma publish_event_cases:
  obtains "publish_event ev required c = (None, c\<lparr>qcEvents := (qcEvents c)\<lparr>ch_items := ch_items (qcEvents c) @ [ev]\<rparr>\<rparr>, [])"
      "length (ch_items (qcEvents c)) < ch_cap (qcEvents c)"
  | "publish_event ev required c = (None, c, [])"
  | "publish_event ev required c = (Some ErrApplicationBackpressure, fst (fail ErrApplicationBackpressure c), snd (fail ErrApplicationBackpressure c))"
  by (cases "length (ch_items (qcEvents c)) < ch_cap (qcEvents c)"; cases required)
     (auto simp: publish_event_def try_send_def split: prod.splits)

lemma publish_event_ok:
  assumes "publish_event ev required c = (res, c', calls)" and "threads_ok c ts"
  shows "threads_ok c' ts" "calm c c'" "qcMedia c' = qcMedia c" "qcMediaSent c' = qcMediaSent c" "sent_media calls = []"
proof -
  have "threads_ok c' ts \<and> calm c c' \<and> qcMedia c' = qcMedia c \<and> qcMediaSent c' = qcMediaSent c \<and> sent_media calls = []"
  proof (cases rule: publish_event_cases [of ev required c])
    case 1
    then have "c' = c\<lparr>qcEvents := (qcEvents c)\<lparr>ch_items := ch_items (qcEvents c) @ [ev]\<rparr>\<rparr>" "calls = []"
      using assms(1) by simp_all
    with assms(2) 1(2) show ?thesis by (simp add: threads_ok_def calm_def wf_chan_def)
  next
    case 2
    with assms show ?thesis by (simp add: calm_def)
  next
    case 3
    with assms have "c' = fst (fail ErrApplicationBackpressure c)" "calls = snd (fail ErrApplicationBackpressure c)" by auto
    with fail_threads [OF assms(2)] show ?thesis by (simp add: fail_calm fail_frame)
  qed
  then show "threads_ok c' ts" "calm c c'" "qcMedia c' = qcMedia c" "qcMediaSent c' = qcMediaSent c" "sent_media calls = []"
    by blast+
qed

lemma acquireControl_cases:
  obtains "acquireControl out c = (None, c\<lparr>qcControl := (qcControl c)\<lparr>ch_items := ch_items (qcControl c) @ [out]\<rparr>\<rparr>, [])"
      "length (ch_items (qcControl c)) < ch_cap (qcControl c)"
  | "acquireControl out c = (Some ErrControlBackpressure, fst (fail ErrControlBackpressure c), snd (fail ErrControlBackpressure c))"
  by (cases "length (ch_items (qcControl c)) < ch_cap (qcControl c)")
     (auto simp: acquireControl_def try_send_def split: prod.splits)

section \<open>Steps keep the invariant\<close>

text \<open>A step that neither takes nor sends nor counts a frame and grants no stream.\<close>

lemma step_ok:
  assumes "client_ok w" and "wThreads w = pre @ t # post"
    and "wClient w' = c'" "wThreads w' = (pre @ t' # post) @ started" "wCalls w' = wCalls w @ calls"
      "wTaken w' = wTaken w" "wFrames w' = wFrames w" "wAccepted w' = wAccepted w"
    and "threads_ok c' ((pre @ t' # post) @ started)" and "calm (wClient w) c'"
    and "qcMedia c' = qcMedia (wClient w)" and "qcMediaSent c' = qcMediaSent (wClient w)" and "sent_media calls = []"
    and "thread_ok c' (wAccepted w) (wCalls w @ calls) t'" and "started \<in> {[], [TRunSelect]}"
    and "sending t = []" and "sending t' = []" and "\<not> counting t" and "\<not> counting t'"
  shows "client_ok w'"
proof -
  have "thread_ok c' (wAccepted w) (wCalls w @ calls) s" if "s \<in> set (wThreads w)" for s
    using ok_thread [OF assms(1) that] assms(10,13) media_out_calm [OF _ assms(10), of _ "wCalls w" "wCalls w @ calls"]
    by (auto intro: thread_ok_calm)
  then have "\<forall>s \<in> set (wThreads w'). thread_ok c' (wAccepted w) (wCalls w @ calls) s"
    using assms(2,4,14,15) by auto
  moreover have "frames_ok c' (wFrames w)"
    using assms(1,10) by (simp add: client_ok_def frames_ok_def calm_def)
  moreover have "media_ok w'"
    using assms by (auto simp: client_ok_def media_ok_def calm_def)
  ultimately show ?thesis using assms by (simp add: client_ok_def)
qed

lemma threads_ok_move:
  assumes "threads_ok c (pre @ t # post)" and "holder t' = holder t" "closer t' = closer t" "ender t' = ender t" "requester t' = requester t"
    "asker t' \<Longrightarrow> asker t"
  shows "threads_ok c (pre @ t' # post)"
  using assms by (simp add: threads_ok_def)

lemma threads_ok_progress [simp]: "threads_ok (c\<lparr>qcProgress := ch\<rparr>) ts = threads_ok c ts"
  by (simp add: threads_ok_def)

text \<open>The deferred resets.\<close>

lemma threads_ok_reset:
  "threads_ok c (pre @ TEndDone e # post) \<Longrightarrow> threads_ok (c\<lparr>qcEnding := False\<rparr>) (pre @ TReturned e' # post)"
  "threads_ok c (pre @ TRequestDone e # post) \<Longrightarrow> threads_ok (c\<lparr>qcRequesting := False\<rparr>) (pre @ TReturned e' # post)"
  by (simp_all add: threads_ok_def split: if_splits)

text \<open>The steps of \<^verbatim>\<open>waitMedia\<close>: on, once more, or out with an error.\<close>

definition wait_result :: "bool \<Rightarrow> Outbound \<Rightarrow> u64 \<Rightarrow> QueueClient \<Rightarrow> thread \<Rightarrow> QueueClient \<Rightarrow> bool" where
  "wait_result through out target c t' c' \<longleftrightarrow>
     t' = TEndAcquire out \<and> c' = c \<and> through \<or>
     t' = TEndSelect out target \<and> c' = c \<or> t' = TEndWait out target \<and> (\<exists>ch. c' = c\<lparr>qcProgress := ch\<rparr>) \<or>
     (\<exists>e. t' = TEndDone e) \<and> c' = c"

lemma end_wait_result:
  "end_wait out target c = Some (t', c', started, calls) \<Longrightarrow>
     wait_result (target \<le> qcMediaSent c) out target c t' c' \<and> started = [] \<and> calls = []"
  unfolding end_wait_def quietly_def wait_result_def by (simp split: if_splits option.splits, blast)

lemma end_select_result:
  "end_select an out target c = Some (t', c', started, calls) \<Longrightarrow>
     wait_result (qcDone c) out target c t' c' \<and> started = [] \<and> calls = []"
  unfolding end_select_def quietly_def wait_result_def
  by (auto split: if_splits option.splits)

lemma wait_result_ok:
  assumes "wait_result through out target c t' c'" and "threads_ok c (pre @ t # post)"
    and "ender t" "\<not> holder t" "\<not> closer t" "\<not> requester t"
    and "through \<Longrightarrow> media_out c acc calls" and "out = end_frame c" "target = qcMediaAccepted c"
  shows "threads_ok c' (pre @ t' # post) \<and> calm c c' \<and> qcMedia c' = qcMedia c \<and> qcMediaSent c' = qcMediaSent c \<and>
    thread_ok c' acc calls t' \<and> sending t' = [] \<and> \<not> counting t'"
proof -
  note move = threads_ok_move [OF assms(2)]
  from assms(1) show ?thesis
    unfolding wait_result_def
  proof (elim disjE conjE exE)
    assume "t' = TEndAcquire out" "c' = c" through
    with move [of "TEndAcquire out"] assms(3-9) show ?thesis by (simp add: calm_def)
  next
    assume "t' = TEndSelect out target" "c' = c"
    with move [of "TEndSelect out target"] assms(3-9) show ?thesis by (simp add: calm_def)
  next
    fix ch assume "t' = TEndWait out target" "c' = c\<lparr>qcProgress := ch\<rparr>"
    with move [of "TEndWait out target"] assms(3-9) show ?thesis by (simp add: calm_def end_frame_def)
  next
    fix e assume "t' = TEndDone e" "c' = c"
    with move [of "TEndDone e"] assms(3-9) show ?thesis by (simp add: calm_def)
  qed
qed

lemma threads_ok_control:
  assumes "threads_ok c (pre @ t # post)" and "length (ch_items (qcControl c)) < ch_cap (qcControl c)"
    and "\<not> holder t" "holder t'" "closer t' = closer t" "ender t' = ender t" "requester t' = requester t" "asker t' = asker t"
  shows "threads_ok (c\<lparr>qcControl := (qcControl c)\<lparr>ch_items := ch_items (qcControl c) @ [out]\<rparr>\<rparr>) (pre @ t' # post)"
  using assms by (simp add: threads_ok_def wf_chan_def)

lemma releaseControl_ok:
  assumes "threads_ok c (pre @ t # post)" and "holder t"
  obtains x ch where "try_recv (qcControl c) = Some (x, ch)" "releaseControl c = Some (c\<lparr>qcControl := ch\<rparr>)" "wf_chan ch"
    "Suc (length (ch_items ch)) = length (ch_items (qcControl c))"
proof -
  have "length (ch_items (qcControl c)) > 0" "wf_chan (qcControl c)" using assms by (simp_all add: threads_ok_def)
  then show thesis
    using that by (cases "ch_items (qcControl c)") (auto simp: releaseControl_def try_recv_def wf_chan_def)
qed

lemma threads_ok_released:
  assumes "threads_ok c (pre @ t # post)" and "holder t" "wf_chan ch" "Suc (length (ch_items ch)) = length (ch_items (qcControl c))"
    and "\<not> holder t'" "closer t' = closer t" "ender t' = ender t" "requester t' = requester t" "asker t' = asker t"
  shows "threads_ok (c\<lparr>qcControl := ch\<rparr>) (pre @ t' # post)"
  using assms by (simp add: threads_ok_def)

lemma threads_ok_closed:
  assumes "threads_ok c (pre @ TCloseFinish res # post)"
  shows "\<not> qcCloseDone c"
    and "threads_ok (c\<lparr>qcCloseResult := r, qcDone := True, qcCloseDone := True\<rparr>) (pre @ TReturned e # post)"
  using assms by (simp_all add: threads_ok_def split: if_splits)

text \<open>The steps that leave the media and the stream alone.\<close>

fun plain :: "thread \<Rightarrow> bool" where
  "plain (TRequestSend _) = False"
| "plain TRunSelect = False"
| "plain (TRunSend _) = False"
| "plain TRunCount = False"
| "plain _ = True"

definition plain_result :: "world \<Rightarrow> thread list \<Rightarrow> thread list \<Rightarrow> step_result option \<Rightarrow> bool" where
  "plain_result w pre post res \<longleftrightarrow>
     (\<exists>t' c' started calls. res = Some (t', c', started, calls) \<and> threads_ok c' ((pre @ t' # post) @ started) \<and>
        calm (wClient w) c' \<and> qcMedia c' = qcMedia (wClient w) \<and> qcMediaSent c' = qcMediaSent (wClient w) \<and>
        sent_media calls = [] \<and> thread_ok c' (wAccepted w) (wCalls w @ calls) t' \<and>
        started \<in> {[], [TRunSelect]} \<and> sending t' = [] \<and> \<not> counting t')"

lemma plain_resultI:
  assumes "threads_ok c' ((pre @ t' # post) @ started)" "calm (wClient w) c'" "qcMedia c' = qcMedia (wClient w)"
    "qcMediaSent c' = qcMediaSent (wClient w)" "sent_media calls = []" "thread_ok c' (wAccepted w) (wCalls w @ calls) t'"
    "started \<in> {[], [TRunSelect]}" "sending t' = []" "\<not> counting t'"
  shows "plain_result w pre post (Some (t', c', started, calls))"
  using assms unfolding plain_result_def by blast

lemma wait_plain:
  assumes "client_ok w" and "wThreads w = pre @ t # post" and "t \<in> {TEndWait out target, TEndSelect out target}"
  shows "plain_result w pre post (resume an t (wClient w))"
proof -
  let ?c = "wClient w"
  have th: "threads_ok ?c (pre @ t # post)" and m: "media_ok w" using assms(1,2) by (simp_all add: client_ok_def)
  have t: "out = end_frame ?c" "target = qcMediaAccepted ?c"
    using ok_thread [OF assms(1), of t] assms(2,3) by auto
  have k: "ender t" "\<not> holder t" "\<not> closer t" "\<not> requester t" using assms(3) by auto
  have "resume an t ?c \<noteq> None"
    using assms(3) by (auto simp: end_wait_def end_select_def quietly_def split: option.split)
  then obtain t' c' started calls where r: "resume an t ?c = Some (t', c', started, calls)" by auto
  obtain through where w: "wait_result through out target ?c t' c'" "started = []" "calls = []"
    and g: "through \<Longrightarrow> media_out ?c (wAccepted w) (wCalls w)"
    using assms(3) r end_wait_result [of out target ?c t' c' started calls] end_select_result [of an out target ?c t' c' started calls]
      all_media_sent [OF m, of ?c] t(2) by (auto simp: media_out_def)
  show ?thesis
    unfolding r using wait_result_ok [OF w(1) th k g t] w(2,3) by (intro plain_resultI) simp_all
qed

lemma failed_plain:
  assumes "threads_ok (wClient w) (pre @ t # post)"
    and "\<not> holder t" "\<not> holder t'" "closer t' = closer t" "ender t' = ender t" "requester t' = requester t" "\<not> asker t'"
    and "thread_ok (fst (fail err (wClient w))) (wAccepted w) (wCalls w @ snd (fail err (wClient w))) t'" "sending t' = []" "\<not> counting t'"
  shows "plain_result w pre post (Some (t', fst (fail err (wClient w)), [], snd (fail err (wClient w))))"
  using threads_ok_move [OF fail_threads [OF assms(1)], of t' err] assms(2-)
  by (intro plain_resultI) (simp_all add: fail_frame fail_calm)

lemma acquire_plain:
  assumes "client_ok w" and "wThreads w = pre @ t # post" and "t \<in> {TRequestAcquire out, TEndAcquire out}"
  shows "plain_result w pre post (resume an t (wClient w))"
proof -
  let ?c = "wClient w"
  have th: "threads_ok ?c (pre @ t # post)" using assms(1,2) by (simp add: client_ok_def)
  have ok: "thread_ok ?c (wAccepted w) (wCalls w) t" using ok_thread [OF assms(1), of t] assms(2) by simp
  show ?thesis
  proof (cases rule: acquireControl_cases [of out ?c])
    case 1
    let ?c' = "?c\<lparr>qcControl := (qcControl ?c)\<lparr>ch_items := ch_items (qcControl ?c) @ [out]\<rparr>\<rparr>"
    note up = threads_ok_control [OF th 1(2)]
    have c: "calm ?c ?c'" by (simp add: calm_def)
    from assms(3) consider "t = TRequestAcquire out" | "t = TEndAcquire out" by auto
    then show ?thesis
    proof cases
      assume t: "t = TRequestAcquire out"
      show ?thesis
        using up [of "TRequestSend out" out] c ok 1(1)
        by (simp add: t request_acquire_def) (rule plain_resultI; simp)
    next
      assume t: "t = TEndAcquire out"
      show ?thesis
        using up [of "TEndSend out" out] c ok 1(1)
        by (simp add: t end_acquire_def) (rule plain_resultI; simp add: end_frame_def media_out_def)
    qed
  next
    case 2
    with assms(3) failed_plain [OF th] show ?thesis
      by (auto simp: request_acquire_def end_acquire_def case_prod_beta)
  qed
qed

lemma end_send_plain:
  assumes "client_ok w" and "wThreads w = pre @ TEndSend out # post"
  shows "plain_result w pre post (resume an (TEndSend out) (wClient w))"
proof -
  let ?c = "wClient w"
  have th: "threads_ok ?c (pre @ TEndSend out # post)" using assms by (auto simp: client_ok_def)
  have "out = end_frame ?c" using ok_thread [OF assms(1), of "TEndSend out"] assms(2) by simp
  then have m: "\<not> is_media out" by (simp add: is_media_def end_frame_def newOutbound_def)
  show ?thesis
    using threads_ok_move [OF th, of "TEndRelease (anErr an)"] m
    by (simp add: end_send_def) (intro conjI impI; rule plain_resultI; simp)
qed

lemma release_plain:
  assumes "client_ok w" and "wThreads w = pre @ t # post"
    and "holder t" "\<not> holder t'" "closer t' = closer t" "ender t' = ender t" "requester t' = requester t" "asker t' = asker t"
    and "\<And>c. thread_ok c (wAccepted w) (wCalls w) t'" "sending t' = []" "\<not> counting t'"
  shows "plain_result w pre post (release_step t' (wClient w))"
proof -
  let ?c = "wClient w"
  have th: "threads_ok ?c (pre @ t # post)" using assms by (auto simp: client_ok_def)
  obtain x ch where "try_recv (qcControl ?c) = Some (x, ch)"
      and ch: "releaseControl ?c = Some (?c\<lparr>qcControl := ch\<rparr>)" "wf_chan ch"
      "Suc (length (ch_items ch)) = length (ch_items (qcControl ?c))"
    using releaseControl_ok [OF th assms(3)] by auto
  note rel = threads_ok_released [OF th assms(3) ch(2,3) assms(4-8)]
  show ?thesis
    using ch(1) rel assms(9-11) by (simp add: release_step_def quietly_def) (rule plain_resultI; simp add: calm_def)
qed

lemma other_plain:
  assumes "client_ok w" and "wThreads w = pre @ t # post" and "plain t"
    and "t \<notin> range TRequestAcquire \<union> range TEndAcquire \<union> range TEndSend" "\<not> (\<exists>out target. t \<in> {TEndWait out target, TEndSelect out target})"
  shows "plain_result w pre post (resume an t (wClient w))"
proof -
  let ?c = "wClient w"
  have th: "threads_ok ?c (pre @ t # post)" using assms(1,2) by (simp add: client_ok_def)
  note move = threads_ok_move [OF th]
  show ?thesis
  proof (cases t)
    case TConnectSend
    have "threads_ok ?c (pre @ TConnectDone e # post)"
      "threads_ok (?c\<lparr>qcConnected := True\<rparr>) ((pre @ TConnectPublish # post) @ [TRunSelect])" for e
      using th by (simp_all add: TConnectSend threads_ok_def)
    then show ?thesis
      by (cases "anErr an") (simp_all add: TConnectSend connect_send_def plain_resultI calm_def newOutbound_def is_media_def)
  next
    case TConnectPublish
    obtain res c' calls where p: "publish_event ((newEvent EventStatus)\<lparr>ceMessage := ''connected''\<rparr>) True ?c = (res, c', calls)"
      by (metis prod_cases3)
    note ok = publish_event_ok [OF p th]
    have "threads_ok c' (pre @ TConnectDone res # post)"
      using ok(1) by (simp add: TConnectPublish threads_ok_def)
    with ok show ?thesis
      by (simp add: TConnectPublish connect_publish_def p) (rule plain_resultI; simp add: calm_def)
  next
    case (TConnectDone e)
    have "threads_ok (?c\<lparr>qcConnecting := False\<rparr>) (pre @ TReturned e # post)"
      using th by (simp add: TConnectDone threads_ok_def)
    then show ?thesis by (simp add: TConnectDone quietly_def) (rule plain_resultI; simp add: calm_def)
  next
    case (TRequestRelease e)
    show ?thesis unfolding TRequestRelease resume.simps
      by (rule release_plain [OF assms(1,2)]) (simp_all add: TRequestRelease)
  next
    case (TEndRelease e)
    show ?thesis unfolding TEndRelease resume.simps
      by (rule release_plain [OF assms(1,2)]) (simp_all add: TEndRelease)
  next
    case (TRequestDone e)
    from threads_ok_reset(2) [OF th [unfolded TRequestDone]] show ?thesis
      by (simp add: TRequestDone quietly_def) (rule plain_resultI; simp add: calm_def)
  next
    case (TEndDone e)
    from threads_ok_reset(1) [OF th [unfolded TEndDone]] show ?thesis
      by (simp add: TEndDone quietly_def) (rule plain_resultI; simp add: calm_def)
  next
    case TRunProgress
    with move [of TRunSelect] show ?thesis
      by (simp add: run_progress_def quietly_def plain_resultI calm_def)
  next
    case TCloseWait
    with move [of TCloseWait] move [of "TReturned e" for e] show ?thesis
      by (auto simp: close_wait_def quietly_def intro!: plain_resultI split: option.split)
  next
    case (TCloseDisconnect b)
    with move [of "TCloseSender e" for e] show ?thesis
      by (auto simp: close_disconnect_def quietly_def intro!: plain_resultI)
  next
    case (TCloseSender r)
    with move [of "TCloseFinish e" for e] show ?thesis
      by (auto simp: close_sender_def quietly_def intro!: plain_resultI)
  next
    case TRemoteSender
    with move [of "TCloseFinish e" for e] show ?thesis
      by (auto simp: remote_sender_def quietly_def intro!: plain_resultI)
  next
    case (TCloseFinish r)
    with threads_ok_closed [OF th [unfolded TCloseFinish]] show ?thesis
      by (simp add: close_finish_def quietly_def plain_resultI calm_def)
  next
    case (TReturned r)
    with th show ?thesis by (auto simp: quietly_def intro!: plain_resultI)
  qed (use assms in simp_all)
qed

lemma plain_steps:
  assumes "client_ok w" and "wThreads w = pre @ t # post" and "plain t"
  shows "plain_result w pre post (resume an t (wClient w))"
proof (cases "t \<in> range TRequestAcquire \<union> range TEndAcquire \<union> range TEndSend \<or> (\<exists>out target. t \<in> {TEndWait out target, TEndSelect out target})")
  case True
  then consider out target where "t \<in> {TEndWait out target, TEndSelect out target}"
    | out where "t \<in> {TRequestAcquire out, TEndAcquire out}" | out where "t = TEndSend out"
    by blast
  then show ?thesis
    using wait_plain [OF assms(1,2)] acquire_plain [OF assms(1,2)] end_send_plain [OF assms(1)] assms(2) by cases blast+
next
  case False
  with other_plain [OF assms] show ?thesis by blast
qed

text \<open>The grant of a stream: no other thread ends or requests one, and the frames start anew.\<close>

lemma only_requester:
  assumes "threads_ok c (pre @ TRequestSend out # post)" and "s \<in> set (pre @ post)"
  shows "\<not> ender s \<and> \<not> requester s"
proof -
  have "cnt requester (pre @ post) = 0" "cnt ender (pre @ post) = 0"
    using assms(1) by (auto simp: threads_ok_def split: if_splits)
  with assms(2) show ?thesis by (auto simp: cnt_def filter_empty_conv)
qed

lemma request_send_ok:
  assumes "client_ok w" and "wThreads w = pre @ TRequestSend out # post"
    and "request_send an out (wClient w) = Some (t', c', started, calls)"
    and "wClient w' = c'" "wThreads w' = (pre @ t' # post) @ started" "wCalls w' = wCalls w @ calls"
      "wTaken w' = wTaken w" "wAccepted w' = wAccepted w" "wFrames w' = (if anErr an = None then [] else wFrames w)"
  shows "client_ok w'"
proof -
  let ?c = "wClient w"
  have th: "threads_ok ?c (pre @ TRequestSend out # post)" using assms(1,2) by (simp add: client_ok_def)
  have "ouKind out = EventStreamStart" using ok_thread [OF assms(1), of "TRequestSend out"] assms(2) by simp
  then have m: "\<not> is_media out" by (simp add: is_media_def)
  have eq: "t' = TRequestRelease (anErr an)" "started = []" "sent_media calls = []"
    "c' = (if anErr an = None then ?c\<lparr>qcStreamID := ouStreamID out, qcSequence := 0, qcLastTimestamp := 0, qcStream := True\<rparr> else ?c)"
    using assms(3) m by (auto simp: request_send_def)
  have "cnt requester (pre @ post) = 0" using th by (auto simp: threads_ok_def split: if_splits)
  then have "cnt asker (pre @ post) = 0" using cnt_mono [of asker requester "pre @ post"] asker_requester by simp
  then have "threads_ok c' (wThreads w')"
    using th by (simp add: assms(5) eq threads_ok_def)
  moreover have "frames_ok c' (wFrames w')"
    using assms(1) by (auto simp: eq assms(9) client_ok_def frames_ok_def)
  moreover have "\<forall>s \<in> set (wThreads w'). thread_ok c' (wAccepted w') (wCalls w') s"
    using only_requester [OF th] by (auto simp: assms(5) eq intro!: thread_ok_other dest: asker_requester)
  moreover have "media_ok w'"
    using assms(1,2) eq(3) by (simp add: client_ok_def media_ok_def assms(4-8) eq(1,2,4))
  ultimately show ?thesis by (simp add: client_ok_def assms(4))
qed

text \<open>The goroutine \<^verbatim>\<open>run\<close>.\<close>

lemma run_select_cases:
  assumes "run_select an c = Some (t', c', started, calls)"
  shows "t' \<in> {TReturned None, TRunSelect} \<and> c' = c \<or>
    (\<exists>out ch. try_recv (qcMedia c) = Some (out, ch) \<and> t' = TRunSend out \<and> c' = c\<lparr>qcMedia := ch\<rparr>)"
  using assms unfolding run_select_def quietly_def by (simp split: if_splits option.splits prod.splits)

lemma run_select_ok:
  assumes "client_ok w" and "wThreads w = pre @ TRunSelect # post"
    and "run_select an (wClient w) = Some (t', c', started, calls)"
    and "wClient w' = c'" "wThreads w' = (pre @ t' # post) @ started" "wCalls w' = wCalls w @ calls"
      "wTaken w' = wTaken w @ (case t' of TRunSend out \<Rightarrow> [out] | _ \<Rightarrow> [])" "wAccepted w' = wAccepted w" "wFrames w' = wFrames w"
  shows "client_ok w'"
proof -
  let ?c = "wClient w"
  have th: "threads_ok ?c (pre @ TRunSelect # post)" using assms(1,2) by (simp add: client_ok_def)
  have frame: "started = []" "calls = []"
    using assms(3) by (auto simp: run_select_def quietly_def split: if_splits option.splits)
  from run_select_cases [OF assms(3)] consider (stay) "t' \<in> {TReturned None, TRunSelect}" "c' = ?c"
    | (take) out ch where "try_recv (qcMedia ?c) = Some (out, ch)" "t' = TRunSend out" "c' = ?c\<lparr>qcMedia := ch\<rparr>"
    by blast
  then show ?thesis
  proof cases
    case stay
    with threads_ok_move [OF th, of t'] have "threads_ok ?c ((pre @ t' # post) @ [])" by auto
    moreover have "sending t' = []" "\<not> counting t'" "thread_ok ?c (wAccepted w) (wCalls w) t'"
        "(case t' of TRunSend out \<Rightarrow> [out] | _ \<Rightarrow> []) = []"
      using stay(1) by auto
    ultimately show ?thesis
      using assms(4-9) stay(2) frame by (intro step_ok [OF assms(1,2), of w' ?c t' "[]" "[]"]) simp_all
  next
    case take
    then have items: "ch_items (qcMedia ?c) = out # ch_items ch" "ch_cap ch = ch_cap (qcMedia ?c)"
      by (auto simp: try_recv_def split: list.splits)
    have "threads_ok c' (pre @ t' # post)"
      using th items by (simp add: take threads_ok_def wf_chan_def)
    moreover have "thread_ok c' (wAccepted w) (wCalls w) s" if "s \<in> set (wThreads w)" for s
      using ok_thread [OF assms(1) that] by (rule thread_ok_calm) (auto simp: take calm_def media_out_def)
    moreover have "media_ok w'"
      using assms(1,2) items frame by (simp add: client_ok_def media_ok_def assms(4-8) take)
    ultimately show ?thesis
      using assms(1,2) frame by (auto simp: client_ok_def frames_ok_def assms(4-9) take)
  qed
qed

lemma run_send_ok:
  assumes "client_ok w" and "wThreads w = pre @ TRunSend out # post"
    and "run_send an out (wClient w) = Some (t', c', started, calls)"
    and "wClient w' = c'" "wThreads w' = (pre @ t' # post) @ started" "wCalls w' = wCalls w @ calls"
      "wTaken w' = wTaken w" "wAccepted w' = wAccepted w" "wFrames w' = wFrames w"
  shows "client_ok w'"
proof -
  let ?c = "wClient w"
  have th: "threads_ok ?c (pre @ TRunSend out # post)" and m: "media_ok w" using assms(1,2) by (simp_all add: client_ok_def)
  have "out \<in># mset (sent_media (wCalls w)) + mset (inflight (wThreads w))" by (simp add: assms(2))
  then have "out \<in> set (wTaken w)" using m unfolding media_ok_def by (metis set_mset_mset)
  then have med: "is_media out" using m by (simp add: media_ok_def)
  have c': "started = []" "sent_media calls = [out]" "calm ?c c'" "qcMedia c' = qcMedia ?c" "qcMediaSent c' = qcMediaSent ?c"
      "t' = TRunCount \<and> c' = ?c \<or> t' = TReturned None \<and> c' = fst (fail (the (anErr an)) ?c)"
    using assms(3) med fail_calm(1) [of ?c "the (anErr an)"] fail_calm(2) [of "the (anErr an)" ?c]
      fail_frame [of "the (anErr an)" ?c]
    by (auto simp: run_send_def split: option.splits prod.splits)
  have "threads_ok c' (pre @ t' # post)"
    using c'(6) threads_ok_move [OF th, of t'] threads_ok_move [OF fail_threads [OF th], of "TReturned None"] by auto
  moreover have "thread_ok c' (wAccepted w) (wCalls w @ calls) s" if "s \<in> set (wThreads w)" for s
  proof (rule thread_ok_calm [OF ok_thread [OF assms(1) that] c'(3)])
    assume "media_out ?c (wAccepted w) (wCalls w)"
    from media_out_inflight [OF m this, of out] c'(3) show "media_out c' (wAccepted w) (wCalls w @ calls)"
      by (auto simp: assms(2) media_out_def calm_def)
  qed
  moreover have "thread_ok c' (wAccepted w) (wCalls w @ calls) t'" using c'(6) by auto
  moreover have "frames_ok c' (wFrames w)"
    using assms(1) c'(3) by (simp add: client_ok_def frames_ok_def calm_def)
  moreover have "media_ok w'"
  proof -
    have "cnt counting [t'] \<le> 1" by simp
    with m c'(2-5) show ?thesis
      using c'(6) by (auto simp: media_ok_def assms(2,4-8) c'(1) calm_def)
  qed
  ultimately show ?thesis
    using assms(2) c'(1) by (auto simp: client_ok_def assms(4-9))
qed

lemma run_count_ok:
  assumes "client_ok w" and "wThreads w = pre @ TRunCount # post"
    and "wClient w' = (wClient w)\<lparr>qcMediaSent := qcMediaSent (wClient w) + 1\<rparr>" "wThreads w' = pre @ TRunProgress # post"
      "wCalls w' = wCalls w" "wTaken w' = wTaken w" "wAccepted w' = wAccepted w" "wFrames w' = wFrames w"
  shows "client_ok w'"
proof -
  let ?c = "wClient w" and ?c' = "(wClient w)\<lparr>qcMediaSent := qcMediaSent (wClient w) + 1\<rparr>"
  have th: "threads_ok ?c (pre @ TRunCount # post)" and m: "media_ok w" using assms(1,2) by (simp_all add: client_ok_def)
  have "threads_ok ?c' (wThreads w')" using th by (simp add: assms(4) threads_ok_def)
  moreover have "thread_ok ?c' (wAccepted w) (wCalls w) s" if "s \<in> set (wThreads w)" for s
    using ok_thread [OF assms(1) that] by (rule thread_ok_calm) (auto simp: calm_def media_out_def)
  moreover have "frames_ok ?c' (wFrames w)" using assms(1) by (simp add: client_ok_def frames_ok_def)
  moreover have "media_ok w'"
  proof -
    from m obtain k where k: "qcMediaSent ?c = word_of_nat k" "k + cnt counting (wThreads w) \<le> length (sent_media (wCalls w))"
      by (auto simp: media_ok_def)
    have "\<exists>k. qcMediaSent ?c' = word_of_nat k \<and> k + cnt counting (wThreads w') \<le> length (sent_media (wCalls w'))"
      using k assms(2) by (intro exI [of _ "Suc k"]) (simp add: assms(4,5))
    moreover have "inflight (wThreads w') = inflight (wThreads w)" by (simp add: assms(2,4))
    ultimately show ?thesis using m unfolding media_ok_def assms(3,5-8) by simp
  qed
  ultimately show ?thesis using assms(2) by (auto simp: client_ok_def assms(3-8))
qed

section \<open>Every interleaving\<close>

lemma resume_thread_ok:
  assumes "client_ok w"
  shows "\<exists>w'. resume_thread i an w = Some w' \<and> client_ok w'"
proof (cases "at (wThreads w) i")
  case None
  with assms show ?thesis by (simp add: resume_thread_def)
next
  case (Some t)
  define pre post where "pre = take i (wThreads w)" and "post = drop (Suc i) (wThreads w)"
  have i: "i < length (wThreads w)" "t = wThreads w ! i" using Some by (auto simp: at_def split: if_splits)
  have ts: "wThreads w = pre @ t # post" "(wThreads w)[i := t'] = pre @ t' # post" for t'
    using i by (simp_all add: pre_def post_def id_take_nth_drop upd_conv_take_nth_drop)
  let ?next = "\<lambda>t' c' started calls. w\<lparr>wClient := c', wThreads := (wThreads w)[i := t'] @ started, wCalls := wCalls w @ calls,
    wTaken := wTaken w @ (case (t, t') of (TRunSelect, TRunSend out) \<Rightarrow> [out] | _ \<Rightarrow> []),
    wFrames := (case (t, t') of (TRequestSend _, TRequestRelease None) \<Rightarrow> [] | _ \<Rightarrow> wFrames w)\<rparr>"
  have step: "resume_thread i an w = (case resume an t (wClient w) of None \<Rightarrow> None
      | Some (t', c', started, calls) \<Rightarrow> Some (?next t' c' started calls))"
    unfolding resume_thread_def Some by (simp split: option.split)
  show ?thesis
  proof (cases "plain t")
    case True
    from plain_steps [OF assms ts(1) True, of an] obtain t' c' started calls
      where r: "resume an t (wClient w) = Some (t', c', started, calls)"
        and res: "threads_ok c' ((pre @ t' # post) @ started)" "calm (wClient w) c'" "qcMedia c' = qcMedia (wClient w)"
          "qcMediaSent c' = qcMediaSent (wClient w)" "sent_media calls = []" "thread_ok c' (wAccepted w) (wCalls w @ calls) t'"
          "started \<in> {[], [TRunSelect]}" "sending t' = []" "\<not> counting t'"
      unfolding plain_result_def by blast
    have "sending t = []" "\<not> counting t" using True by (cases t; simp)+
    moreover have "(case (t, t') of (TRunSelect, TRunSend out) \<Rightarrow> [out] | _ \<Rightarrow> []) = []"
      "(case (t, t') of (TRequestSend _, TRequestRelease None) \<Rightarrow> [] | _ \<Rightarrow> wFrames w) = wFrames w"
      using True by (cases t; simp)+
    ultimately have "client_ok (?next t' c' started calls)"
      using res ts(2) by (intro step_ok [OF assms ts(1), of _ c' t' started calls]) simp_all
    then show ?thesis by (simp add: step r)
  next
    case False
    then consider (req) out where "t = TRequestSend out" | (sel) "t = TRunSelect" | (send) out where "t = TRunSend out"
      | (count) "t = TRunCount" by (cases t) auto
    then show ?thesis
    proof cases
      case req
      obtain t' c' started calls where r: "request_send an out (wClient w) = Some (t', c', started, calls)"
        and t': "t' = TRequestRelease (anErr an)"
        by (simp add: request_send_def)
      have "client_ok (?next t' c' started calls)"
        using req ts t' by (intro request_send_ok [OF assms _ r]) (auto split: option.split)
      then show ?thesis by (simp add: step req r)
    next
      case sel
      have "run_select an (wClient w) \<noteq> None" by (auto simp: run_select_def quietly_def split: option.split)
      then obtain t' c' started calls where r: "run_select an (wClient w) = Some (t', c', started, calls)" by auto
      have "client_ok (?next t' c' started calls)"
        using sel ts by (intro run_select_ok [OF assms _ r]) (auto split: thread.split)
      then show ?thesis by (simp add: step sel r)
    next
      case send
      have "run_send an out (wClient w) \<noteq> None" by (simp add: run_send_def split: option.split prod.split)
      then obtain t' c' started calls where r: "run_send an out (wClient w) = Some (t', c', started, calls)" by auto
      have "client_ok (?next t' c' started calls)"
        using send ts by (intro run_send_ok [OF assms _ r]) auto
      then show ?thesis by (simp add: step send r)
    next
      case count
      have "client_ok (?next TRunProgress ((wClient w)\<lparr>qcMediaSent := qcMediaSent (wClient w) + 1\<rparr>) [] [])"
        using count ts by (intro run_count_ok [OF assms]) auto
      then show ?thesis by (simp add: step count quietly_def)
    qed
  qed
qed

lemma client_do_ok:
  assumes "client_ok w"
  shows "\<exists>w'. client_do ev w = Some w' \<and> client_ok w'"
proof (cases ev)
  case (CSendAudio ts payload)
  have "is_media ((newOutbound EventAudio)\<lparr>ouTimestamp := ts, ouPayload := payload\<rparr>)" by (simp add: is_media_def newOutbound_def)
  from send_frame_ok [OF assms this] assms show ?thesis
    by (simp add: CSendAudio SendAudio_def) (simp add: send_frame_def)
next
  case (CSendData ts ty payload)
  have "is_media ((newOutbound EventData)\<lparr>ouTimestamp := ts, ouDataType := ty, ouPayload := payload\<rparr>)"
    by (simp add: is_media_def newOutbound_def)
  from send_frame_ok [OF assms this] assms show ?thesis
    by (simp add: CSendData SendData_def) (simp add: send_frame_def)
next
  case (CPublish e)
  obtain res c' calls where p: "Publish e (wClient w) = (res, c', calls)" by (metis prod_cases3)
  have "threads_ok (wClient w) (wThreads w)" using assms by (simp add: client_ok_def)
  note ok = publish_event_ok [OF p [unfolded Publish_def] this]
  from client_ok_update [OF assms ok] show ?thesis by (simp add: CPublish p)
next
  case (CRevoke st)
  have "threads_ok (wClient w) (wThreads w)" using assms by (simp add: client_ok_def)
  then have "threads_ok ((wClient w)\<lparr>qcStream := False\<rparr>) (wThreads w)" by (simp add: threads_ok_def)
  from client_ok_update [OF assms this, of "[]"] assms show ?thesis by (simp add: CRevoke revoke_def calm_def)
next
  case (CFail err)
  have "threads_ok (wClient w) (wThreads w)" using assms by (simp add: client_ok_def)
  from client_ok_update [OF assms fail_threads [OF this] fail_calm(1) fail_frame(1,2) fail_calm(2)] show ?thesis
    by (simp add: CFail case_prod_beta)
next
  case CTakeEvent
  have "threads_ok (wClient w) (wThreads w)" using assms by (simp add: client_ok_def)
  then have "threads_ok ((wClient w)\<lparr>qcEvents := ch\<rparr>) (wThreads w)" if "try_recv (qcEvents (wClient w)) = Some (x, ch)" for x ch
    using wf_chan_recv [OF _ that] by (simp add: threads_ok_def)
  from client_ok_update [OF assms this, of _ _ "[]"] assms show ?thesis
    by (auto simp: CTakeEvent calm_def split: option.split)
qed (use assms in \<open>auto simp: Connect_ok requestStream_ok EndStream_ok close_calls_ok resume_thread_ok\<close>)

definition client_init :: "world option \<Rightarrow> bool" where
  "client_init s \<longleftrightarrow> (\<exists>q sender c. New q sender = Inr c \<and> s = Some (start_world c))"

definition client_inv :: "world option \<Rightarrow> bool" where
  "client_inv s \<longleftrightarrow> (case s of None \<Rightarrow> False | Some w \<Rightarrow> client_ok w)"

interpretation client: machine client_init client_step client_inv
proof
  show "client_init s \<Longrightarrow> client_inv s" for s
    by (auto simp: client_init_def client_inv_def start_ok)
  show "client_inv (client_step s ev)" if "client_inv s" for s ev
  proof -
    from that obtain w where w: "s = Some w" "client_ok w" by (auto simp: client_inv_def split: option.splits)
    from client_do_ok [OF w(2), of ev] show ?thesis by (auto simp: w(1) client_inv_def client_step_def)
  qed
qed

lemma client_running:
  assumes "New q sender = Inr c"
  obtains w where "run client_step (Some (start_world c)) evs = Some w" and "client_ok w"
proof -
  have "client_init (Some (start_world c))" using assms by (auto simp: client_init_def)
  then have "client_inv (run client_step (Some (start_world c)) evs)" by (rule client.inv_reachable)
  then show thesis using that by (auto simp: client_inv_def split: option.splits)
qed

end
