(* ===== verification/UdpClient.thy ===== *)
theory UdpClient
  imports QueueClient Validate Helpers Crypto
begin

text \<open>
  \<^verbatim>\<open>pkg/client/udp.go\<close>: the sender that speaks the protocol over a UDP socket, with the client
  that owns it.

  What the code waits for is chosen by the environment: each blocking read, timer, context or
  channel operation is the next entry of a script, and \<open>Waiting\<close> is the value when the
  script ends. While a request waits, its script also runs the goroutines of the read loop and
  of the processing loop, which put the reply into its channel. A write to the socket fails
  where \<open>usConn\<close> says so, or when the socket is closed. \<open>usWritten\<close> logs the datagrams that
  were written, \<open>usEvents\<close> the events handed to \<^verbatim>\<open>Publish\<close>; \<open>usReading\<close> and \<open>usLooping\<close> say
  whether the two loops run. The clock and the random source are as in the reflector: readings
  and the bytes still to be delivered. A panic is \<^term>\<open>None\<close>.
\<close>

section \<open>State\<close>

record requestKey =
  rqTx :: u64
  rqStream :: u32

record pendingRequest =
  rqResponses :: "Packet chan"
  rqTypes :: "PacketType list"

record remoteKey =
  rkOwner :: u64
  rkStream :: u32

record remoteStream =
  rsOwner :: u64
  rsStream :: u32
  rsLastMedia :: time

record udpSender =
  usOptions :: Options
  usOwner :: QueueClient
  usSession :: u64
  usPending :: "(requestKey, pendingRequest) gomap"
  usInbound :: "bytes chan"
  usClosed :: bool
  usClosing :: bool
  usInboundDrops :: u64
  usRemote :: remoteStream
  usRetired :: "remoteKey list"
  usRetiredCount :: nat
  usRetiredNext :: nat
  usControlTokens :: "unit chan"
  usReading :: bool
  usLooping :: bool
  usConnClose :: "client_error option"
  usConn :: "nat \<Rightarrow> client_error option"
  usWrites :: nat
  usWritten :: "bytes list"
  usEvents :: "Event list"
  usClock :: "nat \<Rightarrow> time"
  usReadings :: nat
  usRandom :: bytes
  usUnicode :: "string \<Rightarrow> string"

definition noRemote :: remoteStream where
  "noRemote = \<lparr>rsOwner = 0, rsStream = 0, rsLastMedia = 0\<rparr>"

definition zeroKey :: remoteKey where
  "zeroKey = \<lparr>rkOwner = 0, rkStream = 0\<rparr>"

text \<open>\<^verbatim>\<open>NewUDP\<close> after the address was resolved and the socket opened.\<close>

definition udp_interfaces :: Sender where
  "udp_interfaces = \<lparr>seFloor = True, seEnd = True, seDisconnect = True, seClose = True\<rparr>"

definition Client_NewUDP :: "Options \<Rightarrow> (nat \<Rightarrow> client_error option) \<Rightarrow> client_error option \<Rightarrow>
    (nat \<Rightarrow> time) \<Rightarrow> bytes \<Rightarrow> (string \<Rightarrow> string) \<Rightarrow> client_error + udpSender" where
  "Client_NewUDP q conn conn_close clk rnd uni =
     (let q = Options_defaults q in
      case Options_validate q of
        Some err \<Rightarrow> Inl err
      | None \<Rightarrow>
          (case New q (Some udp_interfaces) of
             Inl err \<Rightarrow> Inl err
           | Inr c \<Rightarrow> Inr \<lparr>usOptions = q, usOwner = c, usSession = 0, usPending = [],
               usInbound = make_chan (nat (clInboundQueuePackets q)), usClosed = False, usClosing = False,
               usInboundDrops = 0, usRemote = noRemote, usRetired = replicate 8 zeroKey, usRetiredCount = 0,
               usRetiredNext = 0, usControlTokens = make_chan (nat (clControlSendQueuePackets q)), usReading = False,
               usLooping = False, usConnClose = conn_close, usConn = conn,
               usWrites = 0, usWritten = [], usEvents = [], usClock = clk, usReadings = 0, usRandom = rnd,
               usUnicode = uni\<rparr>))"

section \<open>Socket, clock, random source and owner\<close>

definition Close :: "udpSender \<Rightarrow> client_error option \<times> udpSender" where
  "Close s = (if \<not> usClosed s then (usConnClose s, s\<lparr>usClosed := True\<rparr>) else (None, s))"

definition us_now :: "udpSender \<Rightarrow> time \<times> udpSender" where
  "us_now s = (usClock s (usReadings s), s\<lparr>usReadings := Suc (usReadings s)\<rparr>)"

definition us_random :: "nat \<Rightarrow> udpSender \<Rightarrow> (client_error + bytes) \<times> udpSender" where
  "us_random n s =
     (case ReadFull n (usRandom s) of
        (Inl _, rest) \<Rightarrow> (Inl (ErrText ''random''), s\<lparr>usRandom := rest\<rparr>)
      | (Inr b, rest) \<Rightarrow> (Inr b, s\<lparr>usRandom := rest\<rparr>))"

text \<open>What a failing owner does to its sender is to close it.\<close>

definition with_owner :: "QueueClient \<times> sender_call list \<Rightarrow> udpSender \<Rightarrow> udpSender" where
  "with_owner r s = (let s = s\<lparr>usOwner := fst r\<rparr> in if CallClose \<in> set (snd r) then snd (Close s) else s)"

definition owner_fail :: "client_error \<Rightarrow> udpSender \<Rightarrow> udpSender" where
  "owner_fail err s = with_owner (fail err (usOwner s)) s"

definition owner_Publish :: "Event \<Rightarrow> udpSender \<Rightarrow> udpSender" where
  "owner_Publish ev s = with_owner (snd (Publish ev (usOwner s))) (s\<lparr>usEvents := usEvents s @ [ev]\<rparr>)"

definition udp_write :: "Packet \<Rightarrow> udpSender \<Rightarrow> (client_error option \<times> udpSender) option" where
  "udp_write p s =
     (case Encode p of
        None \<Rightarrow> None
      | Some (Inl _) \<Rightarrow> Some (Some (ErrText ''malformed packet''), s)
      | Some (Inr data) \<Rightarrow>
          let err = (if usClosed s then Some (ErrText ''use of closed network connection'') else usConn s (usWrites s));
              s = s\<lparr>usWrites := Suc (usWrites s)\<rparr> in
          Some (err, if err = None then s\<lparr>usWritten := usWritten s @ [data]\<rparr> else s))"

function nextTx :: "udpSender \<Rightarrow> (client_error + u64) \<times> udpSender" where
  "nextTx s =
     (case us_random 8 s of
        (Inl err, s) \<Rightarrow> (Inl err, s)
      | (Inr raw, s) \<Rightarrow> let v = get_be raw in if v \<noteq> 0 then (Inr v, s) else nextTx s)"
  by pat_completeness auto
termination
proof (relation "measure (\<lambda>s. length (usRandom s))")
  show "wf (measure (\<lambda>s. length (usRandom s)))" by simp
qed (auto simp: us_random_def ReadFull_def split: if_splits)

declare nextTx.simps [simp del]

section \<open>Retired streams\<close>

fun isRetired_from :: "remoteKey \<Rightarrow> remoteKey list \<Rightarrow> nat \<Rightarrow> nat \<Rightarrow> bool option" where
  "isRetired_from key ring index 0 = Some False"
| "isRetired_from key ring index (Suc n) = do {
     k \<leftarrow> at ring index;
     if k = key then Some True else isRetired_from key ring (Suc index) n
   }"

definition isRetiredLocked :: "remoteKey \<Rightarrow> udpSender \<Rightarrow> bool option" where
  "isRetiredLocked key s = isRetired_from key (usRetired s) 0 (usRetiredCount s)"

definition put_retired :: "nat \<Rightarrow> remoteKey \<Rightarrow> udpSender \<Rightarrow> udpSender option" where
  "put_retired index key s =
     (if index < length (usRetired s) then Some (s\<lparr>usRetired := (usRetired s)[index := key]\<rparr>) else None)"

definition retireLocked :: "remoteKey \<Rightarrow> udpSender \<Rightarrow> udpSender option" where
  "retireLocked key s =
     (if rkStream key = 0 then Some s
      else do {
        known \<leftarrow> isRetiredLocked key s;
        if known then Some s
        else if usRetiredCount s < length (usRetired s) then do {
          s \<leftarrow> put_retired (usRetiredCount s) key s;
          Some (s\<lparr>usRetiredCount := usRetiredCount s + 1\<rparr>)
        }
        else do {
          s \<leftarrow> put_retired (usRetiredNext s) key s;
          Some (s\<lparr>usRetiredNext := (usRetiredNext s + 1) mod length (usRetired s)\<rparr>)
        }
      })"

section \<open>Receiving\<close>

definition enqueueInbound :: "bytes \<Rightarrow> udpSender \<Rightarrow> udpSender" where
  "enqueueInbound data s =
     (case try_send (usInbound s) data of
        (True, ch) \<Rightarrow> s\<lparr>usInbound := ch\<rparr>
      | (False, _) \<Rightarrow> s\<lparr>usInboundDrops := usInboundDrops s + 1\<rparr>)"

definition remote_key :: "remoteStream \<Rightarrow> remoteKey" where
  "remote_key r = \<lparr>rkOwner = rsOwner r, rkStream = rsStream r\<rparr>"

definition packet_key :: "Packet \<Rightarrow> remoteKey" where
  "packet_key p = \<lparr>rkOwner = hSessionID (pHeader p), rkStream = hStreamID (pHeader p)\<rparr>"

definition expireRemote :: "time \<Rightarrow> udpSender \<Rightarrow> udpSender option" where
  "expireRemote now s =
     (let expired = usRemote s in
      if rsStream expired = 0 \<or> Sub now (rsLastMedia expired) \<le> 2 * Second then Some s
      else do {
        s \<leftarrow> retireLocked (remote_key expired) s;
        Some (owner_Publish ((newEvent EventStreamEnd)\<lparr>ceSessionID := rsOwner expired, ceStreamID := rsStream expired,
          ceMessage := ''receive state expired''\<rparr>) (s\<lparr>usRemote := noRemote\<rparr>))
      })"

definition ack_packet :: "Packet \<Rightarrow> u64 \<Rightarrow> bytes \<Rightarrow> Packet" where
  "ack_packet p sid raw = \<lparr>pHeader = zeroHeader\<lparr>hVersion := 1, hType := hType (pHeader p), hFlags := FlagResponse,
       hSessionID := sid, hStreamID := hStreamID (pHeader p), hSequence := hSequence (pHeader p),
       hTimestamp := hTimestamp (pHeader p)\<rparr>,
     pExtensions = [tlv TLVTransactionID raw], pPayload = []\<rparr>"

definition Sender_ack :: "Packet \<Rightarrow> udpSender \<Rightarrow> udpSender option" where
  "Sender_ack p s =
     (case Find p TLVTransactionID of
        None \<Rightarrow> Some s
      | Some raw \<Rightarrow> do { (_, s) \<leftarrow> udp_write (ack_packet p (usSession s) raw) s; Some s })"

definition protocolErrorEvent :: "Packet \<Rightarrow> Event option" where
  "protocolErrorEvent p = do {
     let h = pHeader p;
     let ev = (newEvent EventProtocolError)\<lparr>ceSessionID := hSessionID h, ceStreamID := hStreamID h,
       ceSequence := hSequence h, ceTimestamp := hTimestamp h\<rparr>;
     ev \<leftarrow> (case Find p TLVErrorCode of
         Some raw \<Rightarrow> if length raw = 2 then do { code \<leftarrow> Uint16 raw; Some (ev\<lparr>ceProtocolErrorCode := code\<rparr>) } else Some ev
       | None \<Rightarrow> Some ev);
     Some (case Find p TLVErrorText of Some raw \<Rightarrow> ev\<lparr>ceMessage := string_of raw\<rparr> | None \<Rightarrow> ev)
   }"

text \<open>
  The body of \<^verbatim>\<open>processLoop\<close>. A reply goes to the request that waits for it. Each case of the
  switch returns the event to publish, or nothing where the source goes on with the next datagram.
\<close>

definition deliver_response :: "Packet \<Rightarrow> udpSender \<Rightarrow> (bool \<times> udpSender) option" where
  "deliver_response p s =
     (case Find p TLVTransactionID of
        None \<Rightarrow> Some (False, s)
      | Some raw \<Rightarrow> do {
          t \<leftarrow> Uint64 raw;
          let key = \<lparr>rqTx = t, rqStream = hStreamID (pHeader p)\<rparr>;
          Some (case if hSessionID (pHeader p) = usSession s then map_of (usPending s) key else None of
                  None \<Rightarrow> (False, s)
                | Some pr \<Rightarrow>
                    if hType (pHeader p) \<in> set (rqTypes pr)
                    then (True, s\<lparr>usPending := AList.update key
                      (pr\<lparr>rqResponses := snd (try_send (rqResponses pr) p)\<rparr>) (usPending s)\<rparr>)
                    else (False, s))
        })"

definition from_packet :: "EventKind \<Rightarrow> Packet \<Rightarrow> Event" where
  "from_packet kind p = (newEvent kind)\<lparr>ceSessionID := hSessionID (pHeader p), ceStreamID := hStreamID (pHeader p),
     ceSequence := hSequence (pHeader p), ceTimestamp := hTimestamp (pHeader p), cePayload := pPayload p\<rparr>"

definition touch_remote :: "udpSender \<Rightarrow> udpSender" where
  "touch_remote s = (let (now, s) = us_now s in s\<lparr>usRemote := (usRemote s)\<lparr>rsLastMedia := now\<rparr>\<rparr>)"

definition on_audio :: "Packet \<Rightarrow> udpSender \<Rightarrow> (Event option \<times> udpSender) option" where
  "on_audio p s =
     (if remote_key (usRemote s) \<noteq> packet_key p then Some (None, s)
      else Some (Some (from_packet EventAudio p), touch_remote s))"

definition on_data :: "Packet \<Rightarrow> udpSender \<Rightarrow> (Event option \<times> udpSender) option" where
  "on_data p s =
     (if remote_key (usRemote s) \<noteq> packet_key p then Some (None, s)
      else case Find p TLVDataType of
        None \<Rightarrow> Some (Some (from_packet EventData p), touch_remote s)
      | Some raw \<Rightarrow> do {
          v \<leftarrow> Uint16 raw;
          Some (Some ((from_packet EventData p)\<lparr>ceDataType := v\<rparr>), touch_remote s)
        })"

definition trimmed :: "Packet \<Rightarrow> TLVType \<Rightarrow> string" where
  "trimmed p typ = (case Find p typ of None \<Rightarrow> [] | Some v \<Rightarrow> TrimSpace (string_of v))"

definition on_stream_start :: "Packet \<Rightarrow> udpSender \<Rightarrow> (Event option \<times> udpSender) option" where
  "on_stream_start p s = do {
     s \<leftarrow> Sender_ack p s;
     if remote_key (usRemote s) = packet_key p then Some (None, s)
     else do {
       gone \<leftarrow> isRetiredLocked (packet_key p) s;
       if gone then Some (None, s)
       else do {
         s \<leftarrow> (if rsStream (usRemote s) \<noteq> 0 then retireLocked (remote_key (usRemote s)) s else Some s);
         let (now, s) = us_now s;
         Some (Some ((from_packet EventStreamStart p)\<lparr>ceNodeCallsign := trimmed p TLVNodeCallsign,
             ceSourceCallsign := trimmed p TLVSourceCallsign\<rparr>),
           s\<lparr>usRemote := \<lparr>rsOwner = hSessionID (pHeader p), rsStream = hStreamID (pHeader p), rsLastMedia = now\<rparr>\<rparr>)
       }
     }
   }"

definition owner_revoke :: "Packet \<Rightarrow> udpSender \<Rightarrow> bool \<times> udpSender" where
  "owner_revoke p s =
     (if hSessionID (pHeader p) = usSession s
      then let (revoked, c) = revoke (hStreamID (pHeader p)) (usOwner s) in (revoked, s\<lparr>usOwner := c\<rparr>)
      else (False, s))"

definition on_stream_revoke :: "Packet \<Rightarrow> udpSender \<Rightarrow> (Event option \<times> udpSender) option" where
  "on_stream_revoke p s = do {
     s \<leftarrow> Sender_ack p s;
     let (own, s) = owner_revoke p s;
     let matches = (remote_key (usRemote s) = packet_key p);
     s \<leftarrow> retireLocked (packet_key p) s;
     Some (if \<not> matches \<and> \<not> own then (None, s)
           else (Some (from_packet EventStreamEnd p), if matches then s\<lparr>usRemote := noRemote\<rparr> else s))
   }"

definition on_packet :: "Packet \<Rightarrow> udpSender \<Rightarrow> (Event option \<times> udpSender) option" where
  "on_packet p s =
     (let k = hType (pHeader p) in
      if k = PacketAudio then on_audio p s
      else if k = PacketData then on_data p s
      else if k = PacketStreamStart then on_stream_start p s
      else if k = PacketStreamRevoke then on_stream_revoke p s
      else if k = PacketError then do { ev \<leftarrow> protocolErrorEvent p; Some (Some ev, s) }
      else Some (None, s))"

text \<open>\<^verbatim>\<open>go s.owner.remoteClose()\<close>, run to its end.\<close>

definition owner_remoteClose :: "udpSender \<Rightarrow> udpSender option" where
  "owner_remoteClose s =
     (case remoteClose (usOwner s) of
        (TRemoteSender, c) \<Rightarrow>
          let (err, s) = Close s in do {
            (_, c, _, _) \<leftarrow> close_finish err c;
            Some (s\<lparr>usOwner := c\<rparr>)
          }
      | (_, c) \<Rightarrow> Some (s\<lparr>usOwner := c\<rparr>))"

definition process_packet :: "Packet \<Rightarrow> udpSender \<Rightarrow> udpSender option" where
  "process_packet p s =
     (if hType (pHeader p) = PacketDisconnect then do {
        s \<leftarrow> Sender_ack p s;
        owner_remoteClose (s\<lparr>usLooping := False\<rparr>)
      }
      else do {
        (ev, s) \<leftarrow> on_packet p s;
        Some (case ev of None \<Rightarrow> s | Some ev \<Rightarrow> owner_Publish ev s)
      })"

definition session_free :: "PacketType list" where
  "session_free = [PacketAudio, PacketData, PacketStreamStart, PacketStreamRevoke]"

definition process_data :: "bytes \<Rightarrow> udpSender \<Rightarrow> udpSender option" where
  "process_data data s =
     (case Decode data of
        None \<Rightarrow> None
      | Some (Inl _) \<Rightarrow> Some s
      | Some (Inr p) \<Rightarrow>
          if Validate p \<lparr>cDirection = ServerToClient, cPhase = Ready\<rparr> \<noteq> None then Some s
          else if hType (pHeader p) \<notin> set session_free \<and> hSessionID (pHeader p) \<noteq> usSession s then Some s
          else do {
            (taken, s) \<leftarrow> deliver_response p s;
            if taken then Some s else process_packet p s
          })"

text \<open>
  What the two loops see: a datagram or an error (a timeout or another one) at the read; an
  inbound datagram, the ticker or the end of the owner at the select.
\<close>

datatype loop_event = LRead bytes | LReadError bool client_error | LTake | LTick | LDone

definition read_error :: "bool \<Rightarrow> client_error \<Rightarrow> udpSender \<Rightarrow> udpSender" where
  "read_error timeout err s =
     (if usClosed s then s\<lparr>usReading := False\<rparr>
      else if timeout then s
      else (owner_fail err s)\<lparr>usReading := False\<rparr>)"

fun loop_step :: "loop_event \<Rightarrow> udpSender \<Rightarrow> udpSender option" where
  "loop_step (LRead data) s =
     Some (if \<not> usReading s \<or> length data > MaxDatagramSize then s else enqueueInbound data s)"
| "loop_step (LReadError timeout err) s = Some (if usReading s then read_error timeout err s else s)"
| "loop_step LTake s =
     (if \<not> usLooping s then Some s
      else case try_recv (usInbound s) of
        None \<Rightarrow> Some s
      | Some (data, ch) \<Rightarrow> process_data data (s\<lparr>usInbound := ch\<rparr>))"
| "loop_step LTick s = (if \<not> usLooping s then Some s else let (now, s) = us_now s in expireRemote now s)"
| "loop_step LDone s = Some (if qcDone (usOwner s) then s\<lparr>usLooping := False\<rparr> else s)"

section \<open>Requests\<close>

definition client_packet :: "PacketType \<Rightarrow> u64 \<Rightarrow> u32 \<Rightarrow> TLV list \<Rightarrow> Packet" where
  "client_packet typ sid st ext = \<lparr>pHeader = zeroHeader\<lparr>hVersion := 1, hType := typ, hSessionID := sid, hStreamID := st\<rparr>,
     pExtensions = ext, pPayload = []\<rparr>"

text \<open>
  What a wait of \<^verbatim>\<open>exchange\<close> sees: a datagram, the deadline, another read error, or an error
  with the context done. What a wait of \<^verbatim>\<open>request\<close> sees: a step of the loops, the reply in its
  channel, the timer, or the context.
\<close>

datatype exchange_event = XData bytes | XTimer | XError | XContext client_error

datatype request_event = RLoop loop_event | RReply | RTimer | RContext client_error

datatype 'a outcome = Waiting | Retry | Failed client_error | Got 'a

type_synonym 'e wait = "'e list \<Rightarrow> udpSender \<Rightarrow> (Packet outcome \<times> 'e list \<times> udpSender) option"

text \<open>
  The attempts that are left, with the wait of the caller; every attempt after the first carries
  the retry flag.
\<close>

fun attempts :: "'e wait \<Rightarrow> nat \<Rightarrow> Packet \<Rightarrow> 'e wait" where
  "attempts wait 0 p evs s = Some (Failed (ErrText ''protocol request timed out''), evs, s)"
| "attempts wait (Suc n) p evs s = do {
     (err, s) \<leftarrow> udp_write p s;
     (case err of
        Some e \<Rightarrow> Some (Failed e, evs, s)
      | None \<Rightarrow> do {
          (res, evs, s) \<leftarrow> wait evs s;
          if res = Retry then attempts wait n (with_retry p) evs s else Some (res, evs, s)
        })
   }"

definition exchange_accepts :: "PacketType \<Rightarrow> u64 \<Rightarrow> udpSender \<Rightarrow> Packet \<Rightarrow> bool option" where
  "exchange_accepts want tx s reply =
     (if Validate reply \<lparr>cDirection = ServerToClient, cPhase = (if want = PacketKeepalive then Connected else PreAdmission)\<rparr> \<noteq> None \<or>
         hType (pHeader reply) \<noteq> want then Some False
      else if want = PacketKeepalive \<and> hSessionID (pHeader reply) \<noteq> usSession s then Some False
      else case Find reply TLVTransactionID of
        None \<Rightarrow> Some False
      | Some raw \<Rightarrow> do { t \<leftarrow> Uint64 raw; Some (t = tx) })"

fun exchange_wait :: "PacketType \<Rightarrow> u64 \<Rightarrow> exchange_event wait" where
  "exchange_wait want tx [] s = Some (Waiting, [], s)"
| "exchange_wait want tx (XTimer # evs) s = Some (Retry, evs, s)"
| "exchange_wait want tx (XContext err # evs) s = Some (Failed err, evs, s)"
| "exchange_wait want tx (XError # evs) s = exchange_wait want tx evs s"
| "exchange_wait want tx (XData d # evs) s =
     (if length d > MaxDatagramSize then exchange_wait want tx evs s
      else case Decode d of
        None \<Rightarrow> None
      | Some (Inl _) \<Rightarrow> exchange_wait want tx evs s
      | Some (Inr reply) \<Rightarrow> do {
          good \<leftarrow> exchange_accepts want tx s reply;
          if good then Some (Got reply, evs, s) else exchange_wait want tx evs s
        })"

definition exchange :: "Packet \<Rightarrow> PacketType \<Rightarrow> u64 \<Rightarrow> exchange_event wait" where
  "exchange p want tx = attempts (exchange_wait want tx) 4 p"

text \<open>The reply of a request is read from the channel of its entry in the map.\<close>

definition request_reply :: "PacketType list \<Rightarrow> Packet \<Rightarrow> udpSender \<Rightarrow> (Packet outcome \<times> udpSender) option" where
  "request_reply wants reply s =
     (if hType (pHeader reply) = PacketError then do {
        ev \<leftarrow> protocolErrorEvent reply;
        Some (Failed (ProtocolError (ceProtocolErrorCode ev) (ceMessage ev)), owner_Publish ev s)
      }
      else if hType (pHeader reply) \<in> set wants then Some (Got reply, s)
      else Some (Failed (ErrText ''unexpected protocol response''), s))"

definition take_response :: "requestKey \<Rightarrow> udpSender \<Rightarrow> (Packet \<times> udpSender) option" where
  "take_response key s =
     (case map_of (usPending s) key of
        None \<Rightarrow> None
      | Some pr \<Rightarrow> (case try_recv (rqResponses pr) of
            None \<Rightarrow> None
          | Some (reply, ch) \<Rightarrow> Some (reply, s\<lparr>usPending := AList.update key (pr\<lparr>rqResponses := ch\<rparr>) (usPending s)\<rparr>)))"

fun request_wait :: "requestKey \<Rightarrow> PacketType list \<Rightarrow> request_event wait" where
  "request_wait key wants [] s = Some (Waiting, [], s)"
| "request_wait key wants (RTimer # evs) s = Some (Retry, evs, s)"
| "request_wait key wants (RContext err # evs) s = Some (Failed err, evs, s)"
| "request_wait key wants (RLoop ev # evs) s = do { s \<leftarrow> loop_step ev s; request_wait key wants evs s }"
| "request_wait key wants (RReply # evs) s =
     (case take_response key s of
        None \<Rightarrow> request_wait key wants evs s
      | Some (reply, s) \<Rightarrow> do { (res, s) \<leftarrow> request_reply wants reply s; Some (res, evs, s) })"

definition request :: "Packet \<Rightarrow> PacketType list \<Rightarrow> request_event wait" where
  "request p wants evs s =
     (case try_send (usControlTokens s) () of
        (False, _) \<Rightarrow> Some (Failed ErrControlBackpressure, evs, owner_fail ErrControlBackpressure s)
      | (True, tokens) \<Rightarrow> do {
          t \<leftarrow> Uint64 (case Find p TLVTransactionID of Some v \<Rightarrow> v | None \<Rightarrow> []);
          let key = \<lparr>rqTx = t, rqStream = hStreamID (pHeader p)\<rparr>;
          (res, evs, s) \<leftarrow> attempts (request_wait key wants) 4 p evs (s\<lparr>usControlTokens := tokens,
            usPending := AList.update key \<lparr>rqResponses = make_chan 1, rqTypes = PacketError # wants\<rparr> (usPending s)\<rparr>);
          Some (res, evs, if res = Waiting then s else s\<lparr>usPending := AList.delete key (usPending s),
            usControlTokens := (case try_recv (usControlTokens s) of Some (_, c) \<Rightarrow> c | None \<Rightarrow> usControlTokens s)\<rparr>)
        })"

fun failure :: "'a outcome \<Rightarrow> unit outcome" where
  "failure (Got _) = Got ()"
| "failure (Failed e) = Failed e"
| "failure Waiting = Waiting"
| "failure Retry = Retry"

section \<open>The handshake\<close>

definition hello_packet :: "u64 \<Rightarrow> bytes \<Rightarrow> bytes \<Rightarrow> Packet" where
  "hello_packet tx node nonce = client_packet PacketHello 0 0
     [Uint64TLV TLVTransactionID tx, tlv TLVNodeCallsign node, tlv TLVClientNonce nonce]"

definition client_tag :: "string \<Rightarrow> bytes \<Rightarrow> bytes \<Rightarrow> bytes \<Rightarrow> bytes \<Rightarrow> bytes" where
  "client_tag key node nonce serverNonce reflector =
     hmac_sha256 (bytes_of key) (bytes_of ''OPRF-AUTH-V1'' @ node @ nonce @ serverNonce @ reflector)"

definition value_of :: "Packet \<Rightarrow> TLVType \<Rightarrow> bytes" where
  "value_of p typ = (case Find p typ of None \<Rightarrow> [] | Some v \<Rightarrow> v)"

definition authenticate_packet :: "string \<Rightarrow> u64 \<Rightarrow> bytes \<Rightarrow> bytes \<Rightarrow> Packet \<Rightarrow> Packet" where
  "authenticate_packet key tx node nonce challenge_reply =
     (let serverNonce = value_of challenge_reply TLVServerNonce in
      client_packet PacketAuthenticate 0 0
        ([Uint64TLV TLVTransactionID tx, tlv TLVClientNonce nonce, tlv TLVServerNonce serverNonce] @
         (if key \<noteq> [] then [tlv TLVAuthenticationTag
            (client_tag key node nonce serverNonce (value_of challenge_reply TLVReflectorID))] else [])))"

definition keepalive_packet :: "u64 \<Rightarrow> u64 \<Rightarrow> Packet" where
  "keepalive_packet sid tx = client_packet PacketKeepalive sid 0 [Uint64TLV TLVTransactionID tx]"

definition handshake_keepalive :: "exchange_event list \<Rightarrow> udpSender \<Rightarrow> (unit outcome \<times> udpSender) option" where
  "handshake_keepalive evs s =
     (case nextTx s of
        (Inl err, s) \<Rightarrow> Some (Failed err, s)
      | (Inr tx, s) \<Rightarrow> do {
          (res, _, s) \<leftarrow> exchange (keepalive_packet (usSession s) tx) PacketKeepalive tx evs s;
          Some (failure res, if failure res = Got () then s\<lparr>usReading := True, usLooping := True\<rparr> else s)
        })"

text \<open>On success the goroutines of the read loop and of the keepalive start.\<close>

definition client_handshake :: "exchange_event list \<Rightarrow> udpSender \<Rightarrow> (unit outcome \<times> udpSender) option" where
  "client_handshake evs s =
     (case Callsign (usUnicode s) (clNodeCallsign (usOptions s)) of
        Inl _ \<Rightarrow> Some (Failed (ErrText ''callsign''), s)
      | Inr node \<Rightarrow>
          (case us_random 32 s of
             (Inl err, s) \<Rightarrow> Some (Failed err, s)
           | (Inr nonce, s) \<Rightarrow>
               (case nextTx s of
                  (Inl err, s) \<Rightarrow> Some (Failed err, s)
                | (Inr tx, s) \<Rightarrow> do {
                    (res, evs, s) \<leftarrow> exchange (hello_packet tx node nonce) PacketChallenge tx evs s;
                    (case res of
                       Got reply \<Rightarrow> do {
                         (res, evs, s) \<leftarrow> exchange (authenticate_packet (clSharedKey (usOptions s)) tx node nonce reply)
                           PacketWelcome tx evs s;
                         (case res of
                            Got welcome \<Rightarrow> handshake_keepalive evs (s\<lparr>usSession := hSessionID (pHeader welcome)\<rparr>)
                          | _ \<Rightarrow> Some (failure res, s))
                       }
                     | _ \<Rightarrow> Some (failure res, s))
                  })))"

section \<open>The sender's operations\<close>

definition media_packet :: "Outbound \<Rightarrow> u64 \<Rightarrow> Packet" where
  "media_packet out sid = \<lparr>pHeader = zeroHeader\<lparr>hVersion := 1,
       hType := (if ouKind out = EventData then PacketData else PacketAudio), hSessionID := sid,
       hStreamID := ouStreamID out, hSequence := ouSequence out, hTimestamp := ouTimestamp out\<rparr>,
     pExtensions = (if ouKind out = EventData then [Uint16TLV TLVDataType (ouDataType out)] else []),
     pPayload = ouPayload out\<rparr>"

definition with_tx :: "(u64 \<Rightarrow> udpSender \<Rightarrow> (unit outcome \<times> udpSender) option) \<Rightarrow> udpSender \<Rightarrow>
    (unit outcome \<times> udpSender) option" where
  "with_tx f s = (case nextTx s of (Inl err, s) \<Rightarrow> Some (Failed err, s) | (Inr tx, s) \<Rightarrow> f tx s)"

definition Send :: "Outbound \<Rightarrow> exchange_event list \<Rightarrow> request_event list \<Rightarrow> udpSender \<Rightarrow> (unit outcome \<times> udpSender) option" where
  "Send out xs rs s =
     (if ouKind out = EventStatus then
        if usSession s = 0 then client_handshake xs s
        else with_tx (\<lambda>tx s. do {
          (res, _, s) \<leftarrow> request (keepalive_packet (usSession s) tx) [PacketKeepalive] rs s;
          Some (failure res, s) }) s
      else if ouKind out = EventAudio \<or> ouKind out = EventData then do {
        (err, s) \<leftarrow> udp_write (media_packet out (usSession s)) s;
        Some (case err of None \<Rightarrow> Got () | Some e \<Rightarrow> Failed e, s)
      }
      else Some (Failed (ErrText ''unsupported outbound event''), s))"

definition Sender_RequestFloor :: "Outbound \<Rightarrow> request_event list \<Rightarrow> udpSender \<Rightarrow> (unit outcome \<times> udpSender) option" where
  "Sender_RequestFloor out rs s =
     (case Callsign (usUnicode s) (ouSourceCallsign out) of
        Inl _ \<Rightarrow> Some (Failed (ErrText ''callsign''), s)
      | Inr source \<Rightarrow> with_tx (\<lambda>tx s. do {
          (res, _, s) \<leftarrow> request (client_packet PacketStreamRequest (usSession s) (ouStreamID out)
              [Uint64TLV TLVTransactionID tx, tlv TLVSourceCallsign source]) [PacketStreamGrant, PacketStreamBusy] rs s;
          (case res of
             Got reply \<Rightarrow>
               if hType (pHeader reply) = PacketStreamBusy then
                 Some (Failed ErrBusy, owner_Publish ((newEvent EventBusy)\<lparr>ceSessionID := hSessionID (pHeader reply),
                   ceStreamID := hStreamID (pHeader reply), ceMessage := ''reflector floor is busy''\<rparr>) s)
               else Some (Got (), s)
           | _ \<Rightarrow> Some (failure res, s)) }) s)"

definition EndFloor :: "Outbound \<Rightarrow> request_event list \<Rightarrow> udpSender \<Rightarrow> (unit outcome \<times> udpSender) option" where
  "EndFloor out rs s = with_tx (\<lambda>tx s. do {
     let p = client_packet PacketStreamEnd (usSession s) (ouStreamID out) [Uint64TLV TLVTransactionID tx];
     (res, _, s) \<leftarrow> request (p\<lparr>pHeader := (pHeader p)\<lparr>hSequence := ouSequence out, hTimestamp := ouTimestamp out\<rparr>\<rparr>)
       [PacketStreamEnd] rs s;
     Some (failure res, s) }) s"

definition Sender_Disconnect :: "request_event list \<Rightarrow> udpSender \<Rightarrow> (unit outcome \<times> udpSender) option" where
  "Sender_Disconnect rs s =
     (if usSession s = 0 \<or> usClosed s then Some (Got (), s)
      else with_tx (\<lambda>tx s. do {
        (res, _, s) \<leftarrow> request (client_packet PacketDisconnect (usSession s) 0 [Uint64TLV TLVTransactionID tx]) [PacketDisconnect] rs s;
        Some (failure res, s) }) (s\<lparr>usClosing := True\<rparr>))"

text \<open>One round of \<^verbatim>\<open>keepalive\<close>: \<^term>\<open>False\<close> when the goroutine returns.\<close>

definition keepalive_round :: "exchange_event list \<Rightarrow> request_event list \<Rightarrow> udpSender \<Rightarrow> (bool \<times> udpSender) option" where
  "keepalive_round xs rs s =
     (if usClosed s \<or> usClosing s then Some (False, s)
      else do {
        (res, s) \<leftarrow> Send (newOutbound EventStatus) xs rs s;
        Some (case res of Failed err \<Rightarrow> (False, owner_fail err s) | _ \<Rightarrow> (True, s))
      })"

section \<open>The system\<close>

text \<open>
  The calls of the sender, the loops, the keepalive, and the calls of the owner that
  \<^verbatim>\<open>client.go\<close> makes on other goroutines: one step of such a call that is at the given place,
  with any answer. (Which places occur is the subject of the owner's own theory; a close is
  finished by the thread that called it.)
\<close>

datatype udp_event =
    USend Outbound "exchange_event list" "request_event list"
  | URequestFloor Outbound "request_event list"
  | UEndFloor Outbound "request_event list"
  | UDisconnect "request_event list"
  | UClose
  | UKeepalive "exchange_event list" "request_event list"
  | ULoop loop_event
  | UOwner client_event thread

definition owner_step :: "client_event \<Rightarrow> thread \<Rightarrow> udpSender \<Rightarrow> udpSender" where
  "owner_step ev t s =
     (case client_do ev ((start_world (usOwner s))\<lparr>wThreads := [t]\<rparr>) of
        None \<Rightarrow> s
      | Some w \<Rightarrow>
          if qcCloseDone (wClient w) \<and> \<not> qcCloseCalled (wClient w) then s
          else with_owner (wClient w, wCalls w) s)"

fun udp_do :: "udp_event \<Rightarrow> udpSender \<Rightarrow> udpSender option" where
  "udp_do (USend out xs rs) s = map_option snd (Send out xs rs s)"
| "udp_do (URequestFloor out rs) s = map_option snd (Sender_RequestFloor out rs s)"
| "udp_do (UEndFloor out rs) s = map_option snd (EndFloor out rs s)"
| "udp_do (UDisconnect rs) s = map_option snd (Sender_Disconnect rs s)"
| "udp_do UClose s = Some (snd (Close s))"
| "udp_do (UKeepalive xs rs) s = map_option snd (keepalive_round xs rs s)"
| "udp_do (ULoop ev) s = loop_step ev s"
| "udp_do (UOwner ev t) s = Some (owner_step ev t s)"

definition udp_step :: "udpSender option \<Rightarrow> udp_event \<Rightarrow> udpSender option" where
  "udp_step s ev = s \<bind> udp_do ev"

end
