(* ===== verification/Config.thy ===== *)
theory Config
  imports Helpers
begin

text \<open>
  \<^verbatim>\<open>internal/config/config.go\<close>: the configuration of the reflector and its shared key.

  The YAML decoder is a parameter: given the bytes of the file and the value it decodes into
  (which keeps the fields that the file does not name), it returns an error or a value. The
  files, the environment variables and the resolution of addresses are what the operating
  system of the run says.
\<close>

section \<open>Data\<close>

record ConfigNetwork =
  cgUDPListen :: string

record ConfigReflector =
  cgID :: string
  cgDisplayName :: string

record ConfigLimits =
  cgMaxClients :: int
  cgMaxDatagramBytes :: int
  cgInboundQueuePackets :: int
  cgOutboundMediaQueueFrames :: int
  cgOutboundControlQueuePackets :: int
  cgMaxPendingChallenges :: int
  cgMaxCompletedTransactions :: int
  cgMaxCompletedTransactionsPerSession :: int
  cgMaxPendingNotifications :: int
  cgMaxPendingNotificationsPerClient :: int
  cgRecentEvents :: int

record Timers =
  cgKeepaliveInterval :: duration
  cgSessionTimeout :: duration
  cgGrantTimeout :: duration
  cgStreamInactivityTimeout :: duration
  cgTransmitTimeLimit :: duration
  cgHealthDeadline :: duration
  cgShutdownGrace :: duration

record Authentication =
  cgSharedKeyEnv :: string
  cgSharedKeyFile :: string

record Monitoring =
  cgHTTPListen :: string

record Logging =
  cgLevel :: string
  cgFormat :: string

record Config =
  cgNetwork :: ConfigNetwork
  cgReflector :: ConfigReflector
  cgLimits :: ConfigLimits
  cgTimers :: Timers
  cgAuthentication :: Authentication
  cgMonitoring :: Monitoring
  cgLogging :: Logging

datatype config_error = ConfigError string | SystemError string

text \<open>What \<^verbatim>\<open>os.Stat\<close> says of a file: whether it is regular, and its permission bits.\<close>

record file_info =
  fiRegular :: bool
  fiPerm :: u32

record operating_system =
  osFile :: "string \<Rightarrow> config_error + bytes"
  osStat :: "string \<Rightarrow> config_error + file_info"
  osGetenv :: "string \<Rightarrow> string"
  osUDPAddr :: "string \<Rightarrow> bool"
  osTCPAddr :: "string \<Rightarrow> bool"
  osUnicode :: "string \<Rightarrow> string"

type_synonym yaml_decoder = "bytes \<Rightarrow> Config \<Rightarrow> config_error + Config"

section \<open>Loading\<close>

definition Defaults :: Config where
  "Defaults = \<lparr>
     cgNetwork = \<lparr>cgUDPListen = '':46000''\<rparr>,
     cgReflector = \<lparr>cgID = [], cgDisplayName = []\<rparr>,
     cgLimits = \<lparr>cgMaxClients = 100, cgMaxDatagramBytes = 1200, cgInboundQueuePackets = 256,
       cgOutboundMediaQueueFrames = 256, cgOutboundControlQueuePackets = 64, cgMaxPendingChallenges = 100,
       cgMaxCompletedTransactions = 1024, cgMaxCompletedTransactionsPerSession = 64,
       cgMaxPendingNotifications = 200, cgMaxPendingNotificationsPerClient = 2, cgRecentEvents = 256\<rparr>,
     cgTimers = \<lparr>cgKeepaliveInterval = 10 * Second, cgSessionTimeout = 30 * Second, cgGrantTimeout = 2 * Second,
       cgStreamInactivityTimeout = Second, cgTransmitTimeLimit = 180 * Second,
       cgHealthDeadline = 250 * Millisecond, cgShutdownGrace = 5 * Second\<rparr>,
     cgAuthentication = \<lparr>cgSharedKeyEnv = ''OPUSREF_SHARED_KEY'', cgSharedKeyFile = []\<rparr>,
     cgMonitoring = \<lparr>cgHTTPListen = ''127.0.0.1:8080''\<rparr>,
     cgLogging = \<lparr>cgLevel = ''info'', cgFormat = ''json''\<rparr>\<rparr>"

text \<open>The two loops of \<^verbatim>\<open>Load\<close> and the conditions between them, as far as they concern numbers.\<close>

definition capacities :: "ConfigLimits \<Rightarrow> int list" where
  "capacities l = [cgMaxClients l, cgInboundQueuePackets l, cgOutboundMediaQueueFrames l, cgOutboundControlQueuePackets l,
     cgMaxPendingChallenges l, cgMaxCompletedTransactions l, cgMaxCompletedTransactionsPerSession l,
     cgMaxPendingNotifications l, cgMaxPendingNotificationsPerClient l, cgRecentEvents l]"

definition timers :: "Timers \<Rightarrow> duration list" where
  "timers t = [cgKeepaliveInterval t, cgSessionTimeout t, cgGrantTimeout t, cgStreamInactivityTimeout t,
     cgTransmitTimeLimit t, cgHealthDeadline t, cgShutdownGrace t]"

definition check_numbers :: "Config \<Rightarrow> string option" where
  "check_numbers cfg =
     (let l = cgLimits cfg; t = cgTimers cfg in
      if list_ex (\<lambda>v. v \<le> 0) (capacities l) then Some ''all capacity limits must be positive''
      else if cgMaxCompletedTransactionsPerSession l > cgMaxCompletedTransactions l \<or>
              cgMaxPendingNotificationsPerClient l > cgMaxPendingNotifications l
      then Some ''a per-client limit exceeds its global limit''
      else if list_ex (\<lambda>v. v \<le> 0) (timers t) then Some ''all timers must be positive''
      else if cgKeepaliveInterval t \<ge> cgSessionTimeout t then Some ''keepalive interval must be less than session timeout''
      else None)"

definition check_logging :: "Logging \<Rightarrow> string option" where
  "check_logging l =
     (if cgLevel l \<notin> set [''debug'', ''info'', ''warn'', ''error''] then Some ''logging level is invalid''
      else if cgFormat l \<notin> set [''json'', ''text''] then Some ''logging format is invalid''
      else None)"

definition check_identity :: "operating_system \<Rightarrow> Config \<Rightarrow> string option" where
  "check_identity os cfg =
     (let r = cgReflector cfg in
      if cgUDPListen (cgNetwork cfg) = [] \<or> cgID r = [] \<or> cgDisplayName r = []
      then Some ''network and reflector identity are required''
      else if isl (ReflectorID (osUnicode os) (cgID r)) then Some ''identifier''
      else if length (cgDisplayName r) > 64 \<or> \<not> utf8_valid (bytes_of (cgDisplayName r))
      then Some ''reflector display name is invalid''
      else if cgMaxDatagramBytes (cgLimits cfg) < 32 \<or> cgMaxDatagramBytes (cgLimits cfg) > 1200
      then Some ''max datagram bytes must be 32 through 1200''
      else if \<not> osUDPAddr os (cgUDPListen (cgNetwork cfg)) then Some ''invalid UDP address''
      else if cgHTTPListen (cgMonitoring cfg) \<noteq> [] \<and> \<not> osTCPAddr os (cgHTTPListen (cgMonitoring cfg))
      then Some ''invalid monitoring address''
      else None)"

definition Load :: "operating_system \<Rightarrow> yaml_decoder \<Rightarrow> string \<Rightarrow> config_error + Config" where
  "Load os decode path =
     (case osFile os path of
        Inl err \<Rightarrow> Inl err
      | Inr data \<Rightarrow>
          (case decode data Defaults of
             Inl err \<Rightarrow> Inl err
           | Inr cfg \<Rightarrow>
               (case check_identity os cfg of
                  Some msg \<Rightarrow> Inl (ConfigError msg)
                | None \<Rightarrow>
                    (case check_numbers cfg of
                       Some msg \<Rightarrow> Inl (ConfigError msg)
                     | None \<Rightarrow>
                         (case check_logging (cgLogging cfg) of
                            Some msg \<Rightarrow> Inl (ConfigError msg)
                          | None \<Rightarrow> Inr cfg)))))"

section \<open>The shared key\<close>

definition validateKey :: "bytes \<Rightarrow> config_error + bytes" where
  "validateKey key =
     (if length key < 16 \<or> length key > 64 then Inl (ConfigError ''shared key length must be 16 through 64 bytes'')
      else Inr key)"

definition HasSuffix :: "bytes \<Rightarrow> bytes \<Rightarrow> bool" where
  "HasSuffix s suffix \<longleftrightarrow> length suffix \<le> length s \<and> drop (length s - length suffix) s = suffix"

definition ReadSharedKeyFile :: "operating_system \<Rightarrow> string \<Rightarrow> config_error + bytes" where
  "ReadSharedKeyFile os path =
     (case osFile os path of
        Inl err \<Rightarrow> Inl err
      | Inr content \<Rightarrow>
          let data = take 66 content in
          if length data > 65 then Inl (ConfigError ''shared key file is too large'')
          else if HasSuffix data [13, 10] then Inr (take (length data - 2) data)
          else if HasSuffix data [10] then Inr (take (length data - 1) data)
          else Inr data)"

definition key_file :: "operating_system \<Rightarrow> string \<Rightarrow> config_error + bytes" where
  "key_file os path =
     (case osStat os path of
        Inl err \<Rightarrow> Inl err
      | Inr info \<Rightarrow>
          if \<not> fiRegular info \<or> fiPerm info AND 0x3F \<noteq> 0
          then Inl (ConfigError ''shared key file must be regular and accessible only by its owner'')
          else case ReadSharedKeyFile os path of
            Inl err \<Rightarrow> Inl err
          | Inr data \<Rightarrow> validateKey data)"

text \<open>\<^verbatim>\<open>SharedKey\<close>: no key is the empty one.\<close>

definition SharedKey :: "operating_system \<Rightarrow> Config \<Rightarrow> config_error + bytes" where
  "SharedKey os c =
     (let a = cgAuthentication c in
      if cgSharedKeyEnv a \<noteq> [] \<and> osGetenv os (cgSharedKeyEnv a) \<noteq> []
      then validateKey (bytes_of (osGetenv os (cgSharedKeyEnv a)))
      else if cgSharedKeyFile a = [] then Inr []
      else key_file os (cgSharedKeyFile a))"

section \<open>What an accepted configuration satisfies\<close>

lemma check_numbers_None:
  assumes "check_numbers cfg = None"
  shows "\<forall>v \<in> set (capacities (cgLimits cfg)). v > 0" and "\<forall>v \<in> set (timers (cgTimers cfg)). v > 0"
    and "cgMaxCompletedTransactionsPerSession (cgLimits cfg) \<le> cgMaxCompletedTransactions (cgLimits cfg)"
    and "cgMaxPendingNotificationsPerClient (cgLimits cfg) \<le> cgMaxPendingNotifications (cgLimits cfg)"
    and "cgKeepaliveInterval (cgTimers cfg) < cgSessionTimeout (cgTimers cfg)"
  using assms by (auto simp: check_numbers_def Let_def list_ex_iff not_le split: if_splits)

lemma check_identity_None:
  assumes "check_identity os cfg = None"
  shows "\<exists>i. ReflectorID (osUnicode os) (cgID (cgReflector cfg)) = Inr i"
    and "cgDisplayName (cgReflector cfg) \<noteq> []" "length (cgDisplayName (cgReflector cfg)) \<le> 64"
    and "utf8_valid (bytes_of (cgDisplayName (cgReflector cfg)))"
    and "32 \<le> cgMaxDatagramBytes (cgLimits cfg)" "cgMaxDatagramBytes (cgLimits cfg) \<le> 1200"
  using assms
  by (cases "ReflectorID (osUnicode os) (cgID (cgReflector cfg))"; auto simp: check_identity_def Let_def not_less split: if_splits)+

lemma Load_checks:
  "Load os decode path = Inr cfg \<Longrightarrow> check_identity os cfg = None \<and> check_numbers cfg = None \<and> check_logging (cgLogging cfg) = None"
  by (auto simp: Load_def split: sum.splits option.splits)

lemma SharedKey_length: "SharedKey os c = Inr key \<Longrightarrow> key = [] \<or> 16 \<le> length key \<and> length key \<le> 64"
  by (auto simp: SharedKey_def key_file_def validateKey_def Let_def split: sum.splits if_splits)

text \<open>A key file with a line end gives the key of the same file without it.\<close>

lemma key_file_line_end:
  assumes "osFile os path = Inr (key @ e)" and "e \<in> {[], [10], [13, 10]}" and "length (key @ e) \<le> 65"
    and "key = [] \<or> last key \<notin> {10, 13}"
  shows "ReadSharedKeyFile os path = Inr key"
proof -
  have no: "\<not> HasSuffix key [10]" "\<not> HasSuffix key [13, 10]" "\<not> HasSuffix (key @ [10]) [13, 10]"
    using assms(4) by (cases key rule: rev_cases; auto simp: HasSuffix_def)+
  have yes: "HasSuffix (key @ [10]) [10]" "HasSuffix (key @ [13, 10]) [13, 10]" by (simp_all add: HasSuffix_def)
  show ?thesis using assms(1-3) no yes by (auto simp: ReadSharedKeyFile_def Let_def)
qed

end
