(* ===== verification/Commands.thy ===== *)
theory Commands
  imports Config Monitor Reflector QueueClient DiagRecord
begin

text \<open>
  The two programs. \<^verbatim>\<open>cmd/opusrefd/main.go\<close>: the options that the daemon makes of its
  configuration, one tick of its monitoring goroutine, its health check, its logger and the way it
  waits for its end. \<^verbatim>\<open>cmd/opusrefctl/main.go\<close>: the checks of the arguments, the shared key, and the
  loops of \<^verbatim>\<open>listen\<close> and \<^verbatim>\<open>transmit\<close>.

  The signals and the HTTP server are what the run answers; a select is modelled by the case that
  fires. The flags and the composition of these functions are in \<open>ControlProgram\<close> and \<open>Daemon\<close>.
\<close>

section \<open>The daemon\<close>

text \<open>The options that \<^verbatim>\<open>run\<close> hands to \<^verbatim>\<open>NewReflector\<close>.\<close>

definition reflector_options :: "Config \<Rightarrow> bytes \<Rightarrow> ReflectorOptions" where
  "reflector_options cfg key =
     (let l = cgLimits cfg; t = cgTimers cfg in
      \<lparr>oID = cgID (cgReflector cfg), oDisplayName = cgDisplayName (cgReflector cfg), oSharedKey = key,
       oLimits = \<lparr>MaxClients = cgMaxClients l, MaxCompletedTransactions = cgMaxCompletedTransactions l,
         SessionTimeout = cgSessionTimeout t, GrantTimeout = cgGrantTimeout t,
         MediaTimeout = cgStreamInactivityTimeout t, TransmitTimeLimit = cgTransmitTimeLimit t\<rparr>,
       oInboundQueuePackets = cgInboundQueuePackets l,
       oOutboundControlQueuePackets = cgOutboundControlQueuePackets l,
       oOutboundMediaQueueFrames = cgOutboundMediaQueueFrames l,
       oMaxPendingChallenges = cgMaxPendingChallenges l,
       oMaxPendingNotifications = cgMaxPendingNotifications l,
       oMaxPendingNotificationsPerClient = cgMaxPendingNotificationsPerClient l,
       oMaxCompletedTransactionsPerSession = cgMaxCompletedTransactionsPerSession l,
       oMaxDatagramBytes = cgMaxDatagramBytes l,
       oShutdownGrace = cgShutdownGrace t\<rparr>)"

definition health :: "Reflector \<Rightarrow> time \<Rightarrow> duration \<Rightarrow> bool" where
  "health r instant deadline \<longleftrightarrow> Sub instant (rsUpdated (Reflector_Snapshot r)) \<le> deadline"

datatype start_error = StartConfig config_error | StartKey config_error | StartBind | StartReflector string

text \<open>\<^verbatim>\<open>run\<close> up to the reflector and its registry; \<open>bound\<close> is whether the socket could be opened.\<close>

definition daemon_start :: "operating_system \<Rightarrow> yaml_decoder \<Rightarrow> string \<Rightarrow> bool \<Rightarrow> (nat \<Rightarrow> time) \<Rightarrow> bytes \<Rightarrow> time
    \<Rightarrow> start_error + (Reflector \<times> Registry)" where
  "daemon_start os decode path bound clk rnd instant =
     (case Load os decode path of
        Inl err \<Rightarrow> Inl (StartConfig err)
      | Inr cfg \<Rightarrow>
          (case SharedKey os cfg of
             Inl err \<Rightarrow> Inl (StartKey err)
           | Inr key \<Rightarrow>
               if \<not> bound then Inl StartBind
               else case NewReflector (reflector_options cfg key) clk rnd (osUnicode os) of
                 Inl err \<Rightarrow> Inl (StartReflector err)
               | Inr r \<Rightarrow>
                   let registry = Registry_New (cgRecentEvents (cgLimits cfg)) (cgHealthDeadline (cgTimers cfg)) instant instant;
                       s = zeroSnapshot\<lparr>moReflectorID := cgID (cgReflector cfg)\<rparr> in
                   Inr (r, Registry_Publish instant s registry)))"

text \<open>One tick of the monitoring goroutine: the new values of its two counters, and the registry.\<close>

definition AddEvent :: "time \<Rightarrow> MonitorEvent \<Rightarrow> Registry \<Rightarrow> Registry" where
  "AddEvent instant ev r = (let (ev, r) = stamp_event instant ev r in append_event ev r)"

definition monitor_clients :: "ClientView list \<Rightarrow> ClientSnapshot list" where
  "monitor_clients = map (\<lambda>c. \<lparr>mcNodeCallsign = cvNodeCallsign c, mcRemoteAddress = cvRemoteAddress c,
     mcSessionID = cvSessionID c, mcConnectedAt = cvConnectedAt c, mcLastActivity = cvLastActivity c\<rparr>)"

definition monitor_stream :: "FloorSnapshot \<Rightarrow> StreamSnapshot" where
  "monitor_stream f = \<lparr>msActive = fsActive f, msSessionID = fsSessionID f, msStreamID = fsStreamID f,
     msNodeCallsign = fsNodeCallsign f, msSourceCallsign = fsSourceCallsign f, msStartedAt = fsStartedAt f,
     msLastFrameAt = fsLastFrameAt f, msRemaining = fsRemaining f\<rparr>"

definition monitoring_tick :: "string \<Rightarrow> time \<Rightarrow> time \<Rightarrow> RuntimeSnapshot \<Rightarrow> u64 \<times> u64 \<Rightarrow> Registry \<Rightarrow> (u64 \<times> u64) \<times> Registry" where
  "monitoring_tick reflector instant later s prior r =
     (let (priorInbound, priorGaps) = prior;
          (priorInbound, r) =
            (if rsInboundDrops s > priorInbound then
               let dropped = rsInboundDrops s - priorInbound;
                   r = snd (Registry_Add ''opusref_queue_drops_total''
                         [(''queue'', ''server_inbound''), (''item_type'', ''datagram'')] dropped r) in
               (rsInboundDrops s,
                AddEvent instant \<lparr>meID = 0, meTime = 0, meType = ''queue_drop'', meSeverity = ''warn'',
                  meDetails = [(''queue'', DetailText ''server_inbound''), (''item_type'', DetailText ''datagram''),
                    (''frame_count'', DetailNumber dropped), (''recipient_count'', DetailNumber 0)]\<rparr> r)
             else (priorInbound, r));
          (priorGaps, r) =
            (if rsSequenceGaps s > priorGaps then
               (rsSequenceGaps s,
                snd (Registry_Add ''opusref_sequence_gaps_total'' [(''direction'', ''rx'')] (rsSequenceGaps s - priorGaps) r))
             else (priorGaps, r));
          clients = monitor_clients (rsClients s) in
      ((priorInbound, priorGaps),
       Registry_Publish later (zeroSnapshot\<lparr>moReady := rsReady s, moReflectorID := reflector, moClients := length clients,
         moClientList := clients, moStream := monitor_stream (rsFloor s)\<rparr>) r))"

datatype log_level = LevelDebug | LevelInfo | LevelWarn | LevelError
datatype log_handler = TextHandler log_level | JSONHandler log_level

definition newLogger :: "Logging \<Rightarrow> log_handler" where
  "newLogger l =
     (let level = (if cgLevel l = ''debug'' then LevelDebug else if cgLevel l = ''warn'' then LevelWarn
                   else if cgLevel l = ''error'' then LevelError else LevelInfo) in
      if cgFormat l = ''text'' then TextHandler level else JSONHandler level)"

text \<open>
  \<^verbatim>\<open>waitForTermination\<close>: which case of its select fires, the error that \<^verbatim>\<open>Run\<close> returns in the end,
  and the answer: the error, and whether the run was stopped by this function. \<^term>\<open>None\<close> is nil.
\<close>

datatype exit_error = ErrServerClosed | ExitError string
datatype wake = WakeSignal | WakeHTTP "exit_error option" | WakeRun

definition waitForTermination :: "wake \<Rightarrow> exit_error option \<Rightarrow> exit_error option \<times> bool" where
  "waitForTermination w run_err = (case w of
       WakeSignal \<Rightarrow> (run_err, False)
     | WakeHTTP err \<Rightarrow> if err \<noteq> None \<and> err \<noteq> Some ErrServerClosed then (err, True) else (run_err, True)
     | WakeRun \<Rightarrow> (run_err, True))"

text \<open>The end of \<^verbatim>\<open>run\<close>: what the process reports.\<close>

definition exit_status :: "wake \<Rightarrow> exit_error option \<Rightarrow> exit_error option" where
  "exit_status w run_err =
     (let err = fst (waitForTermination w run_err) in
      if err \<noteq> None \<and> err \<noteq> Some ErrServerClosed then err else None)"

section \<open>The diagnostic client\<close>

record common =
  coServer :: string
  coNode :: string
  coKeyEnv :: string
  coKeyFile :: string
  coConnectTimeout :: duration
  coOperationTimeout :: duration

datatype ctl_error =
    Usage string
  | KeyError config_error
  | KeyLength
  | KeyPermissions
  | RecordError record_error
  | ClientError client_error

text \<open>The checks of \<^verbatim>\<open>run\<close> after the flags are parsed: whether the command is \<^verbatim>\<open>transmit\<close>.\<close>

definition check_command :: "string \<Rightarrow> common \<Rightarrow> string \<Rightarrow> ctl_error + bool" where
  "check_command cmd c source =
     (if coServer c = [] \<or> coNode c = [] then Inl (Usage ''--server and --node are required'')
      else if cmd = ''transmit'' \<and> source = [] then Inl (Usage ''--source is required'')
      else if cmd \<noteq> ''listen'' \<and> cmd \<noteq> ''transmit'' then Inl (Usage ''use listen or transmit'')
      else Inr (cmd = ''transmit''))"

definition readKey :: "operating_system \<Rightarrow> common \<Rightarrow> ctl_error + string" where
  "readKey os c =
     (if coKeyEnv c \<noteq> [] \<and> osGetenv os (coKeyEnv c) \<noteq> [] then
        let key = osGetenv os (coKeyEnv c) in
        if length key < 16 \<or> length key > 64 then Inl KeyLength else Inr key
      else if coKeyFile c = [] then Inr []
      else case osStat os (coKeyFile c) of
        Inl err \<Rightarrow> Inl (KeyError err)
      | Inr info \<Rightarrow>
          if \<not> fiRegular info \<or> fiPerm info AND 0x3F \<noteq> 0 then Inl KeyPermissions
          else case ReadSharedKeyFile os (coKeyFile c) of
            Inl err \<Rightarrow> Inl (KeyError err)
          | Inr data \<Rightarrow>
              let key = string_of data in
              if length key < 16 \<or> length key > 64 then Inl KeyLength else Inr key)"

text \<open>
  \<^verbatim>\<open>listen\<close>: what its select answers, one item for each round, and the bytes it has written to an
  output that accepts everything. The script may end before the loop returns, which is \<open>Listening\<close>.
\<close>

datatype listen_wake = ListenStop | ListenDone "client_error option" | ListenEvent Event

datatype listen_result = Listening | ListenReturned "ctl_error option"

definition event_record :: "Event \<Rightarrow> Record option" where
  "event_record ev = (case ceKind ev of
       EventAudio \<Rightarrow> Some \<lparr>rKind = KindAudio, rDataType = 0, rTimestamp = ceTimestamp ev, rPayload = cePayload ev\<rparr>
     | EventData \<Rightarrow> Some \<lparr>rKind = KindData, rDataType = ceDataType ev, rTimestamp = ceTimestamp ev, rPayload = cePayload ev\<rparr>
     | _ \<Rightarrow> None)"

fun listen :: "listen_wake list \<Rightarrow> bytes \<Rightarrow> (listen_result \<times> bytes) option" where
  "listen [] out = Some (Listening, out)"
| "listen (ListenStop # ws) out = Some (ListenReturned None, out)"
| "listen (ListenDone err # ws) out = Some (ListenReturned (map_option ClientError err), out)"
| "listen (ListenEvent ev # ws) out =
     (case event_record ev of
        None \<Rightarrow> listen ws out
      | Some rec \<Rightarrow>
          (case Write rec of
             None \<Rightarrow> None
           | Some (Inl err) \<Rightarrow> Some (ListenReturned (Some (RecordError err)), out)
           | Some (Inr bs) \<Rightarrow> listen ws (out @ bs)))"

text \<open>
  \<^verbatim>\<open>transmit\<close>: the loop of \<^verbatim>\<open>run\<close> after the stream was granted. The calls of the client are logged in
  order; \<open>answer n\<close> is the error of the \<open>n\<close>-th of them, and \<open>stop n\<close> says whether the select before
  it takes the signal that stops the program.
\<close>

datatype client_call = DoSendAudio u32 bytes | DoSendData u32 u16 bytes | DoEndStream

lemma Read_shorter: "Read src = Some (Inr rec, rest) \<Longrightarrow> length rest < length src"
  using Read_accepts [of src rec rest] by (auto simp: record_header_def raw_header_def)

function transmit :: "(nat \<Rightarrow> bool) \<Rightarrow> (nat \<Rightarrow> client_error option) \<Rightarrow> bytes \<Rightarrow> client_call list \<Rightarrow> (client_call list \<times> ctl_error option) option" where
  "transmit stop answer src calls =
     (if stop (length calls) then Some (calls, None)
      else case Read src of
        None \<Rightarrow> None
      | Some (Inl err, _) \<Rightarrow>
          if is_EOF err then Some (calls @ [DoEndStream], map_option ClientError (answer (length calls)))
          else Some (calls, Some (RecordError err))
      | Some (Inr rec, rest) \<Rightarrow>
          let call = (if rKind rec = KindAudio then DoSendAudio (rTimestamp rec) (rPayload rec)
                      else DoSendData (rTimestamp rec) (rDataType rec) (rPayload rec)) in
          case answer (length calls) of
            Some err \<Rightarrow> Some (calls @ [call], Some (ClientError err))
          | None \<Rightarrow> transmit stop answer rest (calls @ [call]))"
  by auto

termination
  by (relation "measure (\<lambda>(stop, answer, src, calls). length src)") (auto intro: Read_shorter)

declare transmit.simps [simp del]

end
