(* ===== verification/Agreement.thy ===== *)
theory Agreement
  imports ReflectorTotal QueueClientLaws UdpClient EngineProps Commands
begin

text \<open>
  The two ends together: what the UDP client makes of an answer of the reflector, and what the
  reflector makes of what the client then sends.
\<close>

section \<open>Over the wire\<close>

text \<open>The packet that arrives when a packet is encoded, sent and decoded.\<close>

definition transmitted :: "Packet \<Rightarrow> Packet option" where
  "transmitted p = accepted (Encode p) \<bind> (\<lambda>d. accepted (Decode d))"

lemma transmitted_Some: "transmitted p = Some q \<longleftrightarrow> wf_packet p \<and> q = with_lengths p"
proof (cases "wf_packet p")
  case True
  then have "Encode p = ok (layout p)" "Decode (layout p) = ok (with_lengths p)"
    by (simp_all add: Encode_ok_iff Decode_layout with_lengths_def)
  with True show ?thesis by (auto simp: transmitted_def accepted_def)
next
  case False
  then have "accepted (Encode p) = None"
    by (cases "accepted (Encode p)") (simp_all only: accepted_Some Encode_ok_iff, simp_all)
  with False show ?thesis by (simp add: transmitted_def)
qed

lemma with_lengths_fields [simp]:
  "Find (with_lengths p) typ = Find p typ" "found (with_lengths p) typ = found p typ"
  "value_of (with_lengths p) typ = value_of p typ"
  by (simp_all add: with_lengths_def Find_def found_def value_of_def)

section \<open>Extensions of the packets of the handshake\<close>

lemma hello_fields [simp]:
  "found (hello_packet ident node nonce) TLVTransactionID = PutUint64 ident"
  "found (hello_packet ident node nonce) TLVNodeCallsign = node"
  "found (hello_packet ident node nonce) TLVClientNonce = nonce"
  by (simp_all add: hello_packet_def client_packet_def found_def Find_def Uint64TLV_def tlv_def baseTLV_def)

lemma authenticate_fields [simp]:
  "found (authenticate_packet key ident node nonce c) TLVTransactionID = PutUint64 ident"
  "found (authenticate_packet key ident node nonce c) TLVClientNonce = nonce"
  "found (authenticate_packet key ident node nonce c) TLVServerNonce = value_of c TLVServerNonce"
  "Find (authenticate_packet key ident node nonce c) TLVAuthenticationTag =
     (if key \<noteq> [] then Some (client_tag key node nonce (value_of c TLVServerNonce) (value_of c TLVReflectorID)) else None)"
  by (simp_all add: authenticate_packet_def client_packet_def found_def Find_def Uint64TLV_def tlv_def baseTLV_def Let_def)

text \<open>What \<^verbatim>\<open>hello\<close> answers, and the challenge that it stores.\<close>

lemma hello_answer:
  assumes "hello a p r = (reply, r')" and "reply \<noteq> zeroPacket"
  obtains c where "map_of (challenges r') (a @ string_of (found p TLVTransactionID)) = Some c"
    and "cNode c = TrimSpace (string_of (found p TLVNodeCallsign))" and "cClient c = found p TLVClientNonce"
    and "value_of reply TLVServerNonce = cServer c"
    and "value_of reply TLVReflectorID = identifier_or_nil (ReflectorID (unicode r') (oID (options r')))"
proof -
  obtain b r1 where b: "ReadRandom 32 r = (b, r1)" by force
  obtain server where b': "b = Some server"
    using assms by (cases b) (auto simp: hello_def Let_def b split: if_splits)
  from assms show thesis
    by (intro that [of "\<lparr>cNode = TrimSpace (string_of (found p TLVNodeCallsign)), cClient = found p TLVClientNonce,
        cServer = server, cAt = clock (engine r1) (readings (engine r1))\<rparr>"])
      (auto simp: hello_def Let_def b b' Clock_eq value_of_def Find_def tlv_def baseTLV_def map_simps split: if_splits)
qed

text \<open>The callsign that the reflector signs is the one that the client sent.\<close>

lemma callsign_agrees:
  assumes "Callsign uni name = Inr node"
  shows "Callsign uni' (TrimSpace (string_of node)) = Inr node"
  using padded_identifier_valid [OF assms [unfolded Callsign_def]] unfolding Callsign_def
  by (rule padded_identifier_roundtrip)

lemma client_credentials:
  assumes "bytes_of key = oSharedKey (options r)" and "Callsign uni name = Inr node"
    and "map_of (challenges r) (a @ string_of (PutUint64 ident)) = Some c"
    and "cNode c = TrimSpace (string_of node)" and "cClient c = nonce" and "value_of reply TLVServerNonce = cServer c"
    and "value_of reply TLVReflectorID = identifier_or_nil (ReflectorID (unicode r) (oID (options r)))"
    and "Sub (clock (engine r) (readings (engine r))) (cAt c) \<le> 10 * Second"
  shows "credentials a (with_lengths (authenticate_packet key ident node nonce reply)) r c"
proof -
  have "key \<noteq> []" if "oSharedKey (options r) \<noteq> []" using assms(1) that by (auto simp: bytes_of_def)
  with assms callsign_agrees [OF assms(2), of "unicode r"] show ?thesis
    by (auto simp: credentials_def auth_message_def client_tag_def identifier_or_nil_def)
qed

text \<open>With credentials and room for a session, \<^verbatim>\<open>authenticate\<close> goes on to admit the client.\<close>

lemma authenticate_checked:
  assumes "credentials a p r c" and "int (length (sessions (engine r))) < MaxClients (limits (engine r))"
  shows "\<exists>n. authenticate a p r = admit a (a @ string_of (found p TLVTransactionID)) (cNode c)
    (found p TLVTransactionID) (r\<lparr>engine := (engine r)\<lparr>readings := n\<rparr>\<rparr>)"
proof -
  let ?r = "r\<lparr>engine := (engine r)\<lparr>readings := Suc (readings (engine r))\<rparr>\<rparr>"
  obtain n where sn: "EngineSnapshot ?r = (fst (Snapshot (engine ?r)), r\<lparr>engine := (engine r)\<lparr>readings := n\<rparr>\<rparr>)"
    using EngineSnapshot_eq [of ?r] by auto
  have "snSessions (fst (Snapshot (engine ?r))) = length (sessions (engine r))"
    by (simp add: Snapshot_def Let_def split: option.split prod.split)
  then show ?thesis
    using assms by (auto simp: authenticate_def Let_def Clock_eq credentials_def auth_message_clock sn)
qed

text \<open>With a usable identifier next in the random source, \<^verbatim>\<open>admit\<close> makes a session of it at the first draw.\<close>

lemma admit_block:
  assumes "random r = b @ rest" and "length b = 8" and "get_be b = sid" and "sid \<noteq> 0"
    and "map_of (sessions (engine r)) sid = None" and "\<not> draining (engine r)"
    and "int (length (sessions (engine r))) < MaxClients (limits (engine r))"
  shows "\<exists>r'. admit a key node t r = (welcome_packet sid t r, r') \<and> same_core (with_session sid a key node r) r'"
proof -
  have rd: "ReadRandom 8 r = (Some b, r\<lparr>random := rest\<rparr>)" using assms(1,2) by (simp add: ReadRandom_def ReadFull_append)
  obtain e where e: "AddSession sid a node False (engine r) = (True, e)"
    using assms(4-7) by (auto simp: AddSession_def now_def)
  show ?thesis
    using assms(4) e
    by (simp add: admit.simps [of a key node t r] rd assms(3) Let_def Clock_eq same_core_def with_session_def
      welcome_packet_def new_peer_def auth_metric_def metric_def event_def)
qed

text \<open>A client that is admitted: its session, its place among the peers, and the challenge used up.\<close>

definition admitted :: "u64 \<Rightarrow> addr \<Rightarrow> string \<Rightarrow> string \<Rightarrow> Reflector \<Rightarrow> bool" where
  "admitted sid a key node r \<longleftrightarrow>
     (\<exists>q. map_of (peers r) sid = Some q \<and> peId q = sid \<and> peAddress q = a \<and> peNode q = node) \<and>
     (\<exists>s. map_of (sessions (engine r)) sid = Some s \<and> sAddress s = a \<and> sCallsign s = node) \<and>
     map_of (challenges r) key = None"

lemma admitted_session:
  assumes "same_core (with_session sid a key node r) r'" and "fst (AddSession sid a node False (engine r))"
  shows "admitted sid a key node r'"
  using assms(1) AddSession_True [OF assms(2)]
  by (simp add: admitted_def same_core_def with_session_def new_peer_def Let_def map_simps)

section \<open>Keys\<close>

text \<open>The daemon and the diagnostic client read the same key from the same place.\<close>

lemma keys_agree:
  assumes "cgSharedKeyEnv (cgAuthentication cfg) = coKeyEnv c" and "cgSharedKeyFile (cgAuthentication cfg) = coKeyFile c"
  shows "SharedKey os cfg = Inr key \<longleftrightarrow> readKey os c = Inr (string_of key)"
proof -
  have same: "bytes_of s = key \<longleftrightarrow> s = string_of key" for s by (metis bytes_of_string_of string_of_bytes_of)
  have none: "[] = string_of key \<longleftrightarrow> key = []" by (metis string_of_eq_Nil)
  have inj: "string_of a = string_of b \<longleftrightarrow> a = b" for a b by (metis bytes_of_string_of)
  show ?thesis
  proof (cases "coKeyEnv c \<noteq> [] \<and> osGetenv os (coKeyEnv c) \<noteq> []")
    case True
    with assms(1) show ?thesis by (simp add: SharedKey_def readKey_def validateKey_def Let_def same)
  next
    case False
    then have env: "SharedKey os cfg = (if coKeyFile c = [] then Inr [] else key_file os (coKeyFile c))"
      using assms by (auto simp: SharedKey_def Let_def)
    from False show ?thesis
      unfolding env
      by (cases "ReadSharedKeyFile os (coKeyFile c)"; cases "osStat os (coKeyFile c)")
        (simp_all add: readKey_def key_file_def validateKey_def inj none split: if_split, auto)
  qed
qed

section \<open>A stream, from the client's queue to the engine's floor\<close>

text \<open>The floor of a granted stream of which \<open>k\<close> packets were accepted in order.\<close>

definition in_stream :: "u64 \<Rightarrow> string \<Rightarrow> u32 \<Rightarrow> nat \<Rightarrow> u32 \<Rightarrow> Engine \<Rightarrow> bool" where
  "in_stream sid address stream k ts e \<longleftrightarrow> \<not> draining e \<and> (\<forall>i. clock e i \<noteq> 0) \<and>
     (\<exists>s. map_of (sessions e) sid = Some s \<and> sAddress s = address) \<and>
     (\<exists>f. floor_of e = Some f \<and> fOwner f = sid \<and> fStream f = stream \<and>
        (if k = 0 then IsZero (fFirstMedia f) \<and> \<not> fHasPrior f
         else \<not> IsZero (fFirstMedia f) \<and> fHasPrior f \<and> fPrior f + 1 = word_of_nat k \<and> fTimestamp f = ts))"

lemma Media_next:
  assumes "in_stream sid address stream k ts e"
  shows "\<exists>fs e'. Media sid address stream (word_of_nat k) ts' payload e = (Inr fs, e') \<and>
    gaps e' = gaps e \<and> in_stream sid address stream (Suc k) ts' e'"
proof -
  from assms obtain s f where e: "\<not> draining e" "\<And>i. clock e i \<noteq> 0" "map_of (sessions e) sid = Some s" "sAddress s = address"
    "floor_of e = Some f" "fOwner f = sid" "fStream f = stream"
    and f: "if k = 0 then IsZero (fFirstMedia f) \<and> \<not> fHasPrior f
       else \<not> IsZero (fFirstMedia f) \<and> fHasPrior f \<and> fPrior f + 1 = word_of_nat k"
    by (auto simp: in_stream_def split: if_splits)
  have "check_sequence f (clock e (readings e)) (word_of_nat k) =
      Some (if k = 0 then clock e (readings e) else fFirstMedia f, 0)"
    using f by (simp add: check_sequence_def Let_def split: if_splits)
  with e f show ?thesis
    by (auto simp: Media_def now_def Let_def in_stream_def IsZero_def map_simps split: if_splits)
qed

lemma media_run_stream:
  assumes "in_stream sid address stream k ts e" and "map fst ms = map word_of_nat [k..<k + length ms]"
  shows "\<exists>e'. media_run sid address stream ms e = (length ms, e') \<and> gaps e' = gaps e \<and>
    in_stream sid address stream (k + length ms) (if ms = [] then ts else fst (snd (last ms))) e'"
  using assms
proof (induction ms arbitrary: k ts e)
  case (Cons m ms)
  obtain q ts' payload where m: "m = (q, ts', payload)" by (cases m)
  have "[k..<k + length (m # ms)] = k # [Suc k..<Suc k + length ms]" by (simp add: upt_conv_Cons del: upt_Suc)
  with Cons.prems(2) have q: "q = word_of_nat k" and ms: "map fst ms = map word_of_nat [Suc k..<Suc k + length ms]"
    by (simp_all add: m del: upt_Suc)
  from Media_next [OF Cons.prems(1)] obtain fs e1 where e1: "Media sid address stream q ts' payload e = (Inr fs, e1)"
    "gaps e1 = gaps e" "in_stream sid address stream (Suc k) ts' e1" unfolding q by blast
  from Cons.IH [OF e1(3) ms] e1(1,2) show ?case by (auto simp: m)
qed simp

lemma End_stream:
  assumes "in_stream sid address stream k ts e"
  shows "\<exists>x e'. End sid stream (word_of_nat k) (if k = 0 then 0 else ts) EndNormal e = (Inr (Some x), e') \<and>
    floor_of e' = None \<and> seStreamID x = stream \<and> seReason x = EndNormal \<and> seSequence x = word_of_nat k"
  using assms by (auto simp: in_stream_def End_def releaseLocked_eq released_def Let_def split: if_splits)

text \<open>What the engine is handed for a frame of the client.\<close>

definition offered :: "u64 \<Rightarrow> Outbound \<Rightarrow> u32 \<times> u32 \<times> bytes" where
  "offered sid out = (let p = media_packet out sid in (hSequence (pHeader p), hTimestamp (pHeader p), pPayload p))"

lemma offered_fields [simp]: "fst (offered sid out) = ouSequence out" "fst (snd (offered sid out)) = ouTimestamp out"
  by (simp_all add: offered_def media_packet_def Let_def)

section \<open>Packets that the other end accepts\<close>

definition server_accepts :: "AdmissionPhase \<Rightarrow> Packet \<Rightarrow> bool" where
  "server_accepts ph p \<longleftrightarrow> Validate p \<lparr>cDirection = ClientToServer, cPhase = ph\<rparr> = None"

lemma ucast_zero: "(ucast st :: u64) = 0 \<longleftrightarrow> st = 0" for st :: u32
  by transfer (simp add: take_bit_take_bit min_def)

lemmas validate_simps = Validate_def rules_def rule_def checkNumber_def invalid_def Let_def tlv_def Uint64TLV_def Uint16TLV_def
  bases_def baseTLV_def knownTLV_def zeroHeader_def client_packet_def with_retry_def ucast_zero

text \<open>The requests of the UDP client, each with the phase of the session in which it sends them.\<close>

definition client_requests :: "string \<Rightarrow> bytes \<Rightarrow> bytes \<Rightarrow> Packet \<Rightarrow> u64 \<Rightarrow> u64 \<Rightarrow> Outbound \<Rightarrow> bytes \<Rightarrow> (AdmissionPhase \<times> Packet) list" where
  "client_requests key node nonce challenge_reply ident sid out source =
     (let end_packet = client_packet PacketStreamEnd sid (ouStreamID out) [Uint64TLV TLVTransactionID ident] in
      [(PreAdmission, hello_packet ident node nonce),
       (PreAdmission, authenticate_packet key ident node nonce challenge_reply),
       (Connected, keepalive_packet sid ident), (Ready, keepalive_packet sid ident),
       (Ready, client_packet PacketStreamRequest sid (ouStreamID out) [Uint64TLV TLVTransactionID ident, tlv TLVSourceCallsign source]),
       (Ready, end_packet\<lparr>pHeader := (pHeader end_packet)\<lparr>hSequence := ouSequence out, hTimestamp := ouTimestamp out\<rparr>\<rparr>),
       (Ready, client_packet PacketDisconnect sid 0 [Uint64TLV TLVTransactionID ident])])"

lemma requests_accepted:
  assumes "sid \<noteq> 0" and "ouStreamID out \<noteq> 0"
  shows "list_all (\<lambda>(ph, p). server_accepts ph p \<and> server_accepts ph (with_retry p))
    (client_requests key node nonce challenge_reply ident sid out source)"
  using assms
  by (simp add: client_requests_def server_accepts_def hello_packet_def authenticate_packet_def keepalive_packet_def validate_simps)

lemma media_accepted:
  assumes "sid \<noteq> 0" and "ouStreamID out \<noteq> 0" and "ouPayload out \<noteq> []"
  shows "server_accepts Ready (media_packet out sid)"
  using assms by (simp add: server_accepts_def media_packet_def validate_simps)

text \<open>The acknowledgement of a notification that passed the client's own validation.\<close>

lemma ack_accepted:
  assumes "sid \<noteq> 0" and "Validate p \<lparr>cDirection = ServerToClient, cPhase = Ready\<rparr> = None"
    and "hType (pHeader p) \<in> {PacketStreamStart, PacketStreamRevoke, PacketDisconnect}"
  shows "server_accepts Ready (ack_packet p sid raw)"
proof -
  from assms(3) consider "hType (pHeader p) = PacketStreamStart" | "hType (pHeader p) = PacketStreamRevoke"
    | "hType (pHeader p) = PacketDisconnect" by blast
  then show ?thesis
    using assms(1,2) by cases (auto simp: server_accepts_def ack_packet_def validate_simps split: if_splits)
qed

lemma ack_fields:
  "Find (ack_packet p sid raw) TLVTransactionID = Some raw" "hType (pHeader (ack_packet p sid raw)) = hType (pHeader p)"
  "hFlags (pHeader (ack_packet p sid raw)) = FlagResponse" "hSessionID (pHeader (ack_packet p sid raw)) = sid"
  "hStreamID (pHeader (ack_packet p sid raw)) = hStreamID (pHeader p)"
  by (simp_all add: ack_packet_def Find_def tlv_def baseTLV_def)

end
