(* ===== verification/ServerPackets.thy ===== *)
theory ServerPackets
  imports Agreement
begin

text \<open>
  The packets that the reflector builds, seen by the client: what the UDP client demands of a datagram in
  each phase, and that every answer, error and notification of \<^verbatim>\<open>pkg/server/reflector.go\<close> meets it.
\<close>

section \<open>Datagrams that the client accepts\<close>

text \<open>
  The phases in which the UDP client validates a packet: \<^verbatim>\<open>exchange\<close> those of the handshake and the
  confirming keepalive, \<^verbatim>\<open>processLoop\<close> everything after it.
\<close>

definition client_phases :: "PacketType \<Rightarrow> AdmissionPhase list" where
  "client_phases typ = (if typ = PacketChallenge \<or> typ = PacketWelcome then [PreAdmission]
     else if typ = PacketKeepalive then [Connected, Ready] else [Ready])"

definition client_valid :: "Packet \<Rightarrow> bool" where
  "client_valid p \<longleftrightarrow>
     list_all (\<lambda>ph. Validate p \<lparr>cDirection = ServerToClient, cPhase = ph\<rparr> = None) (client_phases (hType (pHeader p)))"

definition client_reads :: "bytes \<Rightarrow> bool" where
  "client_reads d = (case accepted (Decode d) of None \<Rightarrow> False | Some p \<Rightarrow> client_valid p)"

lemma client_reads_iff: "client_reads d \<longleftrightarrow> (\<exists>p. Decode d = ok p \<and> client_valid p)"
  by (auto simp: client_reads_def split: option.split) (metis accepted_Some option.distinct(1))

lemma client_valid_with_lengths: "client_valid (with_lengths p) = client_valid p"
proof -
  have "rule_ok r (with_lengths p) c = rule_ok r p c" for r c by (simp add: rule_ok_def with_lengths_def Let_def)
  then have "(Validate (with_lengths p) c = None) = (Validate p c = None)" for c
    by (simp add: Validate_None_iff) (simp add: with_lengths_def)
  then show ?thesis by (simp add: client_valid_def) (simp add: with_lengths_def)
qed

lemma encoded_reads:
  assumes "Encode p = ok d" and "client_valid p"
  shows "client_reads d"
proof -
  from assms(1) have "wf_packet p" "d = layout p" by (simp_all add: Encode_ok_iff)
  then have "Decode d = ok (with_lengths p)" by (simp add: Decode_layout with_lengths_def)
  then show ?thesis using assms(2) by (auto simp: client_reads_iff client_valid_with_lengths)
qed

text \<open>A media packet that the reflector accepts of a client is one that a client accepts of it.\<close>

lemma media_reads:
  assumes "Decode d = ok p" and "Validate p \<lparr>cDirection = ClientToServer, cPhase = ph\<rparr> = None"
    and "hType (pHeader p) = PacketAudio \<or> hType (pHeader p) = PacketData"
  shows "client_reads d"
proof -
  obtain r where v: "hVersion (pHeader p) = Version1" "rules (hType (pHeader p)) = Some r"
    "rule_ok r p \<lparr>cDirection = ClientToServer, cPhase = ph\<rparr>" using assms(2) by (auto simp: Validate_None_iff)
  have r: "rDirections r AND dirS \<noteq> 0" "rPhases r = phaseReady"
    using assms(3) v(2) by (elim disjE; simp add: rules_def rule_def; auto)+
  have "rule_ok r p \<lparr>cDirection = ServerToClient, cPhase = Ready\<rparr>"
    using v(3) r assms(3) by (elim disjE; simp add: rule_ok_def Let_def)
  with v(1,2) assms(3) have "client_valid p"
    by (elim disjE; simp add: client_valid_def client_phases_def Validate_None_iff)
  with assms(1) show ?thesis by (auto simp: client_reads_iff)
qed

section \<open>Answers, errors and notifications\<close>

lemma error_valid: "client_valid (errorResponse p code)"
  by (simp add: client_valid_def client_phases_def errorResponse_def validate_simps split: option.split)

lemma challenge_valid:
  "client_valid \<lparr>pHeader = zeroHeader\<lparr>hVersion := 1, hType := PacketChallenge, hFlags := FlagResponse\<rparr>,
     pExtensions = [tlv TLVTransactionID t, tlv TLVServerNonce n, tlv TLVReflectorID i, tlv TLVDisplayName m], pPayload = []\<rparr>"
  by (simp add: client_valid_def client_phases_def validate_simps)

lemma welcome_valid:
  "sid \<noteq> 0 \<Longrightarrow> client_valid \<lparr>pHeader = zeroHeader\<lparr>hVersion := 1, hType := PacketWelcome, hFlags := FlagResponse, hSessionID := sid\<rparr>,
     pExtensions = [tlv TLVTransactionID t, tlv TLVReflectorID i, tlv TLVDisplayName m], pPayload = []\<rparr>"
  by (simp add: client_valid_def client_phases_def validate_simps)

text \<open>What the validation says of a request.\<close>

definition request_ok :: "Packet \<Rightarrow> bool" where
  "request_ok p \<longleftrightarrow> (let h = pHeader p; typ = hType h in
     hSessionID h \<noteq> 0 \<and> (typ \<in> {PacketStreamRequest, PacketStreamEnd} \<longrightarrow> hStreamID h \<noteq> 0) \<and>
     (typ \<in> {PacketKeepalive, PacketDisconnect} \<longrightarrow> hStreamID h = 0) \<and>
     (typ \<noteq> PacketStreamEnd \<longrightarrow> hSequence h = 0 \<and> hTimestamp h = 0))"

lemma validated_request:
  assumes "Validate p \<lparr>cDirection = ClientToServer, cPhase = ph\<rparr> = None"
    and "hType (pHeader p) \<in> {PacketKeepalive, PacketDisconnect, PacketStreamRequest, PacketStreamEnd}"
  shows "request_ok p"
  using assms
  by (auto simp: Validate_None_iff rules_def rule_def rule_ok_def request_ok_def Let_def checkNumber_def ucast_zero split: if_splits)

lemma answer_valid:
  assumes "request_ok p" and "hType (pHeader p) = typ" and "sid = hSessionID (pHeader p)"
  shows "typ = PacketKeepalive \<Longrightarrow> client_valid (response_packet typ sid p [tlv TLVTransactionID t])"
    "typ = PacketDisconnect \<Longrightarrow> client_valid (response_packet typ sid p [tlv TLVTransactionID t])"
    "typ = PacketStreamRequest \<Longrightarrow> client_valid (response_packet PacketStreamGrant sid p [tlv TLVTransactionID t, Uint32TLV TLVTransmitTimeLimit x])"
    "typ = PacketStreamRequest \<Longrightarrow> client_valid (response_packet PacketStreamBusy sid p [tlv TLVTransactionID t])"
    "typ = PacketStreamEnd \<Longrightarrow> client_valid (response_packet typ sid p [tlv TLVTransactionID t, Uint16TLV TLVEndReason y])"
  using assms
  by (auto simp: client_valid_def client_phases_def response_packet_def request_ok_def Uint32TLV_def validate_simps)

text \<open>A notification is sent again with the retry flag.\<close>

definition note_valid :: "Packet \<Rightarrow> bool" where
  "note_valid p \<longleftrightarrow> client_valid p \<and> client_valid (with_retry p)"

lemma note_valid_retry: "note_valid p \<Longrightarrow> note_valid (with_retry p)"
  by (simp add: note_valid_def with_retry_def or.assoc)

lemmas note_simps = note_valid_def client_valid_def client_phases_def Uint32TLV_def validate_simps

lemma revoke_valid: "seSessionID x \<noteq> 0 \<Longrightarrow> seStreamID x \<noteq> 0 \<Longrightarrow> note_valid (revoke_packet x i)"
  by (simp add: revoke_packet_def note_simps)

lemma disconnect_valid: "sid \<noteq> 0 \<Longrightarrow> note_valid (disconnect_packet sid i)"
  by (simp add: disconnect_packet_def note_simps)

lemma start_valid:
  "sid \<noteq> 0 \<Longrightarrow> st \<noteq> 0 \<Longrightarrow> note_valid \<lparr>pHeader = zeroHeader\<lparr>hVersion := 1, hType := PacketStreamStart, hSessionID := sid, hStreamID := st\<rparr>,
     pExtensions = [Uint64TLV TLVTransactionID i, tlv TLVNodeCallsign n, tlv TLVSourceCallsign m, Uint32TLV TLVTransmitTimeLimit l], pPayload = []\<rparr>"
  by (simp add: note_simps)

section \<open>The readers of the client\<close>

text \<open>What the two readers of the client do with such a datagram: neither throws it away for its form.\<close>

lemma exchange_passes:
  assumes "client_valid p" and "hType (pHeader p) = want" and "want \<in> {PacketChallenge, PacketWelcome, PacketKeepalive}"
  shows "exchange_accepts want t s p =
    (if want = PacketKeepalive \<and> hSessionID (pHeader p) \<noteq> usSession s then Some False
     else case Find p TLVTransactionID of None \<Rightarrow> Some False | Some raw \<Rightarrow> do { t' \<leftarrow> Uint64 raw; Some (t' = t) })"
  using assms by (auto simp: exchange_accepts_def client_valid_def client_phases_def)

lemma process_passes:
  assumes "Decode d = ok p" and "client_reads d" and "hType (pHeader p) \<notin> {PacketChallenge, PacketWelcome}"
  shows "process_data d s =
    (if hType (pHeader p) \<notin> set session_free \<and> hSessionID (pHeader p) \<noteq> usSession s then Some s
     else do { (taken, s) \<leftarrow> deliver_response p s; if taken then Some s else process_packet p s })"
proof -
  have "Validate p \<lparr>cDirection = ServerToClient, cPhase = Ready\<rparr> = None"
    using assms by (auto simp: client_reads_iff client_valid_def client_phases_def split: if_splits)
  with assms(1) show ?thesis by (simp add: process_data_def)
qed

end
