(* ===== verification/ReflectorSends.thy ===== *)
theory ReflectorSends
  imports ReflectorRun ServerPackets
begin

text \<open>
  What the reflector sends: along every run, each datagram in its queues is one that the client can read.
  The invariant adds what is needed for it: the answers that are kept for repeated requests, the pending
  notifications, and the numbers of the stream that holds the floor.
\<close>

section \<open>The invariant\<close>

definition floor_named :: "Engine \<Rightarrow> bool" where
  "floor_named e = pred_option (\<lambda>f. fOwner f \<noteq> 0 \<and> fStream f \<noteq> 0) (floor_of e)"

definition end_named :: "StreamEnd \<Rightarrow> bool" where
  "end_named x \<longleftrightarrow> seSessionID x \<noteq> 0 \<and> seStreamID x \<noteq> 0"

definition queued_ok :: "UDP \<Rightarrow> bool" where
  "queued_ok u \<longleftrightarrow> list_all (\<lambda>d. client_reads (dData d)) (ch_items (uControl u)) \<and>
     list_all (\<lambda>b. client_reads (mbData b)) (ch_items (uMedia u))"

text \<open>The queues, the answers that are kept for repeated requests, and the pending notifications.\<close>

definition sends_ok :: "Reflector \<Rightarrow> bool" where
  "sends_ok r \<longleftrightarrow> queued_ok (transport r) \<and> list_all (\<lambda>(_, c). client_reads (coResponse c)) (transactions r) \<and>
     list_all (\<lambda>(_, n). note_valid (noPacket n)) (pending r) \<and> list_all (\<lambda>(sid, _). sid \<noteq> 0) (peers r) \<and>
     floor_named (engine r)"

section \<open>A calculus for partial results\<close>

text \<open>
  A result that satisfies a predicate if there is one. One rule for sequences is enough; that there
  is a result, is proved elsewhere.
\<close>

lemma pred_bind:
  "pred_option P m \<Longrightarrow> (\<And>x. P x \<Longrightarrow> pred_option Q (f x)) \<Longrightarrow> pred_option Q (m \<bind> f)"
  by (cases m) simp_all

lemma pred_bind_any: "(\<And>x. m = Some x \<Longrightarrow> pred_option Q (f x)) \<Longrightarrow> pred_option Q (m \<bind> f)"
  by (cases m) simp_all

lemma pred_range_loop:
  assumes "\<And>k v s. P s \<Longrightarrow> map_of (m s) k = Some v \<Longrightarrow> pred_option P (f k v s)"
  shows "P s \<Longrightarrow> pred_option P (range_loop m f ks s)"
proof (induction ks arbitrary: s)
  case (Cons k ks)
  show ?case
    unfolding range_loop.simps
    by (rule pred_bind [where P = P]) (use Cons assms in \<open>auto split: option.split\<close>)
qed simp

abbreviation sends :: "Reflector option \<Rightarrow> bool" where
  "sends \<equiv> pred_option sends_ok"

abbreviation sends_with :: "('x \<times> Reflector) option \<Rightarrow> bool" where
  "sends_with \<equiv> pred_option (\<lambda>(_, r). sends_ok r)"

lemma list_all_update: "list_all P m \<Longrightarrow> P (k, v) \<Longrightarrow> list_all P (AList.update k v m)"
  by (induction m) auto

lemma list_all_delete: "list_all P m \<Longrightarrow> list_all P (AList.delete k m)"
  by (auto simp: AList.delete_eq list_all_iff)

lemma list_all_lookup: "list_all P m \<Longrightarrow> map_of m k = Some v \<Longrightarrow> P (k, v)"
  by (auto simp: list_all_iff dest: map_of_SomeD)

lemma list_all_filter: "list_all P m \<Longrightarrow> list_all P (filter Q m)"
  by (auto simp: list_all_iff)

lemmas entries = list_all_update list_all_delete list_all_filter

named_theorems send_simps \<open>what the operations do to the invariant of the sent datagrams\<close>

lemma sends_sinks [send_simps]:
  "sends_ok (metric n ls v r) = sends_ok r" "sends_ok (event typ sev ds r) = sends_ok r"
  "sends_ok (r\<lparr>snapshot := s\<rparr>) = sends_ok r" "sends_ok (r\<lparr>challenges := cs\<rparr>) = sends_ok r"
  "sends_ok (r\<lparr>random := b\<rparr>) = sends_ok r"
  "floor_of e = floor_of (engine r) \<Longrightarrow> sends_ok (r\<lparr>engine := e\<rparr>) = sends_ok r"
  by (simp_all add: sends_ok_def metric_def event_def floor_named_def)

lemma sends_reports [send_simps]:
  "sends_ok (queueDrop a b c d r) = sends_ok r" "sends_ok (traffic a t n r) = sends_ok r"
  "sends_ok (packet_error a r) = sends_ok r" "sends_ok (malformed_packet a r) = sends_ok r"
  "sends_ok (auth_metric a r) = sends_ok r" "sends_ok (authenticationFailure a r) = sends_ok r"
  "sends_ok (log_end x r) = sends_ok r"
  by (simp_all add: queueDrop_def traffic_def packet_error_def malformed_packet_def auth_metric_def authenticationFailure_def
      log_end_def Let_def send_simps)

lemma sends_reads [send_simps]:
  "sends_ok (snd (Clock r)) = sends_ok r" "sends_ok (snd (EngineSnapshot r)) = sends_ok r"
  "sends_ok (snd (ReadRandom n r)) = sends_ok r"
  using EngineSnapshot_eq [of r]
  by (auto simp: Clock_eq send_simps ReadRandom_def split: prod.split sum.split)

lemma sends_transactionID [send_simps]: "sends_ok (snd (transactionID r)) = sends_ok r"
  using same_core_transactionID [of r] by (simp add: same_core_def sends_ok_def)

lemma sends_core: "same_core r r' \<Longrightarrow> sends_ok r' = sends_ok r"
  by (simp add: same_core_def sends_ok_def)

lemma sends_set_peer [send_simps]: "sends_ok r \<Longrightarrow> sends_ok (set_peer sid f r)"
  by (auto simp: set_peer_def sends_ok_def intro!: list_all_update dest: list_all_lookup split: option.split)

lemma sends_pending_filter: "sends_ok r \<Longrightarrow> sends_ok (r\<lparr>pending := filter Q (pending r)\<rparr>)"
  by (simp add: sends_ok_def list_all_filter)

lemma sends_pending_delete: "sends_ok r \<Longrightarrow> sends_ok (r\<lparr>pending := AList.delete key (pending r)\<rparr>)"
  by (simp add: sends_ok_def list_all_delete)

lemma sends_pending_update: "sends_ok r \<Longrightarrow> note_valid (noPacket n) \<Longrightarrow> sends_ok (r\<lparr>pending := AList.update key n (pending r)\<rparr>)"
  by (simp add: sends_ok_def list_all_update)

lemma sends_transport: "sends_ok r \<Longrightarrow> queued_ok u \<Longrightarrow> sends_ok (r\<lparr>transport := u\<rparr>)"
  by (simp add: sends_ok_def)

lemma sends_queued: "sends_ok r \<Longrightarrow> queued_ok (transport r)"
  by (simp add: sends_ok_def)

lemma EnqueueControl_queued:
  "queued_ok u \<Longrightarrow> client_reads (dData d) \<Longrightarrow> queued_ok (snd (EnqueueControl d u))"
  by (simp add: EnqueueControl_eq queued_ok_def)

lemma EnqueueMedia_queued:
  "queued_ok u \<Longrightarrow> client_reads (mbData b) \<Longrightarrow> queued_ok (snd (EnqueueMedia b u))"
  by (auto simp: EnqueueMedia_def Let_def try_send_def queued_ok_def)

section \<open>The engine\<close>

lemma releaseLocked_named:
  assumes "floor_named e" and "releaseLocked sid reason e = (x, e')"
  shows "floor_named e'" "pred_option end_named x"
  using assms by (auto simp: releaseLocked_eq floor_named_def end_named_def released_def split: option.splits if_splits)

lemma Disconnect_named:
  assumes "floor_named e" and "Disconnect sid e = (x, e')"
  shows "floor_named e'" "pred_option end_named x"
  using releaseLocked_named [of "e\<lparr>sessions := AList.delete sid (sessions e)\<rparr>" sid EndOwnerDisconnect x e'] assms
  by (simp_all add: Disconnect_def floor_named_def)

lemma BeginShutdown_named:
  assumes "floor_named e" and "BeginShutdown e = (x, e')"
  shows "floor_named e'" "pred_option end_named x"
  using assms by (auto simp: BeginShutdown_def Let_def floor_named_def releaseLocked_eq end_named_def released_def split: option.splits if_splits)

lemma tick_sessions_named:
  "floor_named e \<Longrightarrow> tick_sessions t ss e = (x, e') \<Longrightarrow> floor_named e' \<and> pred_option end_named x"
proof (induction t ss e rule: tick_sessions.induct)
  case (2 t sid s rest e)
  let ?e = "e\<lparr>sessions := AList.delete sid (sessions e)\<rparr>"
  obtain y e1 where y: "releaseLocked sid EndOwnerDisconnect ?e = (y, e1)" by force
  have "floor_named ?e" using 2(3) by (simp add: floor_named_def)
  from releaseLocked_named [OF this y] have "floor_named e1" "pred_option end_named y" .
  with 2 y show ?case by (auto simp: Let_def split: if_splits option.splits)
qed simp

lemma tick_floor_named:
  assumes "floor_named e" and "tick_floor t e = (x, e')"
  shows "floor_named e'" "pred_option end_named x"
  using assms
  by (auto simp: tick_floor_def Let_def floor_named_def releaseLocked_eq end_named_def released_def split: option.splits if_splits)

lemma Tick_named:
  assumes "floor_named e" and "Tick e = (x, e')"
  shows "floor_named e'" "pred_option end_named x"
proof -
  obtain t e0 where n: "now e = (t, e0)" by force
  then have "floor_named e0" using assms(1) by (auto simp: now_def floor_named_def)
  obtain y e1 where y: "tick_sessions t (sessions e0) e0 = (y, e1)" by force
  from tick_sessions_named [OF \<open>floor_named e0\<close> y] have "floor_named e1" "pred_option end_named y" by simp_all
  with assms(2) n y tick_floor_named [of e1 t x e'] show "floor_named e'" "pred_option end_named x"
    by (auto simp: Tick_def split: option.splits)
qed

lemma End_named:
  assumes "floor_named e" and "End sid st sq ts reason e = (x, e')"
  shows "floor_named e'" "\<And>y. x = Inr y \<Longrightarrow> pred_option end_named y"
  using assms
  by (auto simp: End_def Let_def case_prod_beta floor_named_def releaseLocked_eq end_named_def released_def split: option.splits if_splits)

lemma RequestFloor_named:
  "floor_named e \<Longrightarrow> sid \<noteq> 0 \<Longrightarrow> floor_named (snd (RequestFloor sid st src e))"
  by (auto simp: RequestFloor_def Let_def now_def floor_named_def split: option.split)

lemma Media_named: "floor_named e \<Longrightarrow> floor_named (snd (Media sid a st sq ts pl e))"
  by (auto simp: Media_def Let_def now_def floor_named_def split: option.split prod.split)

lemma floor_same:
  "floor_of (snd (SetReady sid e)) = floor_of e" "floor_of (snd (Touch sid a e)) = floor_of e"
  "floor_of (snd (AddSession sid a n b e)) = floor_of e"
  by (auto simp: SetReady_def Touch_def AddSession_def now_def Let_def split: option.split)

lemma Snapshot_named:
  assumes "floor_named (engine r)" and "fsActive (snFloor (fst (EngineSnapshot r)))"
  shows "fsSessionID (snFloor (fst (EngineSnapshot r))) \<noteq> 0" "fsStreamID (snFloor (fst (EngineSnapshot r))) \<noteq> 0"
  using assms
  by (auto simp: EngineSnapshot_def Snapshot_def Let_def case_prod_beta zeroFloorSnapshot_def floor_named_def split: option.splits)

section \<open>Notifications\<close>

lemma disconnectPeer_sends:
  assumes "sends_ok r"
  shows "sends_ok (snd (disconnectPeer sid reason r))"
    "fst (disconnectPeer sid reason r) = Some x \<Longrightarrow> end_named x"
proof -
  obtain y e where y: "Disconnect sid (engine r) = (y, e)" by force
  have "floor_named (engine r)" using assms by (simp add: sends_ok_def)
  from Disconnect_named [OF this y] assms
  show "sends_ok (snd (disconnectPeer sid reason r))" "fst (disconnectPeer sid reason r) = Some x \<Longrightarrow> end_named x"
    by (auto simp: disconnectPeer_def y send_simps sends_ok_def event_def list_all_delete split: option.splits)
qed

lemma controlOverload_sends:
  assumes again: "\<And>x r. end_named x \<Longrightarrow> sends_ok r \<Longrightarrow> sends (again x r)" and "sends_ok r"
  shows "sends (controlOverload_with again sid r)"
  using disconnectPeer_sends [OF assms(2), of sid "''control_overload''"]
  by (auto simp: controlOverload_with_def Let_def case_prod_beta send_simps sends_pending_filter split: option.split intro!: again)

lemma sendControl_sends:
  assumes again: "\<And>x r. end_named x \<Longrightarrow> sends_ok r \<Longrightarrow> sends (again x r)" and "sends_ok r" and "client_valid p"
  shows "sends (sendControl_with again a p r)"
proof (cases "Encode p")
  case (Some e)
  show ?thesis
  proof (cases e)
    case (Inr d)
    with Some have "client_reads d" using encoded_reads assms(3) by blast
    then have "sends_ok (r\<lparr>transport := snd (EnqueueControl \<lparr>dAddress = a, dData = d\<rparr> (transport r))\<rparr>)"
      by (intro sends_transport assms(2) EnqueueControl_queued sends_queued) simp_all
    with Some Inr show ?thesis
      by (auto simp: sendControl_with_def Let_def case_prod_beta send_simps split: option.split intro!: controlOverload_sends again)
  qed (use Some assms(2) in \<open>simp add: sendControl_with_def\<close>)
qed (simp add: sendControl_with_def)

lemma startNotification_sends:
  assumes again: "\<And>x r. end_named x \<Longrightarrow> sends_ok r \<Longrightarrow> sends (again x r)" and "sends_ok r" and "note_valid p"
  shows "sends (startNotification_with again sid a p r)"
proof -
  have overload: "sends (controlOverload_with again sid r)" by (rule controlOverload_sends [OF again assms(2)])
  have "sends_ok (snd (Clock r))" using assms(2) by (simp add: send_simps)
  then have "sends_ok ((snd (Clock r))\<lparr>pending := AList.update key \<lparr>noPacket = p, noAttempt = 1, noNext = t\<rparr> (pending (snd (Clock r)))\<rparr>)" for key t
    by (rule sends_pending_update) (simp add: assms(3))
  then show ?thesis
    using overload assms(3)
    by (auto simp: startNotification_with_def Let_def case_prod_beta note_valid_def send_simps split: option.split
      intro!: pred_bind_any sendControl_sends again)
qed

lemma notifyEnd_sends:
  assumes again: "\<And>x r. end_named x \<Longrightarrow> sends_ok r \<Longrightarrow> sends (again x r)" and "sends_ok r" and "end_named x"
  shows "sends (notifyEnd_with again x r)"
proof -
  have "sends_ok (log_end x r)" using assms(2) by (simp add: send_simps)
  then have "sends_ok ((log_end x r)\<lparr>pending := filter (\<lambda>(key, _). nkTyp key \<noteq> PacketStreamStart) (pending (log_end x r))\<rparr>)"
    by (rule sends_pending_filter)
  moreover have "sends (notify_listener again x sid q r)" if "sends_ok r" for sid q r
    using that assms(3)
    by (auto simp: notify_listener_def Let_def case_prod_beta send_simps end_named_def intro!: startNotification_sends again revoke_valid)
  ultimately show ?thesis unfolding notifyEnd_with_def Let_def by (intro pred_range_loop)
qed

lemma notifyEnd_depth_sends: "sends_ok r \<Longrightarrow> end_named x \<Longrightarrow> sends (notifyEnd_depth n x r)"
  by (induction n arbitrary: x r) (simp_all add: notifyEnd_sends)

lemma notify_sends:
  assumes "sends_ok r"
  shows "end_named x \<Longrightarrow> sends (notifyEnd x r)" "sends (controlOverload sid r)" "client_valid p \<Longrightarrow> sends (sendControl a p r)"
    "note_valid p \<Longrightarrow> sends (startNotification sid a p r)"
  using assms notifyEnd_depth_sends
  by (auto simp: notifyEnd_def controlOverload_def sendControl_def startNotification_def
    intro!: controlOverload_sends sendControl_sends startNotification_sends)

section \<open>Handlers\<close>

lemma notifyStart_sends:
  assumes "sends_ok r" and "fsSessionID fl \<noteq> 0" and "fsStreamID fl \<noteq> 0"
  shows "sends (notifyStart sid fl r)"
  using assms
  by (auto simp: notifyStart_def Let_def case_prod_beta send_simps split: option.split intro!: notify_sends start_valid)

lemma enqueueRaw_sends:
  assumes "sends_ok r" and "client_reads d"
  shows "sends_ok (snd (enqueueRaw a d r))"
proof -
  have "sends_ok (r\<lparr>transport := snd (EnqueueControl \<lparr>dAddress = a, dData = d\<rparr> (transport r))\<rparr>)"
    by (intro sends_transport assms(1) EnqueueControl_queued sends_queued) (simp_all add: assms(2))
  then show ?thesis by (auto simp: enqueueRaw_def Let_def case_prod_beta send_simps split: option.split)
qed

lemma replayOverload_sends: "sends_ok r \<Longrightarrow> sends (replayOverload a d r)"
  by (auto simp: replayOverload_def Let_def split: option.split intro!: notify_sends)

lemma sendError_sends: "sends_ok r \<Longrightarrow> sends (sendError a p code r)"
  by (auto simp: sendError_def Let_def intro!: notify_sends error_valid)

definition reply_ok :: "Packet \<times> Reflector \<Rightarrow> bool" where
  "reply_ok = (\<lambda>(p, r). sends_ok r \<and> (hType (pHeader p) = 0 \<or> client_valid p))"

lemma reply_zero: "sends_ok r \<Longrightarrow> reply_ok (zeroPacket, r)"
  by (simp add: reply_ok_def zeroPacket_def zeroHeader_def)

lemma reply_valid: "client_valid q \<Longrightarrow> reply_ok (q, r) = sends_ok r"
  by (simp add: reply_ok_def)

lemma hello_sends: "sends_ok r \<Longrightarrow> reply_ok (hello a p r)"
proof -
  assume r: "sends_ok r"
  obtain b r1 where b: "ReadRandom 32 r = (b, r1)" by force
  then have "sends_ok r1" using sends_reads(3) [of 32 r] r by simp
  then have "sends_ok (snd (Clock r1))" by (simp add: send_simps)
  with r \<open>sends_ok r1\<close> b show ?thesis
    using challenge_valid
    by (auto simp: hello_def Let_def case_prod_beta send_simps intro!: reply_zero split: option.split) (auto simp: reply_ok_def send_simps)
qed

lemma admit_sends: "sends_ok r \<Longrightarrow> reply_ok (admit a key node t r)"
proof (induction a key node t r rule: admit.induct)
  case (1 a key node t r)
  obtain b r1 where b: "ReadRandom 8 r = (b, r1)" by force
  with sends_reads(3) [of 8 r] 1(2) have r1: "sends_ok r1" by simp
  show ?case
  proof (cases b)
    case None
    with b r1 show ?thesis by (simp add: admit.simps [of a key node t r] reply_zero)
  next
    case (Some raw)
    let ?x = "if (get_be raw :: u64) \<noteq> 0 then AddSession (get_be raw) a node False (engine r1) else (False, engine r1)"
    have r2: "sends_ok (r1\<lparr>engine := snd ?x\<rparr>)" using r1 by (simp add: send_simps floor_same)
    show ?thesis
    proof (cases "fst ?x")
      case False
      have "reply_ok (admit a key node t (r1\<lparr>engine := snd ?x\<rparr>))"
        by (rule 1(1) [OF b [symmetric] Some refl refl _ _ r2]) (use False in \<open>auto simp: prod_eq_iff\<close>)
      with False b Some show ?thesis by (simp add: admit.simps [of a key node t r] Let_def case_prod_beta)
    next
      case True
      then have "(get_be raw :: u64) \<noteq> 0" by (auto split: if_splits)
      with True b Some r2 welcome_valid show ?thesis
        by (auto simp: admit.simps [of a key node t r] Let_def case_prod_beta reply_ok_def sends_ok_def event_def auth_metric_def metric_def
          Clock_eq list_all_update floor_named_def)
    qed
  qed
qed

lemma authenticate_sends: "sends_ok r \<Longrightarrow> reply_ok (authenticate a p r)"
  by (auto simp: authenticate_def Let_def case_prod_beta send_simps split: option.split intro!: admit_sends reply_zero)

lemma control_sends:
  assumes r: "sends_ok r" and p: "request_ok p" and sid: "sid = hSessionID (pHeader p)"
    and ty: "hType (pHeader p) \<in> {PacketKeepalive, PacketDisconnect, PacketStreamRequest, PacketStreamEnd}"
  shows "pred_option reply_ok (control sid p r)"
proof -
  note answers = answer_valid [OF p refl sid]
  have sid0: "sid \<noteq> 0" and fl: "floor_named (engine r)" using p sid r by (simp_all add: request_ok_def Let_def sends_ok_def)
  have answered: "pred_option reply_ok (do { r \<leftarrow> m; Some (q, r) })" if "sends m" "client_valid q" for m q
    using that by (cases m) (simp_all add: reply_valid)
  show ?thesis
  proof (cases "hType (pHeader p) = PacketKeepalive")
    case True
    with answers(1) r show ?thesis by (auto simp: control_def Let_def reply_valid send_simps floor_same)
  next
    case nk: False
    show ?thesis
    proof (cases "hType (pHeader p) = PacketDisconnect")
      case True
      with answers(2) disconnectPeer_sends [OF r, of sid "''client_request''"] show ?thesis
        by (auto simp: control_def Let_def case_prod_beta reply_valid split: option.split intro!: answered notify_sends)
    next
      case nd: False
      show ?thesis
      proof (cases "hType (pHeader p) = PacketStreamRequest")
        case True
        let ?q = "RequestFloor sid (hStreamID (pHeader p)) (TrimSpace (string_of (found p TLVSourceCallsign))) (engine r)"
        let ?r = "r\<lparr>engine := snd ?q\<rparr>"
        have r': "sends_ok ?r" using r RequestFloor_named [OF fl sid0] by (simp add: sends_ok_def)
        show ?thesis
        proof (cases "fst ?q = FloorGranted")
          case False
          with True answers(4) r' show ?thesis by (simp add: control_def Let_def case_prod_beta reply_valid send_simps)
        next
          case granted: True
          let ?g = "event ''stream_granted'' ''info'' [(''session_id'', DSession sid), (''stream_id'', DStream (hStreamID (pHeader p)))]
            (metric ''opusref_streams_total'' [(''result'', ''granted'')] 1 ?r)"
          let ?s = "EngineSnapshot ?g"
          have "sends_ok (snd ?s)" and g: "sends_ok ?g" using r' by (simp_all add: send_simps)
          have "fsActive (snFloor (fst ?s))"
            using granted by (auto simp: EngineSnapshot_def Snapshot_def Let_def case_prod_beta metric_def event_def RequestFloor_def now_def
              split: option.splits if_splits)
          with Snapshot_named [of ?g] g have fl': "fsSessionID (snFloor (fst ?s)) \<noteq> 0" "fsStreamID (snFloor (fst ?s)) \<noteq> 0"
            by (auto simp: sends_ok_def)
          have "sends (range_loop peers (\<lambda>lid q r. if lid \<noteq> sid \<and> peReady q then notifyStart lid (snFloor (fst ?s)) r else Some r)
              (map fst (peers (snd ?s))) (snd ?s))"
            by (rule pred_range_loop) (use fl' \<open>sends_ok (snd ?s)\<close> in \<open>auto intro!: notifyStart_sends\<close>)
          from answered [OF this] answers(3) [OF True] True granted show ?thesis
            by (simp add: control_def Let_def case_prod_beta)
        qed
      next
        case ns: False
        with nk nd ty have ty: "hType (pHeader p) = PacketStreamEnd" by simp
        obtain x e where x: "End sid (hStreamID (pHeader p)) (hSequence (pHeader p)) (hTimestamp (pHeader p)) EndNormal (engine r) = (x, e)" by force
        from End_named [OF fl x] r have "sends_ok (r\<lparr>engine := e\<rparr>)" "\<And>y. x = Inr (Some y) \<Longrightarrow> end_named y" by (auto simp: sends_ok_def)
        with answers(5) [OF ty] ty x error_valid show ?thesis
          by (auto simp: control_def Let_def notifyEnd_ptr_def reply_valid split: sum.split option.split intro!: answered notify_sends)
      qed
    qed
  qed
qed

lemma ack_sends:
  assumes "sends_ok r"
  shows "sends_with (ack sid p r)"
proof -
  have "sends_ok (r\<lparr>pending := AList.delete key (pending r)\<rparr>)" for key using assms by (rule sends_pending_delete)
  with assms show ?thesis
    by (auto simp: ack_def Let_def send_simps disconnectPeer_sends split: option.split intro!: pred_bind_any)
qed

lemma media_sends:
  assumes "sends_ok r" and "client_reads d"
  shows "sends_ok (snd (media sid a p d r))"
proof -
  have batch: "sends_ok (enqueue_batch p d rs r)" if "sends_ok r" for rs r
  proof -
    have "sends_ok (r\<lparr>transport := snd (EnqueueMedia \<lparr>mbData = d, mbRecipients = rs, mbKind = k\<rparr> (transport r))\<rparr>)" for k
      by (intro sends_transport that EnqueueMedia_queued sends_queued) (simp_all add: assms(2))
    then show ?thesis by (auto simp: enqueue_batch_def Let_def case_prod_beta send_simps)
  qed
  have "sends_ok (r\<lparr>engine := snd (Media sid a st sq ts pl (engine r))\<rparr>)" if "sends_ok r" for r st sq ts pl
    using that by (simp add: sends_ok_def Media_named)
  with assms(1) show ?thesis
    by (auto simp: media_def Let_def case_prod_beta send_simps split: sum.split intro!: batch)
qed

lemma undo_delivery_sends: "sends_ok r \<Longrightarrow> sends (undo_delivery a p r)"
  by (auto simp: undo_delivery_def send_simps split: option.split intro!: pred_range_loop notify_sends disconnectPeer_sends)

lemma late_start_sends:
  assumes "sends_ok r"
  shows "sends (late_start p r)"
proof -
  have "floor_named (engine r)" using assms by (simp add: sends_ok_def)
  from Snapshot_named [OF this] assms show ?thesis
    by (auto simp: late_start_def Let_def case_prod_beta send_simps split: option.split intro!: notifyStart_sends)
qed

lemma stored_reads: "sends_ok r \<Longrightarrow> map_of (transactions r) key = Some old \<Longrightarrow> client_reads (coResponse old)"
  by (auto simp: sends_ok_def dest: list_all_lookup)

lemma sorted_header [simp]: "pHeader (sort_extensions p) = pHeader p"
  by (simp add: sort_extensions_def)

lemma replayDisconnect_sends:
  assumes "sends_ok r"
  shows "pred_option (\<lambda>((_, q), r). sends_ok r \<and> pHeader q = pHeader p) (replayDisconnect a p r)"
proof -
  have replay: "pred_option (\<lambda>((_, q), r). sends_ok r \<and> pHeader q = pHeader p) (case enqueueRaw a d r of
      (True, r) \<Rightarrow> Some ((True, sort_extensions p), r)
    | (False, r) \<Rightarrow> do { r \<leftarrow> replayOverload a d r; Some ((False, sort_extensions p), r) })" if "client_reads d" for a d
    using enqueueRaw_sends [OF assms that, of a]
    by (cases "enqueueRaw a d r"; cases "fst (enqueueRaw a d r)")
      (auto intro!: pred_bind [OF replayOverload_sends])
  show ?thesis
    using assms
    by (auto simp: replayDisconnect_def stored_reads split: option.split sum.split intro!: pred_bind_any replay)
qed

lemma transact_sends:
  assumes f: "\<And>r. sends_ok r \<Longrightarrow> pred_option reply_ok (f (sort_extensions p) r)" and r: "sends_ok r"
  shows "sends_with (transact a p f r)"
proof -
  have finish: "sends_with (case enqueueRaw a d r of
      (False, r) \<Rightarrow> do { let r = (if c then r else r\<lparr>transactions := AList.delete k (transactions r)\<rparr>);
        r \<leftarrow> undo_delivery a q r; Some (False, r) }
    | (True, r) \<Rightarrow> do { r \<leftarrow> late_start q r; Some (b, r) })" if "sends_ok r" "client_reads d" for r d c k q b
  proof -
    have e: "sends_ok (snd (enqueueRaw a d r))" by (rule enqueueRaw_sends [OF that])
    then have "sends_ok ((snd (enqueueRaw a d r))\<lparr>transactions := AList.delete k (transactions (snd (enqueueRaw a d r)))\<rparr>)"
      by (simp add: sends_ok_def list_all_delete)
    with e show ?thesis
      by (cases "enqueueRaw a d r"; cases "fst (enqueueRaw a d r)")
        (auto simp: Let_def intro!: pred_bind [OF undo_delivery_sends] pred_bind [OF late_start_sends])
  qed
  have applied: "sends_with (do {
      (response, r) \<leftarrow> f (sort_extensions p) r;
      if hType (pHeader response) = 0 then Some (False, r)
      else case Encode response of
        None \<Rightarrow> None
      | Some (Inl _) \<Rightarrow> Some (False, r)
      | Some (Inr data) \<Rightarrow>
          let (at, r) = Clock r;
              r = r\<lparr>transactions := AList.update key \<lparr>coFingerprint = fp, coResponse = data, coAddress = a, coAt = at\<rparr> (transactions r)\<rparr> in
          (case enqueueRaw a data r of
             (False, r) \<Rightarrow> do {
               let r = (if hType (pHeader (sort_extensions p)) = PacketDisconnect \<and> hSessionID (pHeader (sort_extensions p)) \<noteq> 0 then r
                        else r\<lparr>transactions := AList.delete key (transactions r)\<rparr>);
               r \<leftarrow> undo_delivery a (sort_extensions p) r;
               Some (False, r)
             }
           | (True, r) \<Rightarrow> do {
               r \<leftarrow> late_start (sort_extensions p) r;
               Some (hType (pHeader response) \<noteq> PacketError, r)
             }) })" for key fp
  proof (rule pred_bind [OF f [OF r]], clarify)
    fix q and r1 :: Reflector
    assume q: "reply_ok (q, r1)"
    have stored: "sends_ok (r2\<lparr>transactions := AList.update key \<lparr>coFingerprint = fp, coResponse = d, coAddress = a, coAt = t\<rparr> (transactions r2)\<rparr>)"
      if "sends_ok r2" "client_reads d" for r2 d t
      using that by (simp add: sends_ok_def list_all_update)
    have "sends_ok r1" using q by (simp add: reply_ok_def)
    then have c: "sends_ok (snd (Clock r1))" by (simp add: send_simps)
    have d: "client_reads d" if "Encode q = ok d" "hType (pHeader q) \<noteq> 0" for d
      using that q by (auto simp: reply_ok_def intro: encoded_reads)
    show "sends_with (if hType (pHeader q) = 0 then Some (False, r1)
      else case Encode q of
        None \<Rightarrow> None
      | Some (Inl _) \<Rightarrow> Some (False, r1)
      | Some (Inr data) \<Rightarrow>
          let (at, r) = Clock r1;
              r = r\<lparr>transactions := AList.update key \<lparr>coFingerprint = fp, coResponse = data, coAddress = a, coAt = at\<rparr> (transactions r)\<rparr> in
          (case enqueueRaw a data r of
             (False, r) \<Rightarrow> do {
               let r = (if hType (pHeader (sort_extensions p)) = PacketDisconnect \<and> hSessionID (pHeader (sort_extensions p)) \<noteq> 0 then r
                        else r\<lparr>transactions := AList.delete key (transactions r)\<rparr>);
               r \<leftarrow> undo_delivery a (sort_extensions p) r;
               Some (False, r)
             }
           | (True, r) \<Rightarrow> do {
               r \<leftarrow> late_start (sort_extensions p) r;
               Some (hType (pHeader q) \<noteq> PacketError, r)
             }))"
      using \<open>sends_ok r1\<close> finish [OF stored [OF c d] d]
      by (auto simp: case_prod_beta Let_def split: option.split sum.split)
  qed
  have replay: "sends_with (case enqueueRaw a d r of
      (False, r) \<Rightarrow> do { r \<leftarrow> replayOverload a d r; Some (False, r) } | (True, r) \<Rightarrow> Some (b, r))" if "client_reads d" for d b
    using enqueueRaw_sends [OF r that, of a]
    by (cases "enqueueRaw a d r"; cases "fst (enqueueRaw a d r)") (auto intro!: pred_bind [OF replayOverload_sends])
  have refused: "sends_with (do { r \<leftarrow> sendError a q code (packet_error reason r); Some (False, r) })" for q code reason
    using r by (intro pred_bind [OF sendError_sends]) (simp_all add: send_simps)
  show ?thesis
    unfolding transact_def Let_def
    by (auto simp: r stored_reads [OF r] split: option.split
      intro!: pred_bind_any refused replay applied [unfolded Let_def])
qed

lemma sends_bind_with: "sends_with m \<Longrightarrow> (\<And>x r. sends_ok r \<Longrightarrow> pred_option Q (f (x, r))) \<Longrightarrow> pred_option Q (m \<bind> f)"
  by (erule pred_bind) auto

lemma handshake_sends:
  "(\<And>p r. sends_ok r \<Longrightarrow> reply_ok (f a p r)) \<Longrightarrow> sends_ok r \<Longrightarrow> sends (handshake a p f r)"
  by (auto simp: handshake_def send_simps split: option.split intro!: sends_bind_with [OF transact_sends])

text \<open>A packet of an admitted peer, with the datagram it was decoded from.\<close>

definition media_of :: "Packet \<Rightarrow> bytes \<Rightarrow> bool" where
  "media_of p d \<longleftrightarrow> hType (pHeader p) \<notin> {PacketAudio, PacketData} \<or> Decode d = ok p"

lemma dispatch_sends:
  assumes r: "sends_ok r" and v: "Validate p \<lparr>cDirection = ClientToServer, cPhase = ph\<rparr> = None" and d: "media_of p d"
    and sid: "sid = hSessionID (pHeader p)"
  shows "sends_with (dispatch a sid p d r)"
proof -
  have "sends_with (transact a p (control sid) r)"
    if "hType (pHeader p) \<in> {PacketKeepalive, PacketDisconnect, PacketStreamRequest, PacketStreamEnd}"
    using validated_request [OF v that] that
    by (intro transact_sends control_sends r) (simp_all add: sid request_ok_def)
  moreover have "sends_ok (snd (media sid a p d r))" if "hType (pHeader p) = PacketAudio \<or> hType (pHeader p) = PacketData"
    using d that by (intro media_sends r media_reads [OF _ v that]) (auto simp: media_of_def)
  ultimately show ?thesis
    using ack_sends [OF r] r by (auto simp: dispatch_def Let_def case_prod_beta)
qed

lemma handle_peer_sends: "sends_ok r \<Longrightarrow> media_of p d \<Longrightarrow> sends (handle_peer a p d r)"
  by (auto simp: handle_peer_def Let_def case_prod_beta send_simps floor_same split: option.split
    intro!: sends_bind_with [OF dispatch_sends])

lemma handle_packet_sends:
  assumes r: "sends_ok r" and d: "Decode d = ok p"
  shows "sends (handle_packet a p d r)"
proof -
  have "sends (do { ((replayed, p), r) \<leftarrow> replayDisconnect a p r; if replayed then Some r else handle_peer a p d r })"
    if "hType (pHeader p) = PacketDisconnect"
    by (rule pred_bind [OF replayDisconnect_sends [OF r]]) (use that in \<open>auto simp: media_of_def intro!: handle_peer_sends\<close>)
  moreover have "sends (handle_peer a p d r)" by (rule handle_peer_sends [OF r]) (simp add: media_of_def d)
  ultimately show ?thesis
    using r by (simp add: handle_packet_def handshake_sends hello_sends authenticate_sends)
qed

lemma sends_publish [send_simps]: "sends_ok (publish r) = sends_ok r"
  by (simp add: publish_def Let_def case_prod_beta send_simps)

lemma handle_sends:
  assumes "sends_ok r"
  shows "sends (handle a d r)"
proof -
  have "sends (handle_packet a p d (traffic x t n r))" if "Decode d = ok p" for p x t n
    by (rule handle_packet_sends [OF _ that]) (simp add: send_simps assms)
  with assms show ?thesis
    by (auto simp: handle_def send_simps split: option.split sum.split intro!: pred_bind [where P = sends_ok])
qed

lemma handleDrain_sends:
  assumes r: "sends_ok r"
  shows "sends (handleDrain a d r)"
proof -
  have "sends (do { (_, r) \<leftarrow> transact a p (control (hSessionID (pHeader p))) r; Some r })"
    if "Validate p \<lparr>cDirection = ClientToServer, cPhase = Ready\<rparr> = None" "hType (pHeader p) = PacketDisconnect" for p
    using dispatch_sends [OF r that(1), of d "hSessionID (pHeader p)" a] that(2)
    by (intro sends_bind_with) (auto simp: media_of_def dispatch_def Let_def)
  with r show ?thesis
    by (auto simp: handleDrain_def Let_def split: option.split sum.split intro!: sends_bind_with [OF ack_sends])
qed

section \<open>Timers and shutdown\<close>

lemma disconnect_notifies:
  assumes "sends_ok r"
  shows "sends (case disconnectPeer sid reason r of (None, r) \<Rightarrow> Some r | (Some x, r) \<Rightarrow> notifyEnd x r)"
  using disconnectPeer_sends [OF assms, of sid reason]
  by (auto simp: case_prod_beta split: option.split intro!: notify_sends)

lemma tick_peer_sends: "sends_ok r \<Longrightarrow> sends (tick_peer t sid q r)"
  by (auto simp: tick_peer_def Let_def send_simps intro!: disconnect_notifies)

lemma tick_engine_sends:
  assumes "sends_ok r"
  shows "sends (tick_engine r)"
proof -
  obtain x e where x: "Tick (engine r) = (x, e)" by force
  have "floor_named (engine r)" using assms by (simp add: sends_ok_def)
  from Tick_named [OF this x] assms have "sends_ok (r\<lparr>engine := e\<rparr>)" "pred_option end_named x" by (simp_all add: sends_ok_def)
  then show ?thesis
    by (auto simp: tick_engine_def x Let_def send_simps split: option.split intro!: notify_sends)
qed

lemma tick_pending_sends:
  assumes r: "sends_ok r" and n: "note_valid (noPacket n)"
  shows "sends (tick_pending t key n r)"
proof -
  have retry: "note_valid (with_retry (noPacket n))" by (rule note_valid_retry [OF n])
  have "sends_ok (r\<lparr>pending := AList.update key \<lparr>noPacket = with_retry (noPacket n), noAttempt = k, noNext = t'\<rparr> (pending r)\<rparr>)" for k t'
    by (rule sends_pending_update [OF r]) (simp add: retry)
  moreover have "client_valid (with_retry (noPacket n))" using retry by (simp add: note_valid_def)
  moreover have "sends_ok ((metric x y z r)\<lparr>pending := AList.delete key (pending (metric x y z r))\<rparr>)" for x y z
    by (rule sends_pending_delete) (simp add: send_simps r)
  ultimately show ?thesis
    using r
    by (auto simp: tick_pending_def Let_def send_simps simp flip: with_retry_def split: option.split intro!: pred_bind_any notify_sends)
qed

lemma fold_same: "(\<And>x r. sends_ok (f x r) = sends_ok r) \<Longrightarrow> sends_ok (fold f xs r) = sends_ok r"
  by (induction xs arbitrary: r) simp_all

lemma tick_sends:
  assumes "sends_ok r"
  shows "sends (tick r)"
proof -
  have "sends_ok (fold (\<lambda>_. metric ''opusref_timeouts_total'' [(''kind'', ''challenge'')] 1) xs r') = sends_ok r'" for xs :: "(string \<times> challenge) list" and r'
    by (rule fold_same) (simp add: send_simps)
  moreover have "sends_ok (r\<lparr>challenges := cs, transactions := filter Q (transactions r)\<rparr>)" if "sends_ok r" for r cs Q
    using that by (simp add: sends_ok_def list_all_filter floor_named_def)
  moreover have "sends (tick_pending t key n r)" if "sends_ok r" "map_of (pending r) key = Some n" for t key n r
    using that by (intro tick_pending_sends) (auto simp: sends_ok_def dest: list_all_lookup)
  ultimately show ?thesis
    using assms
    by (auto simp: tick_def Let_def case_prod_beta send_simps
      intro!: pred_bind [where P = sends_ok] pred_range_loop tick_peer_sends tick_engine_sends)
qed

lemma try_recv_all: "list_all Q (ch_items c) \<Longrightarrow> try_recv c = Some (x, c') \<Longrightarrow> Q x \<and> list_all Q (ch_items c')"
  by (auto simp: try_recv_def split: list.splits)

lemma background_sends:
  assumes "sends_ok r"
  shows "sends_ok (background_step b r)"
proof (cases b)
  case (BReceive d)
  with assms show ?thesis by (auto simp: Read_round_def queued_ok_def sends_ok_def split: prod.split bool.split)
next
  case (BReorder ss ps ns)
  with assms mset_eq_setD [of ps "peers r"] mset_eq_setD [of ns "pending r"] show ?thesis
    by (simp add: sends_ok_def floor_named_def list_all_iff)
qed (use assms in \<open>auto simp: sends_ok_def queued_ok_def dest: try_recv_all split: option.split\<close>)

lemma sends_ok_inbound: "sends_ok r \<Longrightarrow> sends_ok (r\<lparr>transport := (transport r)\<lparr>uInbound := c\<rparr>\<rparr>)"
  by (simp add: sends_ok_def queued_ok_def)

lemma drainPending_sends: "sends_ok r \<Longrightarrow> sends (drainPending evs r)"
proof (induction evs arbitrary: r)
  case (Cons ev evs)
  then show ?case
    by (cases ev) (auto simp: background_sends sends_ok_inbound simp del: background_step.simps split: option.split
      intro!: pred_bind [OF handleDrain_sends] pred_bind [OF tick_sends])
qed simp

lemma DisableMedia_queued: "queued_ok u \<Longrightarrow> queued_ok (snd (DisableMedia u))"
proof -
  have "queued_ok u \<Longrightarrow> queued_ok (snd (drain_media n ds u))" for n ds u
  proof (induction n arbitrary: ds u)
    case (Suc n)
    then show ?case
      by (auto simp: try_recv_def queued_ok_def split: option.split list.splits)
  qed simp
  moreover assume "queued_ok u"
  ultimately show ?thesis by (simp add: DisableMedia_def queued_ok_def)
qed

lemma begin_drain_sends:
  assumes "sends_ok r"
  shows "sends (begin_drain r)"
proof -
  obtain ds u where u: "DisableMedia (transport r) = (ds, u)" by force
  have "sends_ok (fold log_drop ds r') = sends_ok r'" for ds r'
    by (rule fold_same) (auto simp: log_drop_def send_simps split: prod.split)
  then have r1: "sends_ok (fold log_drop ds (r\<lparr>transport := u\<rparr>))"
    using DisableMedia_queued [OF sends_queued [OF assms]] assms by (simp add: u sends_transport)
  obtain x e where x: "BeginShutdown (engine (fold log_drop ds (r\<lparr>transport := u\<rparr>))) = (x, e)" by force
  have "floor_named (engine (fold log_drop ds (r\<lparr>transport := u\<rparr>)))" using r1 by (simp add: sends_ok_def)
  from BeginShutdown_named [OF this x] r1
  have "sends_ok ((fold log_drop ds (r\<lparr>transport := u\<rparr>))\<lparr>engine := e\<rparr>)" "pred_option end_named x" by (simp_all add: sends_ok_def)
  then show ?thesis
    by (auto simp: begin_drain_def u x Let_def send_simps split: option.split intro!: pred_bind [where P = sends_ok] notify_sends)
qed

lemma drain_sends:
  assumes "sends_ok r"
  shows "sends (drain evs1 evs2 r)"
proof -
  have "sends (say_goodbye r)" if "sends_ok r" for r
  proof -
    have "sends (let (i, r) = transactionID r in startNotification sid (peAddress q) (disconnect_packet sid i) r)"
      if "sends_ok r" "map_of (peers r) sid = Some q" for sid q r
    proof -
      have "sid \<noteq> 0" using that by (auto simp: sends_ok_def dest: list_all_lookup)
      with that(1) show ?thesis by (auto simp: case_prod_beta send_simps intro!: notify_sends disconnect_valid)
    qed
    moreover have "sends_ok (if pending r \<noteq> [] then metric ''opusref_timeouts_total'' [(''kind'', ''shutdown'')] 1 r else r)"
      using that by (simp add: send_simps)
    ultimately show ?thesis unfolding say_goodbye_def Let_def by (intro pred_range_loop)
  qed
  moreover have "sends (drop_peers r)" if "sends_ok r" for r
    using that unfolding drop_peers_def by (intro pred_range_loop disconnect_notifies)
  ultimately show ?thesis
    using assms by (auto simp: drain_def intro!: pred_bind [where P = sends_ok] begin_drain_sends drainPending_sends)
qed

lemma Run_step_sends:
  assumes "sends_ok r"
  shows "sends (Run_step ev r)"
  using assms
  by (cases ev) (auto simp: background_sends sends_ok_inbound tick_sends simp del: background_step.simps split: option.split
    intro!: handle_sends)

section \<open>Property\<close>

lemma NewReflector_sends: "NewReflector q c rnd uni = Inr r \<Longrightarrow> sends_ok r"
  by (auto simp: sends_ok_def queued_ok_def NewReflector_def NewUDP_def make_chan_def NewEngine_def floor_named_def publish_def
      EngineSnapshot_def Snapshot_def now_def Clock_def Let_def case_prod_beta
    split: sum.splits if_splits option.splits)

interpretation sending: machine server_init server_step sends
proof
  show "server_init s \<Longrightarrow> sends s" for s
    by (auto simp: server_init_def dest: NewReflector_sends)
  show "sends (server_step s ev)" if "sends s" for s ev
    using that Run_step_sends by (cases s) (simp_all add: server_step_def)
qed

text \<open>
  C7. Whatever the reflector sends, a client can read. Along every run of a new reflector, and through
  its shutdown, every datagram in its control queue and every media datagram decodes and passes the validation of the
  client in each phase in which the client reads packets of that type. Nothing that an
  application or a foreign host sends makes the reflector emit a malformed packet.
\<close>

theorem sent_datagrams_valid:
  assumes "NewReflector q c rnd uni = Inr r" and "run server_step (Some r) evs = Some r'"
    and "rs \<in> {Some r', drain evs1 evs2 r'}"
  shows "pred_option (\<lambda>r. list_all (\<lambda>d. client_reads (dData d)) (ch_items (uControl (transport r))) \<and>
    list_all (\<lambda>b. client_reads (mbData b)) (ch_items (uMedia (transport r)))) rs"
proof -
  have r': "sends_ok r'"
    using sending.inv_reachable [of "Some r" evs] assms(1,2) by (auto simp: server_init_def)
  with drain_sends [OF r', of evs1 evs2] assms(3) have "sends rs" by auto
  then show ?thesis by (cases rs) (simp_all add: sends_ok_def queued_ok_def)
qed

theorem sent_datagrams_valid_witness:
  "\<exists>r r'. run server_step (Some demo) [SReceive \<lparr>dAddress = ''a'', dData = [1, 2]\<rparr>, SHandle, STick] = Some r \<and>
    drain [DrainTimer] [DrainDone] r = Some r' \<and> list_all (\<lambda>d. client_reads (dData d)) (ch_items (uControl (transport r')))"
proof -
  obtain r where r: "run server_step (Some demo) [SReceive \<lparr>dAddress = ''a'', dData = [1, 2]\<rparr>, SHandle, STick] = Some r" and "refl_inv r"
    using server_running [OF demo_new_ok] by blast
  from drain_empties [OF this(2), of "[DrainTimer]" "[DrainDone]"] obtain r' where r': "drain [DrainTimer] [DrainDone] r = Some r'" by blast
  then have "Some r' \<in> {Some r, drain [DrainTimer] [DrainDone] r}" by simp
  from sent_datagrams_valid [OF demo_new_ok r this] r r' show ?thesis by simp
qed

end
