(* ===== verification/UdpClientLaws.thy ===== *)
theory UdpClientLaws
  imports UdpClient QueueClientLaws
begin

text \<open>
  The invariant of the UDP sender: the array of retired streams is a queue of the last eight
  of them, and the events handed to the owner announce a stream before its media. Every
  operation returns and keeps it.
\<close>

section \<open>The retired streams as a queue\<close>

definition ring_ok :: "udpSender \<Rightarrow> bool" where
  "ring_ok s \<longleftrightarrow> length (usRetired s) = 8 \<and> usRetiredCount s \<le> 8 \<and> usRetiredNext s < 8 \<and>
     (usRetiredCount s < 8 \<longrightarrow> usRetiredNext s = 0) \<and> distinct (take (usRetiredCount s) (usRetired s))"

text \<open>The retired streams, the oldest first.\<close>

definition recent :: "udpSender \<Rightarrow> remoteKey list" where
  "recent s = rotate (usRetiredNext s) (take (usRetiredCount s) (usRetired s))"

definition push_recent :: "remoteKey \<Rightarrow> remoteKey list \<Rightarrow> remoteKey list" where
  "push_recent key ks = (if rkStream key = 0 \<or> key \<in> set ks then ks
     else let ks = ks @ [key] in drop (length ks - 8) ks)"

lemma isRetired_from_spec:
  "index + n \<le> length ring \<Longrightarrow> isRetired_from key ring index n = Some (key \<in> set (take n (drop index ring)))"
proof (induction n arbitrary: index)
  case (Suc n)
  then have "drop index ring = ring ! index # drop (Suc index) ring" by (simp add: Cons_nth_drop_Suc)
  with Suc show ?case by (auto simp: at_def)
qed simp

lemma isRetiredLocked_spec: "ring_ok s \<Longrightarrow> isRetiredLocked key s = Some (key \<in> set (recent s))"
  by (simp add: isRetiredLocked_def isRetired_from_spec ring_ok_def recent_def)

lemma rotate_replace:
  assumes "n < length xs"
  shows "rotate (Suc n) (xs[n := k]) = tl (rotate n xs) @ [k]"
proof -
  have split: "xs = take n xs @ xs ! n # drop (Suc n) xs" using assms by (simp add: id_take_nth_drop)
  have "xs[n := k] = take n xs @ k # drop (Suc n) xs" using assms by (simp add: upd_conv_take_nth_drop)
  then have "rotate n (xs[n := k]) = k # drop (Suc n) xs @ take n xs"
    using rotate_append [of "take n xs" "k # drop (Suc n) xs"] assms by simp
  moreover have "rotate n xs = xs ! n # drop (Suc n) xs @ take n xs"
    using rotate_append [of "take n xs" "xs ! n # drop (Suc n) xs"] split assms by simp
  ultimately show ?thesis by simp
qed

lemma retireLocked_spec:
  assumes "ring_ok s"
  obtains ring count nxt where "retireLocked key s = Some (s\<lparr>usRetired := ring, usRetiredCount := count, usRetiredNext := nxt\<rparr>)"
    and "ring_ok (s\<lparr>usRetired := ring, usRetiredCount := count, usRetiredNext := nxt\<rparr>)"
    and "recent (s\<lparr>usRetired := ring, usRetiredCount := count, usRetiredNext := nxt\<rparr>) = push_recent key (recent s)"
proof -
  let ?same = "s\<lparr>usRetired := usRetired s, usRetiredCount := usRetiredCount s, usRetiredNext := usRetiredNext s\<rparr>"
  let ?grow = "s\<lparr>usRetired := (usRetired s)[usRetiredCount s := key], usRetiredCount := usRetiredCount s + 1,
    usRetiredNext := usRetiredNext s\<rparr>"
  let ?turn = "s\<lparr>usRetired := (usRetired s)[usRetiredNext s := key], usRetiredCount := usRetiredCount s,
    usRetiredNext := (usRetiredNext s + 1) mod 8\<rparr>"
  have len: "length (usRetired s) = 8" using assms by (simp add: ring_ok_def)
  consider "rkStream key = 0 \<or> key \<in> set (recent s)"
    | "rkStream key \<noteq> 0" "key \<notin> set (recent s)" "usRetiredCount s < 8"
    | "rkStream key \<noteq> 0" "key \<notin> set (recent s)" "usRetiredCount s = 8"
    using assms by (auto simp: ring_ok_def less_le)
  then show thesis
  proof cases
    case 1
    then have "retireLocked key s = Some ?same" using assms by (auto simp: retireLocked_def isRetiredLocked_spec)
    moreover have "recent ?same = push_recent key (recent s)" using 1 by (auto simp: push_recent_def)
    ultimately show thesis using that [where ring = "usRetired s" and count = "usRetiredCount s" and nxt = "usRetiredNext s"] assms by simp
  next
    case 2
    have "retireLocked key s = Some ?grow"
      using 2 assms len by (simp add: retireLocked_def isRetiredLocked_spec put_retired_def)
    moreover have new: "take (usRetiredCount s + 1) ((usRetired s)[usRetiredCount s := key]) =
        take (usRetiredCount s) (usRetired s) @ [key]" using 2 len by (simp add: take_Suc_conv_app_nth)
    moreover have next0: "usRetiredNext s = 0" using 2 assms by (simp add: ring_ok_def)
    ultimately show thesis
      using 2 assms len that [where ring = "(usRetired s)[usRetiredCount s := key]" and count = "usRetiredCount s + 1" and nxt = "usRetiredNext s"]
      by (simp add: ring_ok_def recent_def push_recent_def Let_def)
  next
    case 3
    have n: "usRetiredNext s < 8" and d: "distinct (usRetired s)" using 3(3) assms len by (simp_all add: ring_ok_def)
    have "retireLocked key s = Some ?turn"
      using 3 assms len n by (simp add: retireLocked_def isRetiredLocked_spec put_retired_def)
    moreover have rot: "recent ?turn = tl (recent s) @ [key]"
      using rotate_replace [of "usRetiredNext s" "usRetired s" key] n len 3(3)
        rotate_conv_mod [of "usRetiredNext s + 1" "(usRetired s)[usRetiredNext s := key]"]
      by (simp add: recent_def)
    moreover have "recent ?turn = push_recent key (recent s)"
      using 3 len rot by (simp add: push_recent_def recent_def Let_def drop_Suc)
    moreover have "ring_ok ?turn"
      using 3 assms len n d by (simp add: ring_ok_def recent_def distinct_list_update)
    ultimately show thesis
      using that [where ring = "(usRetired s)[usRetiredNext s := key]" and count = "usRetiredCount s" and nxt = "(usRetiredNext s + 1) mod 8"] by simp
  qed
qed

section \<open>The invariant\<close>

text \<open>Which stream the events have announced and not ended.\<close>

definition event_key :: "Event \<Rightarrow> remoteKey" where
  "event_key ev = \<lparr>rkOwner = ceSessionID ev, rkStream = ceStreamID ev\<rparr>"

definition hear :: "remoteKey option \<Rightarrow> Event \<Rightarrow> remoteKey option" where
  "hear cur ev =
     (if ceKind ev = EventStreamStart then Some (event_key ev)
      else if ceKind ev = EventStreamEnd \<and> cur = Some (event_key ev) then None else cur)"

fun heard_ok :: "remoteKey option \<Rightarrow> Event list \<Rightarrow> bool" where
  "heard_ok cur [] = True"
| "heard_ok cur (ev # evs) =
     ((ceKind ev = EventAudio \<or> ceKind ev = EventData \<longrightarrow> cur = Some (event_key ev)) \<and> heard_ok (hear cur ev) evs)"

lemma heard_ok_snoc:
  "heard_ok cur (evs @ [ev]) \<longleftrightarrow> heard_ok cur evs \<and>
     (ceKind ev = EventAudio \<or> ceKind ev = EventData \<longrightarrow> foldl hear cur evs = Some (event_key ev))"
  by (induction evs arbitrary: cur) auto

definition current :: "remoteStream \<Rightarrow> remoteKey option" where
  "current r = (if rsStream r = 0 then None else Some (remote_key r))"

definition tells :: "udpSender \<Rightarrow> bool" where
  "tells s \<longleftrightarrow> heard_ok None (usEvents s) \<and> foldl hear None (usEvents s) = current (usRemote s) \<and>
     (rsStream (usRemote s) \<noteq> 0 \<longrightarrow> remote_key (usRemote s) \<notin> set (recent s))"

definition close_ok :: "QueueClient \<Rightarrow> bool" where
  "close_ok c \<longleftrightarrow> (qcCloseDone c \<longrightarrow> qcCloseCalled c)"

definition udp_ok :: "udpSender \<Rightarrow> bool" where
  "udp_ok s \<longleftrightarrow> ring_ok s \<and> close_ok (usOwner s) \<and> tells s"

text \<open>Most operations change nothing that the invariant speaks of.\<close>

definition unheard :: "udpSender \<Rightarrow> udpSender \<Rightarrow> bool" where
  "unheard s s' \<longleftrightarrow> usRetired s' = usRetired s \<and> usRetiredCount s' = usRetiredCount s \<and>
     usRetiredNext s' = usRetiredNext s \<and> current (usRemote s') = current (usRemote s) \<and> usEvents s' = usEvents s \<and>
     (close_ok (usOwner s) \<longrightarrow> close_ok (usOwner s'))"

lemma recent_quiet: "unheard s s' \<Longrightarrow> recent s' = recent s"
  by (simp add: unheard_def recent_def)

lemma ring_quiet: "unheard s s' \<Longrightarrow> ring_ok s' = ring_ok s"
  by (simp add: unheard_def ring_ok_def)

lemma tells_quiet: "unheard s s' \<Longrightarrow> tells s' = tells s"
  unfolding tells_def using recent_quiet [of s s']
  by (auto simp: unheard_def current_def split: if_splits)

lemma unheard_ok: "unheard s s' \<Longrightarrow> udp_ok s \<Longrightarrow> udp_ok s'"
  using ring_quiet [of s s'] tells_quiet [of s s'] by (auto simp: udp_ok_def unheard_def)

lemma unheard_refl [simp]: "unheard s s" by (simp add: unheard_def)

lemma unheard_trans [trans]: "unheard s s' \<Longrightarrow> unheard s' s'' \<Longrightarrow> unheard s s''"
  by (simp add: unheard_def)

section \<open>Operations on the owner and on the socket\<close>

lemma fail_close: "close_ok c \<Longrightarrow> close_ok (fst (fail err c))"
  by (simp add: close_ok_def fail_def)

lemma publish_close: "close_ok c \<Longrightarrow> close_ok (fst (snd (publish_event ev req c)))"
  by (auto simp: publish_event_def close_ok_def fail_def Let_def split: prod.splits bool.splits)

lemma with_owner_fields:
  obtains b where "with_owner r s = s\<lparr>usOwner := fst r, usClosed := b\<rparr>"
proof (cases "CallClose \<in> set (snd r) \<and> \<not> usClosed s")
  case True
  then show thesis using that [of True] by (simp add: with_owner_def Close_def Let_def)
next
  case False
  then show thesis using that [of "usClosed s"] by (auto simp: with_owner_def Close_def Let_def)
qed

lemma unheard_owner_fail [simp]: "unheard s (owner_fail err s)"
proof -
  obtain b where "owner_fail err s = s\<lparr>usOwner := fst (fail err (usOwner s)), usClosed := b\<rparr>"
    unfolding owner_fail_def by (rule with_owner_fields)
  then show ?thesis by (simp add: unheard_def fail_close)
qed

lemma owner_Publish_fields:
  obtains c b where "owner_Publish ev s = s\<lparr>usEvents := usEvents s @ [ev], usOwner := c, usClosed := b\<rparr>"
    and "close_ok (usOwner s) \<Longrightarrow> close_ok c"
proof -
  obtain b where b: "owner_Publish ev s = s\<lparr>usEvents := usEvents s @ [ev],
      usOwner := fst (snd (Publish ev (usOwner s))), usClosed := b\<rparr>"
    unfolding owner_Publish_def by (rule with_owner_fields)
  then show thesis using that [OF b] publish_close by (simp add: Publish_def)
qed

lemma Close_quiet [simp]: "unheard s (snd (Close s))"
  by (simp add: Close_def unheard_def)

lemma udp_write_quiet:
  obtains err s' where "udp_write p s = Some (err, s')" and "unheard s s'" and "usSession s' = usSession s"
    and "usPending s' = usPending s" and "usReading s' = usReading s" and "usLooping s' = usLooping s"
    and "usInbound s' = usInbound s"
proof (cases "Encode p")
  case None
  then show thesis by (simp add: Encode_total)
next
  case (Some r)
  then show thesis using that by (cases r) (auto simp: udp_write_def unheard_def Let_def)
qed

lemma us_random_quiet: "us_random n s = (r, s') \<Longrightarrow> unheard s s'"
  by (auto simp: us_random_def unheard_def split: prod.splits sum.splits)

lemma nextTx_quiet: "nextTx s = (r, s') \<Longrightarrow> unheard s s'"
proof (induction s arbitrary: r s' rule: nextTx.induct)
  case (1 s)
  obtain q s1 where q: "us_random 8 s = (q, s1)" by fastforce
  then have "unheard s s1" by (rule us_random_quiet)
  with 1 q show ?case
    by (subst (asm) nextTx.simps) (auto simp: Let_def intro: unheard_trans split: sum.splits if_splits)
qed

section \<open>Receiving\<close>

text \<open>The operations return, and the state of the result keeps the invariant.\<close>

definition returns :: "('a \<Rightarrow> udpSender) \<Rightarrow> 'a option \<Rightarrow> bool" where
  "returns st m \<longleftrightarrow> (\<exists>x. m = Some x \<and> udp_ok (st x))"

lemma returns_Some [simp]: "returns st (Some x) \<longleftrightarrow> udp_ok (st x)"
  by (simp add: returns_def)

lemma returns_bind:
  "returns st m \<Longrightarrow> (\<And>x. m = Some x \<Longrightarrow> udp_ok (st x) \<Longrightarrow> returns st' (f x)) \<Longrightarrow> returns st' (m \<bind> f)"
  by (auto simp: returns_def)

lemma publish_ok:
  assumes "ring_ok s" and "close_ok (usOwner s)" and "heard_ok None (usEvents s @ [ev])"
    and "hear (foldl hear None (usEvents s)) ev = current (usRemote s)"
    and "rsStream (usRemote s) \<noteq> 0 \<Longrightarrow> remote_key (usRemote s) \<notin> set (recent s)"
  shows "udp_ok (owner_Publish ev s)"
proof -
  obtain c b where "owner_Publish ev s = s\<lparr>usEvents := usEvents s @ [ev], usOwner := c, usClosed := b\<rparr>" and "close_ok c"
    using assms(2) by (metis owner_Publish_fields)
  with assms show ?thesis by (simp add: udp_ok_def ring_ok_def tells_def recent_def)
qed

lemma publish_neutral:
  assumes "udp_ok s" and "ceKind ev \<in> {EventBusy, EventStatus, EventProtocolError}"
  shows "udp_ok (owner_Publish ev s)"
  using assms by (intro publish_ok) (auto simp: udp_ok_def tells_def heard_ok_snoc hear_def)

lemma protocolErrorEvent_returns: "\<exists>ev. protocolErrorEvent p = Some ev \<and> ceKind ev = EventProtocolError"
proof (cases "Find p TLVErrorCode")
  case None
  then show ?thesis
    by (cases "Find p TLVErrorText") (simp_all add: protocolErrorEvent_def newEvent_def Let_def)
next
  case (Some raw)
  obtain code where "length raw = 2 \<Longrightarrow> Uint16 raw = Some code" using Uint16_total [of raw] by (cases "length raw = 2") auto
  with Some show ?thesis
    by (cases "length raw = 2"; cases "Find p TLVErrorText") (simp_all add: protocolErrorEvent_def newEvent_def Let_def)
qed

lemma ack_quiet:
  obtains s' where "Sender_ack p s = Some s'" and "unheard s s'" and "usSession s' = usSession s"
    and "usPending s' = usPending s" and "usInbound s' = usInbound s"
proof (cases "Find p TLVTransactionID")
  case (Some raw)
  obtain err s' where "udp_write (ack_packet p (usSession s) raw) s = Some (err, s')" and "unheard s s'"
    and "usSession s' = usSession s" and "usPending s' = usPending s" and "usInbound s' = usInbound s"
    by (rule udp_write_quiet)
  then show thesis using that [of s'] by (simp add: Sender_ack_def Some)
qed (use that in \<open>simp add: Sender_ack_def\<close>)

text \<open>The packets that name a remote stream have a stream number.\<close>

lemma session_free_stream:
  assumes "Validate p c = None" and "hType (pHeader p) \<in> set session_free"
  shows "rkStream (packet_key p) \<noteq> 0"
  using assms unfolding Validate_None_iff
  by (auto simp: session_free_def packet_key_def rules_def rule_def rule_ok_def Let_def checkNumber_def split: if_splits)

lemma remote_key_eq: "remote_key r = packet_key p \<Longrightarrow> rkStream (packet_key p) \<noteq> 0 \<Longrightarrow> current r = Some (packet_key p)"
  by (auto simp: current_def remote_key_def packet_key_def)

lemma event_key_from_packet [simp]: "event_key (from_packet k p) = packet_key p" "ceKind (from_packet k p) = k"
  by (simp_all add: event_key_def from_packet_def packet_key_def newEvent_def)

definition publishes :: "(Event option \<times> udpSender) option \<Rightarrow> bool" where
  "publishes m \<longleftrightarrow> returns (\<lambda>(ev, s). case ev of None \<Rightarrow> s | Some ev \<Rightarrow> owner_Publish ev s) m"

lemma touch_quiet [simp]: "unheard s (touch_remote s)"
  by (simp add: touch_remote_def us_now_def unheard_def current_def remote_key_def)

lemma media_publishes:
  assumes "udp_ok s" and "remote_key (usRemote s) = packet_key p" and "rkStream (packet_key p) \<noteq> 0"
    and "event_key ev = packet_key p" and "ceKind ev = EventAudio \<or> ceKind ev = EventData"
  shows "udp_ok (owner_Publish ev (touch_remote s))"
proof -
  have ok: "udp_ok (touch_remote s)" by (rule unheard_ok [OF touch_quiet assms(1)])
  have "current (usRemote (touch_remote s)) = Some (packet_key p)"
    using touch_quiet [of s] remote_key_eq [OF assms(2,3)] by (simp add: unheard_def)
  with ok assms(4,5) show ?thesis
    by (intro publish_ok) (auto simp: udp_ok_def tells_def heard_ok_snoc hear_def)
qed

lemma on_audio_publishes: "udp_ok s \<Longrightarrow> rkStream (packet_key p) \<noteq> 0 \<Longrightarrow> publishes (on_audio p s)"
  by (simp add: publishes_def on_audio_def media_publishes)

lemma on_data_publishes:
  assumes "udp_ok s" and "rkStream (packet_key p) \<noteq> 0" and "wf_packet p"
  shows "publishes (on_data p s)"
proof (cases "Find p TLVDataType")
  case None
  with assms show ?thesis by (simp add: publishes_def on_data_def media_publishes)
next
  case (Some raw)
  then have "validateTLVValue TLVDataType raw = ok ()" by (rule Find_valid [OF assms(3)])
  then obtain v where v: "Uint16 raw = Some v" using Uint16_total [of raw] by (auto simp: validateTLVValue_def Let_def split: if_splits)
  have key: "event_key ((from_packet EventData p)\<lparr>ceDataType := v\<rparr>) = packet_key p"
    by (simp add: event_key_def from_packet_def packet_key_def)
  show ?thesis using assms Some media_publishes [OF assms(1) _ assms(2) key]
    by (simp add: publishes_def on_data_def v)
qed

text \<open>A new stream retires the one before it; a revocation retires the revoked one.\<close>

lemma push_recent_set: "set (push_recent key ks) \<subseteq> insert key (set ks)"
  by (auto simp: push_recent_def Let_def dest: in_set_dropD)

lemma retired_ok:
  assumes "udp_ok s"
  obtains a b c where "retireLocked key s = Some (s\<lparr>usRetired := a, usRetiredCount := b, usRetiredNext := c\<rparr>)"
    and "ring_ok (s\<lparr>usRetired := a, usRetiredCount := b, usRetiredNext := c\<rparr>)"
    and "set (recent (s\<lparr>usRetired := a, usRetiredCount := b, usRetiredNext := c\<rparr>)) \<subseteq> insert key (set (recent s))"
proof -
  have "ring_ok s" using assms by (simp add: udp_ok_def)
  then obtain a b c where "retireLocked key s = Some (s\<lparr>usRetired := a, usRetiredCount := b, usRetiredNext := c\<rparr>)"
    and "ring_ok (s\<lparr>usRetired := a, usRetiredCount := b, usRetiredNext := c\<rparr>)"
    and "recent (s\<lparr>usRetired := a, usRetiredCount := b, usRetiredNext := c\<rparr>) = push_recent key (recent s)"
    by (rule retireLocked_spec)
  with push_recent_set [of key "recent s"] show thesis using that by metis
qed

lemma on_stream_start_publishes:
  assumes "udp_ok s" and key: "rkStream (packet_key p) \<noteq> 0"
  shows "publishes (on_stream_start p s)"
proof -
  obtain s1 where s1: "Sender_ack p s = Some s1" "unheard s s1" by (rule ack_quiet)
  then have ok: "udp_ok s1" using assms(1) unheard_ok by blast
  then have ring: "ring_ok s1" and cl: "close_ok (usOwner s1)" and tells: "tells s1" by (simp_all add: udp_ok_def)
  show ?thesis
  proof (cases "remote_key (usRemote s1) = packet_key p \<or> packet_key p \<in> set (recent s1)")
    case True
    with ok s1(1) show ?thesis by (auto simp: publishes_def on_stream_start_def isRetiredLocked_spec [OF ring])
  next
    case False
    let ?r = "\<lparr>rsOwner = hSessionID (pHeader p), rsStream = hStreamID (pHeader p), rsLastMedia = usClock s1 (usReadings s1)\<rparr>"
    let ?ev = "(from_packet EventStreamStart p)\<lparr>ceNodeCallsign := trimmed p TLVNodeCallsign,
             ceSourceCallsign := trimmed p TLVSourceCallsign\<rparr>"
    obtain s2 where s2: "(if rsStream (usRemote s1) \<noteq> 0 then retireLocked (remote_key (usRemote s1)) s1 else Some s1) = Some s2"
      and r2: "ring_ok s2" "packet_key p \<notin> set (recent s2)" and same: "usOwner s2 = usOwner s1" "usEvents s2 = usEvents s1"
      "usClock s2 = usClock s1" "usReadings s2 = usReadings s1"
    proof (cases "rsStream (usRemote s1) = 0")
      case True
      with False ring show thesis using that [of s1] by simp
    next
      case F: False
      obtain a b c where r: "retireLocked (remote_key (usRemote s1)) s1 = Some (s1\<lparr>usRetired := a, usRetiredCount := b, usRetiredNext := c\<rparr>)"
        "ring_ok (s1\<lparr>usRetired := a, usRetiredCount := b, usRetiredNext := c\<rparr>)"
        "set (recent (s1\<lparr>usRetired := a, usRetiredCount := b, usRetiredNext := c\<rparr>)) \<subseteq> insert (remote_key (usRemote s1)) (set (recent s1))"
        using ok by (rule retired_ok)
      have "packet_key p \<notin> set (recent (s1\<lparr>usRetired := a, usRetiredCount := b, usRetiredNext := c\<rparr>))"
        by (rule contra_subsetD [OF r(3)]) (use False in auto)
      then show thesis using F r(1,2)
        by (intro that [of "s1\<lparr>usRetired := a, usRetiredCount := b, usRetiredNext := c\<rparr>"]) simp_all
    qed
    have "on_stream_start p s = Some (Some ?ev, s2\<lparr>usReadings := Suc (usReadings s1), usRemote := ?r\<rparr>)"
      using s1(1) s2 False same by (simp add: on_stream_start_def isRetiredLocked_spec [OF ring] us_now_def Let_def)
    moreover have "udp_ok (owner_Publish ?ev (s2\<lparr>usReadings := Suc (usReadings s1), usRemote := ?r\<rparr>))"
    proof (rule publish_ok)
      have "event_key ?ev = packet_key p" by (simp add: event_key_def from_packet_def newEvent_def packet_key_def)
      moreover have "current ?r = Some (packet_key p)" using key by (simp add: current_def remote_key_def packet_key_def)
      ultimately show "hear (foldl hear None (usEvents (s2\<lparr>usReadings := Suc (usReadings s1), usRemote := ?r\<rparr>))) ?ev =
          current (usRemote (s2\<lparr>usReadings := Suc (usReadings s1), usRemote := ?r\<rparr>))" by (simp add: hear_def)
    qed (use r2 same cl tells in \<open>simp_all add: ring_ok_def recent_def tells_def heard_ok_snoc remote_key_def packet_key_def\<close>)
    ultimately show ?thesis by (simp add: publishes_def)
  qed
qed

text \<open>Retiring a stream whose event ends it.\<close>

lemma end_publish:
  assumes "ring_ok s" and "close_ok (usOwner s)" and "heard_ok None (usEvents s)" and "foldl hear None (usEvents s) = cur"
    and "ceKind ev = EventStreamEnd" and "cur \<noteq> Some (event_key ev) \<Longrightarrow> current (usRemote s) = cur"
    and "cur = Some (event_key ev) \<Longrightarrow> current (usRemote s) = None"
    and "rsStream (usRemote s) \<noteq> 0 \<Longrightarrow> remote_key (usRemote s) \<notin> set (recent s)"
  shows "udp_ok (owner_Publish ev s)"
  using assms by (intro publish_ok) (auto simp: heard_ok_snoc hear_def)

lemma noRemote_current [simp]: "current noRemote = None" "rsStream noRemote = 0"
  by (simp_all add: noRemote_def current_def)

lemma on_stream_revoke_publishes:
  assumes "udp_ok s" and key: "rkStream (packet_key p) \<noteq> 0"
  shows "publishes (on_stream_revoke p s)"
proof -
  obtain s1 where s1: "Sender_ack p s = Some s1" "unheard s s1" by (rule ack_quiet)
  obtain own s2 where s2: "owner_revoke p s1 = (own, s2)" by fastforce
  have "unheard s1 s2" using s2 by (auto simp: owner_revoke_def unheard_def revoke_def close_ok_def split: if_splits)
  with s1(2) have ok: "udp_ok s2" using assms(1) unheard_ok by blast
  obtain a b c where r: "retireLocked (packet_key p) s2 = Some (s2\<lparr>usRetired := a, usRetiredCount := b, usRetiredNext := c\<rparr>)"
      "ring_ok (s2\<lparr>usRetired := a, usRetiredCount := b, usRetiredNext := c\<rparr>)"
      "set (recent (s2\<lparr>usRetired := a, usRetiredCount := b, usRetiredNext := c\<rparr>)) \<subseteq> insert (packet_key p) (set (recent s2))"
    using ok by (rule retired_ok)
  let ?s = "s2\<lparr>usRetired := a, usRetiredCount := b, usRetiredNext := c\<rparr>"
  have eq: "on_stream_revoke p s = Some (if remote_key (usRemote s2) \<noteq> packet_key p \<and> \<not> own then (None, ?s)
      else (Some (from_packet EventStreamEnd p), if remote_key (usRemote s2) = packet_key p then ?s\<lparr>usRemote := noRemote\<rparr> else ?s))"
    using s1 s2 r(1) by (simp add: on_stream_revoke_def)
  have tells: "tells s2" and cl: "close_ok (usOwner s2)" using ok by (simp_all add: udp_ok_def)
  show ?thesis
  proof (cases "remote_key (usRemote s2) = packet_key p")
    case True
    have "udp_ok (owner_Publish (from_packet EventStreamEnd p) (?s\<lparr>usRemote := noRemote\<rparr>))"
      using r(2) tells cl remote_key_eq [OF True key]
      by (intro end_publish [OF _ _ _ refl]) (simp_all add: ring_ok_def tells_def)
    with True show ?thesis by (simp add: publishes_def eq)
  next
    case False
    then have no: "rsStream (usRemote ?s) \<noteq> 0 \<Longrightarrow> remote_key (usRemote ?s) \<notin> set (recent ?s)"
      using r(3) tells unfolding tells_def by auto
    then have "udp_ok ?s" using r(2) tells cl by (simp add: udp_ok_def tells_def)
    moreover have "udp_ok (owner_Publish (from_packet EventStreamEnd p) ?s)"
      using r(2) tells cl False no
      by (intro end_publish [OF _ _ _ refl]) (auto simp: tells_def current_def split: if_splits)
    ultimately show ?thesis using False by (simp add: publishes_def eq)
  qed
qed

lemma expireRemote_returns:
  assumes "udp_ok s"
  shows "returns (\<lambda>s. s) (expireRemote now s)"
proof (cases "rsStream (usRemote s) = 0 \<or> Sub now (rsLastMedia (usRemote s)) \<le> 2 * Second")
  case True
  with assms show ?thesis by (simp add: expireRemote_def)
next
  case False
  obtain a b c where r: "retireLocked (remote_key (usRemote s)) s = Some (s\<lparr>usRetired := a, usRetiredCount := b, usRetiredNext := c\<rparr>)"
      "ring_ok (s\<lparr>usRetired := a, usRetiredCount := b, usRetiredNext := c\<rparr>)"
    using assms by (rule retired_ok)
  let ?ev = "(newEvent EventStreamEnd)\<lparr>ceSessionID := rsOwner (usRemote s), ceStreamID := rsStream (usRemote s),
    ceMessage := ''receive state expired''\<rparr>"
  have "current (usRemote s) = Some (event_key ?ev)"
    using False by (simp add: current_def remote_key_def event_key_def newEvent_def)
  then have "udp_ok (owner_Publish ?ev (s\<lparr>usRetired := a, usRetiredCount := b, usRetiredNext := c, usRemote := noRemote\<rparr>))"
    using r assms by (intro end_publish [OF _ _ _ refl]) (simp_all add: udp_ok_def ring_ok_def tells_def newEvent_def)
  with False r(1) show ?thesis by (simp add: expireRemote_def Let_def)
qed

lemma owner_remoteClose_quiet:
  assumes "close_ok (usOwner s)"
  obtains s' where "owner_remoteClose s = Some s'" and "unheard s s'" and "usPending s' = usPending s"
    and "usSession s' = usSession s" and "usInbound s' = usInbound s"
proof (cases "qcCloseCalled (usOwner s)")
  case True
  then show thesis using that [of "s\<lparr>usOwner := usOwner s\<rparr>"] by (simp add: owner_remoteClose_def remoteClose_def)
next
  case False
  with assms have "\<not> qcCloseDone (usOwner s)" by (simp add: close_ok_def)
  with False show thesis
    by (cases "usClosed s")
      (auto intro!: that simp: owner_remoteClose_def remoteClose_def Close_def close_finish_def quietly_def unheard_def close_ok_def)
qed

lemma deliver_response_quiet:
  assumes "wf_packet p"
  shows "\<exists>taken s'. deliver_response p s = Some (taken, s') \<and> unheard s s'"
proof (cases "Find p TLVTransactionID")
  case None
  then show ?thesis by (auto simp: deliver_response_def)
next
  case (Some raw)
  with assms obtain t where t: "Uint64 raw = Some t" using transaction_value by blast
  show ?thesis
    by (simp add: deliver_response_def Some t unheard_def Let_def split: option.split if_split) blast
qed

lemma process_packet_returns:
  assumes "udp_ok s" and "wf_packet p" and "Validate p c = None"
  shows "returns (\<lambda>s. s) (process_packet p s)"
proof (cases "hType (pHeader p) = PacketDisconnect")
  case True
  obtain s1 where s1: "Sender_ack p s = Some s1" "unheard s s1" by (rule ack_quiet)
  then have q: "unheard s (s1\<lparr>usLooping := False\<rparr>)" by (simp add: unheard_def)
  with assms(1) have "udp_ok (s1\<lparr>usLooping := False\<rparr>)" using unheard_ok by blast
  then have "close_ok (usOwner (s1\<lparr>usLooping := False\<rparr>))" by (simp add: udp_ok_def)
  then obtain s2 where "owner_remoteClose (s1\<lparr>usLooping := False\<rparr>) = Some s2" "unheard (s1\<lparr>usLooping := False\<rparr>) s2"
    by (rule owner_remoteClose_quiet)
  with True s1 q assms(1) show ?thesis by (simp add: process_packet_def) (metis unheard_trans unheard_ok)
next
  case False
  have key: "rkStream (packet_key p) \<noteq> 0" if "hType (pHeader p) \<in> set session_free"
    using assms(3) that by (rule session_free_stream)
  obtain ev where ev: "protocolErrorEvent p = Some ev" "ceKind ev = EventProtocolError"
    using protocolErrorEvent_returns by blast
  then have "udp_ok (owner_Publish ev s)" using assms(1) by (intro publish_neutral) simp_all
  then have "publishes (on_packet p s)"
    using assms(1,2) key ev by (simp add: on_packet_def session_free_def on_audio_publishes on_data_publishes
        on_stream_start_publishes on_stream_revoke_publishes Let_def) (simp add: publishes_def)
  with False show ?thesis
    unfolding process_packet_def publishes_def by (auto simp: returns_def split: option.splits)
qed

lemma process_data_returns:
  assumes "udp_ok s"
  shows "returns (\<lambda>s. s) (process_data data s)"
proof (cases data rule: Decode_cases)
  case (1 p)
  obtain taken s' where d: "deliver_response p s = Some (taken, s')" "unheard s s'"
    using deliver_response_quiet [OF 1(2)] by blast
  then have "udp_ok s'" using assms unheard_ok by blast
  with d(1) process_packet_returns [OF this 1(2)] assms show ?thesis by (simp add: process_data_def 1)
qed (use assms in \<open>simp add: process_data_def\<close>)

lemma loop_step_returns: "udp_ok s \<Longrightarrow> returns (\<lambda>s. s) (loop_step ev s)"
proof (cases ev)
  case (LRead data)
  have "unheard s (enqueueInbound data s)"
    by (simp add: enqueueInbound_def unheard_def split: prod.split bool.split)
  then show "udp_ok s \<Longrightarrow> ?thesis" using unheard_ok by (simp add: LRead)
next
  case (LReadError timeout err)
  have "unheard s (read_error timeout err s)"
    using unheard_owner_fail [of s err] by (simp add: read_error_def unheard_def)
  then show "udp_ok s \<Longrightarrow> ?thesis" using unheard_ok by (simp add: LReadError)
next
  case LTake
  have "unheard s (s\<lparr>usInbound := ch\<rparr>)" for ch by (simp add: unheard_def)
  then show "udp_ok s \<Longrightarrow> ?thesis" using unheard_ok process_data_returns by (simp add: LTake split: option.split) blast
next
  case LTick
  have "unheard s (s\<lparr>usReadings := n\<rparr>)" for n by (simp add: unheard_def)
  then show "udp_ok s \<Longrightarrow> ?thesis" using unheard_ok expireRemote_returns by (simp add: LTick us_now_def) blast
next
  case LDone
  have "unheard s (s\<lparr>usLooping := False\<rparr>)" by (simp add: unheard_def)
  then show "udp_ok s \<Longrightarrow> ?thesis" using unheard_ok by (simp add: LDone)
qed

section \<open>Requests and the calls of the sender\<close>

text \<open>A wait that returns and keeps the invariant makes the attempts do so.\<close>

abbreviation (input) state3 :: "'a \<times> 'b \<times> udpSender \<Rightarrow> udpSender" where "state3 \<equiv> (\<lambda>(_, _, s). s)"

lemma attempts_returns:
  assumes "\<And>evs s. udp_ok s \<Longrightarrow> returns state3 (wait evs s)"
  shows "udp_ok s \<Longrightarrow> returns state3 (attempts wait n p evs s)"
proof (induction n arbitrary: p evs s)
  case (Suc n)
  obtain err s1 where w: "udp_write p s = Some (err, s1)" "unheard s s1" by (rule udp_write_quiet)
  then have ok: "udp_ok s1" using Suc.prems unheard_ok by blast
  then obtain res evs' s2 where r: "wait evs s1 = Some (res, evs', s2)" "udp_ok s2"
    using assms [of s1 evs] by (auto simp: returns_def)
  show ?case
  proof (cases err)
    case None
    then show ?thesis using w r Suc.IH [OF r(2)] by simp
  qed (use w ok in simp)
qed simp

lemma returns_pair: "returns snd m \<Longrightarrow> \<exists>x s'. m = Some (x, s') \<and> udp_ok s'"
  by (cases m) (auto simp: returns_def)

lemma returns_triple: "returns state3 m \<Longrightarrow> \<exists>x evs s'. m = Some (x, evs, s') \<and> udp_ok s'"
  by (cases m) (auto simp: returns_def)

lemma returns_state: "returns snd m \<Longrightarrow> returns (\<lambda>s. s) (map_option snd m)"
  by (auto simp: returns_def)

lemma exchange_wait_returns: "udp_ok s \<Longrightarrow> returns state3 (exchange_wait want tx evs s)"
proof (induction want tx evs s rule: exchange_wait.induct)
  case (5 want tx d evs s)
  show ?case
  proof (cases d rule: Decode_cases)
    case (1 reply)
    have "\<exists>good. exchange_accepts want tx s reply = Some good"
    proof (cases "Find reply TLVTransactionID")
      case (Some raw)
      with 1(2) obtain t where "Uint64 raw = Some t" using transaction_value by blast
      with Some show ?thesis by (auto simp: exchange_accepts_def)
    qed (auto simp: exchange_accepts_def)
    then obtain good where "exchange_accepts want tx s reply = Some good" by blast
    with 5 1 show ?thesis by (cases good) auto
  qed (use 5 in auto)
qed auto

lemma request_reply_returns:
  assumes "udp_ok s"
  shows "returns snd (request_reply wants reply s)"
proof -
  obtain ev where "protocolErrorEvent reply = Some ev" "ceKind ev = EventProtocolError"
    using protocolErrorEvent_returns by blast
  with publish_neutral [OF assms, of ev] assms show ?thesis by (simp add: request_reply_def)
qed

lemma take_response_quiet: "take_response key s = Some (reply, s') \<Longrightarrow> unheard s s'"
  by (auto simp: take_response_def unheard_def split: option.splits)

lemma request_wait_returns: "udp_ok s \<Longrightarrow> returns state3 (request_wait key wants evs s)"
proof (induction key wants evs s rule: request_wait.induct)
  case (4 key wants ev evs s)
  from loop_step_returns [OF 4(2)] obtain s' where "loop_step ev s = Some s'" "udp_ok s'" by (auto simp: returns_def)
  with 4(1) show ?case by simp
next
  case (5 key wants evs s)
  show ?case
  proof (cases "take_response key s")
    case (Some x)
    obtain reply s' where x: "x = (reply, s')" by fastforce
    then have "udp_ok s'" using Some take_response_quiet unheard_ok 5(2) by blast
    from request_reply_returns [OF this, of wants reply] show ?thesis
      by (auto simp: Some x returns_def)
  qed (use 5 in simp)
qed auto

lemma request_returns:
  assumes "udp_ok s" and "Find p TLVTransactionID = Some (PutUint64 t)"
  shows "returns state3 (request p wants evs s)"
proof (cases "try_send (usControlTokens s) ()")
  case (Pair b tokens)
  let ?key = "\<lparr>rqTx = t, rqStream = hStreamID (pHeader p)\<rparr>"
  let ?s = "s\<lparr>usControlTokens := tokens,
    usPending := AList.update ?key \<lparr>rqResponses = make_chan 1, rqTypes = PacketError # wants\<rparr> (usPending s)\<rparr>"
  have "unheard s ?s" by (simp add: unheard_def)
  with assms(1) have "udp_ok ?s" using unheard_ok by blast
  then have "returns state3 (attempts (request_wait ?key wants) 4 p evs ?s)"
    by (intro attempts_returns request_wait_returns)
  then obtain res evs' s' where r: "attempts (request_wait ?key wants) 4 p evs ?s = Some (res, evs', s')" "udp_ok s'"
    by (auto simp: returns_def)
  have "unheard s' (s'\<lparr>usPending := x, usControlTokens := y\<rparr>)" for x y by (simp add: unheard_def)
  with r(2) have fin: "udp_ok (s'\<lparr>usPending := x, usControlTokens := y\<rparr>)" for x y using unheard_ok by blast
  show ?thesis
  proof (cases b)
    case True
    with r fin assms(2) Pair show ?thesis by (simp add: request_def Let_def)
  next
    case False
    with Pair unheard_ok [OF unheard_owner_fail assms(1)] show ?thesis by (simp add: request_def)
  qed
qed

lemma client_packet_tx [simp]:
  "Find (client_packet k sid st (Uint64TLV TLVTransactionID tx # ext)) TLVTransactionID = Some (PutUint64 tx)"
  by (simp add: Find_def client_packet_def Uint64TLV_def tlv_def baseTLV_def)

lemma with_tx_returns:
  assumes "udp_ok s" and "\<And>tx s. udp_ok s \<Longrightarrow> returns snd (f tx s)"
  shows "returns snd (with_tx f s)"
proof -
  obtain r s' where n: "nextTx s = (r, s')" by fastforce
  with assms(1) have "udp_ok s'" using nextTx_quiet unheard_ok by blast
  with assms(2) n show ?thesis by (simp add: with_tx_def split: sum.split)
qed

lemma handshake_keepalive_returns:
  assumes "udp_ok s"
  shows "returns snd (handshake_keepalive evs s)"
proof -
  obtain r s1 where n: "nextTx s = (r, s1)" by fastforce
  with assms have ok: "udp_ok s1" using nextTx_quiet unheard_ok by blast
  have fin: "udp_ok s2 \<Longrightarrow> udp_ok (s2\<lparr>usReading := True, usLooping := True\<rparr>)" for s2
    by (rule unheard_ok) (simp_all add: unheard_def)
  show ?thesis
  proof (cases r)
    case (Inr tx)
    have "returns state3 (exchange (keepalive_packet (usSession s1) tx) PacketKeepalive tx evs s1)"
      unfolding exchange_def using ok by (intro attempts_returns exchange_wait_returns)
    from returns_triple [OF this] obtain res evs' s2 where
      "exchange (keepalive_packet (usSession s1) tx) PacketKeepalive tx evs s1 = Some (res, evs', s2)" "udp_ok s2" by blast
    with n Inr fin show ?thesis by (simp add: handshake_keepalive_def)
  qed (use n ok in \<open>simp add: handshake_keepalive_def\<close>)
qed

lemma client_handshake_returns:
  assumes "udp_ok s"
  shows "returns snd (client_handshake evs s)"
proof (cases "Callsign (usUnicode s) (clNodeCallsign (usOptions s))")
  case (Inr node)
  obtain r1 s1 where r1: "us_random 32 s = (r1, s1)" by fastforce
  with assms have ok1: "udp_ok s1" using us_random_quiet unheard_ok by blast
  obtain r2 s2 where r2: "nextTx s1 = (r2, s2)" by fastforce
  with ok1 have ok2: "udp_ok s2" using nextTx_quiet unheard_ok by blast
  have ex: "\<exists>res evs' s'. exchange p want tx evs s = Some (res, evs', s') \<and> udp_ok s'" if "udp_ok s" for p want tx evs s
  proof -
    have "returns state3 (exchange p want tx evs s)"
      unfolding exchange_def using that by (intro attempts_returns exchange_wait_returns)
    then show ?thesis by (auto simp: returns_def)
  qed
  show ?thesis
  proof (cases r1)
    case Nonce: (Inr nonce)
    show ?thesis
    proof (cases r2)
      case Tx: (Inr tx)
      from ex [OF ok2] obtain res evs1 s3 where
        e1: "exchange (hello_packet tx node nonce) PacketChallenge tx evs s2 = Some (res, evs1, s3)" "udp_ok s3" by blast
      show ?thesis
      proof (cases res)
        case (Got reply)
        from ex [OF e1(2)] obtain res2 evs2 s4 where
          e2: "exchange (authenticate_packet (clSharedKey (usOptions s3)) tx node nonce reply) PacketWelcome tx evs1 s3 =
            Some (res2, evs2, s4)" "udp_ok s4" by blast
        have "udp_ok (s4\<lparr>usSession := sid\<rparr>)" for sid by (rule unheard_ok [OF _ e2(2)]) (simp add: unheard_def)
        then have "returns snd (handshake_keepalive evs2 (s4\<lparr>usSession := sid\<rparr>))" for sid
          by (rule handshake_keepalive_returns)
        with Inr r1 r2 Nonce Tx e1 e2 Got show ?thesis by (cases res2) (simp_all add: client_handshake_def)
      qed (use Inr r1 r2 Nonce Tx e1 in \<open>simp_all add: client_handshake_def\<close>)
    qed (use Inr r1 r2 Nonce ok2 in \<open>simp add: client_handshake_def\<close>)
  qed (use Inr r1 ok1 in \<open>simp add: client_handshake_def\<close>)
qed (use assms in \<open>simp add: client_handshake_def\<close>)

text \<open>Each call is a request with a fresh transaction, followed by what the caller does with the result.\<close>

lemma request_then:
  assumes "udp_ok s" and "Find p TLVTransactionID = Some (PutUint64 t)"
    and "\<And>res evs' s'. udp_ok s' \<Longrightarrow> returns snd (g res evs' s')"
  shows "returns snd (do { (res, evs, s) \<leftarrow> request p wants evs s; g res evs s })"
  by (rule returns_bind [OF request_returns [OF assms(1,2)]]) (use assms(3) in \<open>auto split: prod.splits\<close>)

lemma Send_returns:
  assumes "udp_ok s"
  shows "returns snd (Send out xs rs s)"
proof -
  have "returns snd (with_tx (\<lambda>tx s. do { (res, _, s) \<leftarrow> request (keepalive_packet (usSession s) tx) [PacketKeepalive] rs s;
      Some (failure res, s) }) s)"
    using assms by (rule with_tx_returns, unfold keepalive_packet_def) (rule request_then, auto)
  moreover obtain err s' where "udp_write (media_packet out (usSession s)) s = Some (err, s')" "unheard s s'"
    by (rule udp_write_quiet)
  ultimately show ?thesis
    using assms unheard_ok [of s s'] client_handshake_returns [OF assms] by (simp add: Send_def)
qed

lemma Sender_RequestFloor_returns:
  assumes "udp_ok s"
  shows "returns snd (Sender_RequestFloor out rs s)"
proof -
  have "udp_ok s \<Longrightarrow> udp_ok (owner_Publish ((newEvent EventBusy)\<lparr>ceSessionID := a, ceStreamID := b, ceMessage := c\<rparr>) s)" for a b c s
    by (rule publish_neutral) (simp_all add: newEvent_def)
  then show ?thesis
    unfolding Sender_RequestFloor_def using assms
    by (auto split: sum.split intro!: with_tx_returns request_then split: outcome.split)
qed

lemma EndFloor_returns: "udp_ok s \<Longrightarrow> returns snd (EndFloor out rs s)"
  unfolding EndFloor_def Let_def
  by (rule with_tx_returns, assumption, rule request_then) (auto simp: client_packet_def Find_def Uint64TLV_def tlv_def baseTLV_def)

lemma Sender_Disconnect_returns:
  assumes "udp_ok s"
  shows "returns snd (Sender_Disconnect rs s)"
proof -
  have "udp_ok (s\<lparr>usClosing := True\<rparr>)" by (rule unheard_ok [OF _ assms]) (simp add: unheard_def)
  then show ?thesis
    unfolding Sender_Disconnect_def using assms by (auto intro!: with_tx_returns request_then)
qed

lemma keepalive_round_returns:
  assumes "udp_ok s"
  shows "returns snd (keepalive_round xs rs s)"
proof -
  obtain res s' where "Send (newOutbound EventStatus) xs rs s = Some (res, s')" "udp_ok s'"
    using returns_pair [OF Send_returns [OF assms]] by blast
  then show ?thesis
    using assms unheard_ok [OF unheard_owner_fail] by (simp add: keepalive_round_def split: outcome.split)
qed

lemma owner_step_ok:
  assumes "udp_ok s"
  shows "udp_ok (owner_step ev t s)"
proof (cases "client_do ev ((start_world (usOwner s))\<lparr>wThreads := [t]\<rparr>)")
  case None
  with assms show ?thesis by (simp add: owner_step_def)
next
  case (Some w)
  obtain b where "with_owner (wClient w, wCalls w) s = s\<lparr>usOwner := wClient w, usClosed := b\<rparr>"
    using with_owner_fields [of "(wClient w, wCalls w)" s] by auto
  then have "unheard s (with_owner (wClient w, wCalls w) s)" if "close_ok (wClient w)" using that by (simp add: unheard_def)
  with assms Some show ?thesis using unheard_ok by (auto simp: owner_step_def close_ok_def)
qed

section \<open>Every run\<close>

lemma udp_do_returns: "udp_ok s \<Longrightarrow> returns (\<lambda>s. s) (udp_do ev s)"
proof (cases ev)
  case UClose
  then show "udp_ok s \<Longrightarrow> ?thesis" using unheard_ok [OF Close_quiet] by simp
next
  case (ULoop e)
  then show "udp_ok s \<Longrightarrow> ?thesis" using loop_step_returns by simp
next
  case (UOwner e t)
  then show "udp_ok s \<Longrightarrow> ?thesis" using owner_step_ok by simp
qed (simp_all add: returns_state Send_returns Sender_RequestFloor_returns EndFloor_returns Sender_Disconnect_returns
    keepalive_round_returns)

lemma NewUDP_ok:
  assumes "Client_NewUDP q conn cl clk rnd uni = Inr s"
  shows "udp_ok s"
proof -
  obtain c where "New (Options_defaults q) (Some udp_interfaces) = Inr c" "usOwner s = c" "usRetired s = replicate 8 zeroKey"
    "usRetiredCount s = 0" "usRetiredNext s = 0" "usRemote s = noRemote" "usEvents s = []"
    using assms by (auto simp: Client_NewUDP_def Let_def split: option.splits sum.splits)
  moreover from this(1) have "\<not> qcCloseDone c" by (auto simp: New_def Let_def split: option.splits if_splits)
  ultimately show ?thesis
    by (simp add: udp_ok_def ring_ok_def close_ok_def tells_def noRemote_current)
qed

definition udp_init :: "udpSender option \<Rightarrow> bool" where
  "udp_init s \<longleftrightarrow> (\<exists>q conn cl clk rnd uni c. Client_NewUDP q conn cl clk rnd uni = Inr c \<and> s = Some c)"

definition udp_inv :: "udpSender option \<Rightarrow> bool" where
  "udp_inv s \<longleftrightarrow> returns (\<lambda>s. s) s"

interpretation udp: machine udp_init udp_step udp_inv
proof
  show "udp_init s \<Longrightarrow> udp_inv s" for s
    using NewUDP_ok by (auto simp: udp_init_def udp_inv_def)
  show "udp_inv s \<Longrightarrow> udp_inv (udp_step s ev)" for s ev
    using udp_do_returns by (auto simp: udp_inv_def udp_step_def returns_def)
qed

lemma udp_running:
  assumes "Client_NewUDP q conn cl clk rnd uni = Inr c"
  obtains s where "run udp_step (Some c) evs = Some s" and "udp_ok s"
proof -
  have "udp_inv (run udp_step (Some c) evs)"
    by (rule udp.inv_reachable) (use assms in \<open>unfold udp_init_def, blast\<close>)
  then show thesis using that by (auto simp: udp_inv_def returns_def)
qed

end
