(* ===== verification/ClientProps.thy ===== *)
theory ClientProps
  imports UdpClientLaws
begin

text \<open>
  The correctness properties of the client library: \<^verbatim>\<open>client.go\<close> under every interleaving of its
  calls, and the UDP sender of \<^verbatim>\<open>udp.go\<close>.
\<close>

section \<open>Replies of requests\<close>

text \<open>What the loops do not touch while a request waits.\<close>

definition still :: "udpSender \<Rightarrow> udpSender \<Rightarrow> bool" where
  "still s s' \<longleftrightarrow> usSession s' = usSession s \<and> usPending s' = usPending s \<and> usInbound s' = usInbound s"

lemma still_refl [simp]: "still s s" by (simp add: still_def)

lemma still_trans [trans]: "still s s' \<Longrightarrow> still s' s'' \<Longrightarrow> still s s''" by (simp add: still_def)

lemma still_write: "udp_write p s = Some (err, s') \<Longrightarrow> still s s'"
  by (auto simp: udp_write_def still_def Let_def split: option.splits sum.splits if_splits)

lemma still_ack: "Sender_ack p s = Some s' \<Longrightarrow> still s s'"
  by (auto simp: Sender_ack_def bind_eq_Some_conv dest: still_write split: option.splits)

lemma still_retire: "retireLocked key s = Some s' \<Longrightarrow> still s s'"
  by (auto simp: retireLocked_def put_retired_def still_def bind_eq_Some_conv split: if_splits)

lemma still_with_owner: "still s s1 \<Longrightarrow> still s (with_owner r s1)"
  by (auto simp: with_owner_def Close_def still_def Let_def)

lemma still_publish [simp]: "still s (owner_Publish ev s)"
  unfolding owner_Publish_def by (rule still_with_owner) (simp add: still_def)

lemma still_fail [simp]: "still s (owner_fail err s)"
  unfolding owner_fail_def by (rule still_with_owner) simp

lemma still_remoteClose: "owner_remoteClose s = Some s' \<Longrightarrow> still s s'"
  by (auto simp: owner_remoteClose_def remoteClose_def Close_def still_def close_finish_def quietly_def Let_def split: if_splits)

lemma still_on_audio: "on_audio p s = Some (ev, s') \<Longrightarrow> still s s'"
  by (auto simp: on_audio_def touch_remote_def us_now_def still_def split: if_splits)

lemma still_on_data: "on_data p s = Some (ev, s') \<Longrightarrow> still s s'"
  by (auto simp: on_data_def touch_remote_def us_now_def still_def bind_eq_Some_conv split: if_splits option.splits)

lemma still_on_stream_start:
  assumes "on_stream_start p s = Some (ev, s')"
  shows "still s s'"
proof -
  obtain s1 where s1: "Sender_ack p s = Some s1" using assms by (auto simp: on_stream_start_def bind_eq_Some_conv)
  have "still s1 s'"
    using assms by (auto simp: on_stream_start_def s1 bind_eq_Some_conv us_now_def Let_def split: if_splits dest!: still_retire)
      (simp_all add: still_def)
  with still_ack [OF s1] show ?thesis by (rule still_trans)
qed

lemma still_on_stream_revoke:
  assumes "on_stream_revoke p s = Some (ev, s')"
  shows "still s s'"
proof -
  obtain s1 where s1: "Sender_ack p s = Some s1" using assms by (auto simp: on_stream_revoke_def bind_eq_Some_conv)
  obtain own s2 where s2: "owner_revoke p s1 = (own, s2)" by fastforce
  then have "still s1 s2" by (auto simp: owner_revoke_def still_def split: if_splits prod.splits)
  moreover obtain s3 where "retireLocked (packet_key p) s2 = Some s3" "still s3 s'"
    using assms by (auto simp: on_stream_revoke_def s1 s2 bind_eq_Some_conv Let_def split: if_splits) (simp_all add: still_def)
  ultimately show ?thesis using still_ack [OF s1] still_retire still_trans by blast
qed

lemma still_process_packet:
  assumes "process_packet p s = Some s'"
  shows "still s s'"
proof (cases "hType (pHeader p) = PacketDisconnect")
  case True
  with assms obtain s1 where s1: "Sender_ack p s = Some s1" "owner_remoteClose (s1\<lparr>usLooping := False\<rparr>) = Some s'"
    by (auto simp: process_packet_def bind_eq_Some_conv)
  have "still s1 (s1\<lparr>usLooping := False\<rparr>)" by (simp add: still_def)
  with still_ack [OF s1(1)] still_remoteClose [OF s1(2)] show ?thesis using still_trans by blast
next
  case False
  with assms obtain ev s1 where r: "on_packet p s = Some (ev, s1)" "s' = (case ev of None \<Rightarrow> s1 | Some ev \<Rightarrow> owner_Publish ev s1)"
    by (auto simp: process_packet_def bind_eq_Some_conv)
  from r(1) have "still s s1"
    by (auto simp: on_packet_def Let_def bind_eq_Some_conv split: if_splits
        intro: still_on_audio still_on_data still_on_stream_start still_on_stream_revoke)
  moreover have "still s1 s'" using r(2) by (simp split: option.split)
  ultimately show ?thesis by (rule still_trans)
qed

lemma still_expire:
  assumes "expireRemote now s = Some s'"
  shows "still s s'"
proof (cases "s' = s")
  case False
  let ?ev = "(newEvent EventStreamEnd)\<lparr>ceSessionID := rsOwner (usRemote s), ceStreamID := rsStream (usRemote s),
    ceMessage := ''receive state expired''\<rparr>"
  from False assms obtain s1 where r: "retireLocked (remote_key (usRemote s)) s = Some s1"
      "s' = owner_Publish ?ev (s1\<lparr>usRemote := noRemote\<rparr>)"
    by (auto simp: expireRemote_def Let_def bind_eq_Some_conv split: if_splits)
  have "still s1 (s1\<lparr>usRemote := noRemote\<rparr>)" by (simp add: still_def)
  with still_retire [OF r(1)] still_publish show ?thesis unfolding r(2) using still_trans by blast
qed simp

text \<open>
  A packet that reply_to a request: it came in a datagram, it is a valid packet of the session
  from the server, and it carries the transaction and the stream of the request.
\<close>

definition reply_to :: "requestKey \<Rightarrow> PacketType list \<Rightarrow> u64 \<Rightarrow> bytes set \<Rightarrow> Packet \<Rightarrow> bool" where
  "reply_to key types sid ds p \<longleftrightarrow>
     p \<in> {q. ok q \<in> Decode ` ds} \<and> Validate p \<lparr>cDirection = ServerToClient, cPhase = Ready\<rparr> = None \<and>
     hType (pHeader p) \<in> set types \<and> hSessionID (pHeader p) = sid \<and> hStreamID (pHeader p) = rqStream key \<and>
     Find p TLVTransactionID = Some (PutUint64 (rqTx key))"

definition waiting :: "requestKey \<Rightarrow> PacketType list \<Rightarrow> u64 \<Rightarrow> bytes set \<Rightarrow> udpSender \<Rightarrow> bool" where
  "waiting key types sid ds s \<longleftrightarrow> usSession s = sid \<and> set (ch_items (usInbound s)) \<subseteq> ds \<and>
     (\<forall>pr. map_of (usPending s) key = Some pr \<longrightarrow>
        rqTypes pr = types \<and> (\<forall>p \<in> set (ch_items (rqResponses pr)). reply_to key types sid ds p))"

lemma waiting_still: "waiting key types sid ds s \<Longrightarrow> still s s' \<Longrightarrow> waiting key types sid ds s'"
  by (simp add: waiting_def still_def)

lemma try_send_items: "set (ch_items (snd (try_send ch x))) \<subseteq> insert x (set (ch_items ch))"
  by (auto simp: channel.send_items)

lemma waiting_deliver:
  assumes w: "waiting key types sid ds s" and p: "d \<in> ds" "Decode d = ok p"
    and v: "Validate p \<lparr>cDirection = ServerToClient, cPhase = Ready\<rparr> = None"
    and d: "deliver_response p s = Some (taken, s')"
  shows "waiting key types sid ds s'"
proof (cases "Find p TLVTransactionID")
  case None
  with w d show ?thesis by (simp add: deliver_response_def)
next
  case (Some raw)
  have wf: "wf_packet p" using Decode_canonical [OF p(2)] by simp
  then have len: "length raw = 8" using Some by (rule Find_TransactionID_length)
  obtain t where t: "Uint64 raw = Some t" using transaction_value [OF wf Some] by blast
  then have raw: "raw = PutUint64 t" using Put_Uint64 [OF len] by simp
  let ?key = "\<lparr>rqTx = t, rqStream = hStreamID (pHeader p)\<rparr>"
  show ?thesis
  proof (cases "s' = s")
    case False
    then obtain pr where pr: "hSessionID (pHeader p) = usSession s" "map_of (usPending s) ?key = Some pr"
        "hType (pHeader p) \<in> set (rqTypes pr)"
        "s' = s\<lparr>usPending := AList.update ?key (pr\<lparr>rqResponses := snd (try_send (rqResponses pr) p)\<rparr>) (usPending s)\<rparr>"
      using d by (auto simp: deliver_response_def Some t Let_def split: option.splits if_splits)
    have "ok p \<in> Decode ` ds" using p by (metis imageI)
    then have "reply_to key types sid ds p" if "?key = key"
      using w that pr Some v raw by (auto simp: waiting_def reply_to_def)
    then show ?thesis
      using w pr(2,4) try_send_items [of "rqResponses pr" p] by (auto simp: waiting_def AList.update_conv')
  qed (use w in simp)
qed

lemma waiting_loop_step:
  assumes w: "waiting key types sid ds s" and ev: "ev \<notin> LRead ` (- ds)" and step: "loop_step ev s = Some s'"
  shows "waiting key types sid ds s'"
proof (cases ev)
  case (LRead data)
  with ev have "data \<in> ds" by auto
  with w show ?thesis using step try_send_items [of "usInbound s" data]
    by (auto simp: LRead enqueueInbound_def waiting_def split: if_splits prod.splits bool.splits)
next
  case (LReadError timeout err)
  have "still s (read_error timeout err s)" using still_fail [of s err] by (simp add: read_error_def still_def)
  then have "still s s'" using step by (auto simp: LReadError split: if_splits)
  with w show ?thesis by (rule waiting_still)
next
  case LTake
  show ?thesis
  proof (cases "usLooping s \<and> ch_items (usInbound s) \<noteq> []")
    case True
    then obtain data rest where items: "ch_items (usInbound s) = data # rest" by (cases "ch_items (usInbound s)") auto
    let ?s = "s\<lparr>usInbound := (usInbound s)\<lparr>ch_items := rest\<rparr>\<rparr>"
    have step: "process_data data ?s = Some s'" using step True items by (simp add: LTake try_recv_def)
    have w': "waiting key types sid ds ?s" and data: "data \<in> ds" using w items by (auto simp: waiting_def)
    show ?thesis
    proof (cases data rule: Decode_cases)
      case (1 p)
      show ?thesis
      proof (cases "Validate p \<lparr>cDirection = ServerToClient, cPhase = Ready\<rparr> \<noteq> None \<or>
          hType (pHeader p) \<notin> set session_free \<and> hSessionID (pHeader p) \<noteq> usSession ?s")
        case False
        with step 1 obtain taken s1 where s1: "deliver_response p ?s = Some (taken, s1)"
          "taken \<and> s' = s1 \<or> process_packet p s1 = Some s'"
          by (auto simp: process_data_def bind_eq_Some_conv split: if_splits)
        have "waiting key types sid ds s1" using w' data 1(1) _ s1(1) by (rule waiting_deliver) (use False in simp)
        then show ?thesis using s1(2) still_process_packet waiting_still by blast
      qed (use w' step 1 in \<open>auto simp: process_data_def split: if_splits\<close>)
    qed (use w' step in \<open>auto simp: process_data_def\<close>)
  qed (use w step in \<open>auto simp: LTake try_recv_def split: if_splits list.splits\<close>)
next
  case LTick
  have "still s (s\<lparr>usReadings := Suc (usReadings s)\<rparr>)" by (simp add: still_def)
  then have "still s s'" using step still_trans [OF _ still_expire] by (simp add: LTick us_now_def split: if_splits)
  with w show ?thesis by (rule waiting_still)
qed (use w step in \<open>auto simp: waiting_def split: if_splits\<close>)

text \<open>Along the attempts, each datagram that was read is in \<open>ds\<close>.\<close>

definition reads :: "request_event list \<Rightarrow> bytes set" where
  "reads evs = {d. RLoop (LRead d) \<in> set evs}"

definition good_reply :: "requestKey \<Rightarrow> PacketType list \<Rightarrow> u64 \<Rightarrow> bytes set \<Rightarrow> Packet outcome \<Rightarrow> bool" where
  "good_reply key wants sid ds res \<longleftrightarrow>
     (\<forall>reply. res = Got reply \<longrightarrow> reply_to key (PacketError # wants) sid ds reply \<and> hType (pHeader reply) \<in> set wants)"

lemma waiting_take:
  assumes "waiting key types sid ds s" and "take_response key s = Some (reply, s')"
  shows "reply_to key types sid ds reply \<and> waiting key types sid ds s'"
  using assms by (auto simp: take_response_def waiting_def try_recv_def AList.update_conv' split: option.splits list.splits)

lemma waiting_request_wait:
  "waiting key (PacketError # wants) sid ds s \<Longrightarrow> reads evs \<subseteq> ds \<Longrightarrow> request_wait key wants evs s = Some (res, evs', s') \<Longrightarrow>
    good_reply key wants sid ds res \<and> (res = Retry \<longrightarrow> waiting key (PacketError # wants) sid ds s' \<and> reads evs' \<subseteq> ds)"
proof (induction key wants evs s rule: request_wait.induct)
  case (4 key wants ev evs s)
  then obtain s1 where s1: "loop_step ev s = Some s1" "request_wait key wants evs s1 = Some (res, evs', s')"
    by (auto simp: bind_eq_Some_conv)
  have "ev \<notin> LRead ` (- ds)" and "reads evs \<subseteq> ds" using 4(3) by (auto simp: reads_def)
  then show ?case using 4(1) [OF s1(1) _ _ s1(2)] waiting_loop_step [OF 4(2) _ s1(1)] by blast
next
  case (5 key wants evs s)
  show ?case
  proof (cases "take_response key s")
    case None
    with 5 show ?thesis by (auto simp: reads_def)
  next
    case (Some x)
    obtain reply s1 where x: "x = (reply, s1)" by fastforce
    from 5(4) Some x obtain s2 where "request_reply wants reply s1 = Some (res, s2)" by (auto simp: bind_eq_Some_conv)
    then show ?thesis using waiting_take [OF 5(2)] Some x
      by (auto simp: request_reply_def good_reply_def bind_eq_Some_conv split: if_splits)
  qed
qed (auto simp: good_reply_def reads_def)

lemma waiting_attempts:
  "waiting key (PacketError # wants) sid ds s \<Longrightarrow> reads evs \<subseteq> ds \<Longrightarrow>
    attempts (request_wait key wants) n p evs s = Some (res, evs', s') \<Longrightarrow> good_reply key wants sid ds res"
proof (induction n arbitrary: p evs s)
  case (Suc n)
  then obtain err s1 where w: "udp_write p s = Some (err, s1)" by (auto simp: bind_eq_Some_conv)
  then have w1: "waiting key (PacketError # wants) sid ds s1" using Suc.prems(1) still_write waiting_still by blast
  show ?case
  proof (cases err)
    case None
    then obtain r evs1 s2 where r: "request_wait key wants evs s1 = Some (r, evs1, s2)"
      "if r = Retry then attempts (request_wait key wants) n (with_retry p) evs1 s2 = Some (res, evs', s') else res = r"
      using Suc.prems(3) w by (auto simp: bind_eq_Some_conv split: if_splits)
    from waiting_request_wait [OF w1 Suc.prems(2) r(1)] r(2) show ?thesis
      using Suc.IH by (auto split: if_splits)
  qed (use Suc.prems(3) w in \<open>auto simp: good_reply_def\<close>)
qed (auto simp: good_reply_def)

lemma request_good:
  assumes "request p wants evs s = Some (res, evs', s')" and "Find p TLVTransactionID = Some (PutUint64 t)"
  shows "good_reply \<lparr>rqTx = t, rqStream = hStreamID (pHeader p)\<rparr> wants (usSession s)
    (set (ch_items (usInbound s)) \<union> reads evs) res"
proof (cases "try_send (usControlTokens s) ()")
  case (Pair b tokens)
  let ?key = "\<lparr>rqTx = t, rqStream = hStreamID (pHeader p)\<rparr>"
  let ?s = "s\<lparr>usControlTokens := tokens,
    usPending := AList.update ?key \<lparr>rqResponses = make_chan 1, rqTypes = PacketError # wants\<rparr> (usPending s)\<rparr>"
  show ?thesis
  proof (cases b)
    case True
    then obtain s1 where r: "attempts (request_wait ?key wants) 4 p evs ?s = Some (res, evs', s1)"
      using assms Pair by (auto simp: request_def Let_def bind_eq_Some_conv)
    have "waiting ?key (PacketError # wants) (usSession s) (set (ch_items (usInbound s)) \<union> reads evs) ?s"
      by (simp add: waiting_def AList.update_conv' make_chan_def)
    from waiting_attempts [OF this _ r] show ?thesis by simp
  qed (use assms Pair in \<open>auto simp: request_def good_reply_def\<close>)
qed

section \<open>A client to evaluate\<close>

definition demo_client_options :: Options where
  "demo_client_options = \<lparr>clServerAddress = ''127.0.0.1:5000'', clNodeCallsign = ''N0CALL'', clSharedKey = ''secret'',
     clInboundQueuePackets = 4, clApplicationQueueEvents = 4, clMediaSendQueueFrames = 4, clControlSendQueuePackets = 2,
     clConnectTimeout = 0, clOperationTimeout = 0\<rparr>"

definition demo_client :: QueueClient where
  "demo_client = projr (New demo_client_options (Some udp_interfaces))"

definition demo_udp :: udpSender where
  "demo_udp = projr (Client_NewUDP demo_client_options (\<lambda>_. None) None (\<lambda>n. int n) (replicate 64 7) (\<lambda>s. s))"

definition fine :: answer where
  "fine = \<lparr>anErr = None, anContext = None, anDone = False\<rparr>"

text \<open>Connect, request a stream, send two frames and end the stream.\<close>

definition demo_talk_events :: "client_event list" where
  "demo_talk_events = [CConnect, CResume 0 fine, CResume 0 fine, CResume 0 fine, CRequestStream ''N0CALL'', CResume 2 fine,
     CResume 2 fine, CResume 2 fine, CResume 2 fine, CSendAudio 960 [1], CSendAudio 1920 [2], CEndStream,
     CResume 1 fine, CResume 1 fine, CResume 1 fine, CResume 1 fine, CResume 1 fine, CResume 1 fine, CResume 1 fine, CResume 1 fine, CResume 3 fine, CResume 3 fine]"

lemma demo_client_New: "New demo_client_options (Some udp_interfaces) = Inr demo_client"
  by (simp add: demo_client_def demo_client_options_def New_def Options_defaults_def Options_validate_def Second_def Let_def)

lemma demo_udp_New: "Client_NewUDP demo_client_options (\<lambda>_. None) None (\<lambda>n. int n) (replicate 64 7) (\<lambda>s. s) = Inr demo_udp"
  by (simp add: demo_udp_def demo_client_options_def Client_NewUDP_def New_def Options_defaults_def Options_validate_def
      Second_def Let_def)

section \<open>The client under every interleaving\<close>

text \<open>
  C13. However the calls of the application, the sender's goroutines and their answers interleave,
  the client does not panic (no channel is closed twice, no slot is released that is not held),
  and: at most one call ends and one requests a stream; while a stream is granted no call ends one
  or awaits one, and never do two calls together; the control slots in use are those of the calls that hold one; the frames of the granted stream
  carry its identifier and the numbers 0, 1, 2, ..., and the accepted frames are those that were
  taken for sending, in order, followed by those in the queue.
\<close>

theorem client_orders_frames:
  assumes "New q sender = Inr c"
  shows "\<exists>w. run client_step (Some (start_world c)) evs = Some w \<and>
    map ouSequence (wFrames w) = map word_of_nat [0..<length (wFrames w)] \<and>
    ouStreamID ` set (wFrames w) \<subseteq> {qcStreamID (wClient w)} \<and>
    wAccepted w = wTaken w @ ch_items (qcMedia (wClient w)) \<and>
    length (ch_items (qcControl (wClient w))) = length (filter holder (wThreads w)) \<and>
    length (filter ender (wThreads w)) \<le> 1 \<and> length (filter requester (wThreads w)) \<le> 1 \<and>
    length (filter ender (wThreads w)) + length (filter asker (wThreads w)) \<le> (if qcStream (wClient w) then 0 else 1)"
proof (rule client_running [OF assms, of evs])
  fix w
  assume "run client_step (Some (start_world c)) evs = Some w" and ok: "client_ok w"
  moreover have "threads_ok (wClient w) (wThreads w)" "frames_ok (wClient w) (wFrames w)" "media_ok w"
    using ok by (simp_all add: client_ok_def)
  moreover have asked: "length (filter asker (wThreads w)) \<le> length (filter requester (wThreads w))"
    using cnt_mono [of asker requester "wThreads w"] asker_requester by (simp add: cnt_def)
  ultimately show ?thesis
    by (intro exI [of _ w]) (use asked in \<open>auto simp: threads_ok_def frames_ok_def media_ok_def cnt_def split: if_splits\<close>)
qed

theorem client_orders_frames_witness:
  "\<exists>w. run client_step (Some (start_world demo_client)) demo_talk_events = Some w \<and>
    map ouSequence (wFrames w) = map word_of_nat [0..<length (wFrames w)] \<and>
    ouStreamID ` set (wFrames w) \<subseteq> {qcStreamID (wClient w)} \<and>
    wAccepted w = wTaken w @ ch_items (qcMedia (wClient w)) \<and>
    length (ch_items (qcControl (wClient w))) = length (filter holder (wThreads w)) \<and>
    length (filter ender (wThreads w)) \<le> 1 \<and> length (filter requester (wThreads w)) \<le> 1 \<and>
    length (filter ender (wThreads w)) + length (filter asker (wThreads w)) \<le> (if qcStream (wClient w) then 0 else 1)"
  by (rule client_orders_frames [OF demo_client_New])

text \<open>
  C14. The end of a stream comes last: when a call is about to hand the end of the stream to the
  sender, the end carries the stream's identifier, the number of its frames as sequence number
  and the timestamp of its last frame (zero for none); and unless the client was closed (or
  2^64 frames wrapped its counters) every frame ever accepted has been handed to the sender.
\<close>

theorem stream_end_comes_last:
  assumes "New q sender = Inr c" and "run client_step (Some (start_world c)) evs = Some w"
    and "TEndSend out \<in> set (wThreads w)"
  shows "ouKind out = EventStreamEnd \<and> ouStreamID out = qcStreamID (wClient w) \<and>
    ouSequence out = word_of_nat (length (wFrames w)) \<and>
    ouTimestamp out = (if wFrames w = [] then 0 else ouTimestamp (last (wFrames w))) \<and>
    (qcDone (wClient w) \<or> 2 ^ 64 \<le> length (wAccepted w) \<or> mset (sent_media (wCalls w)) = mset (wAccepted w))"
proof (rule client_running [OF assms(1), of evs])
  fix w'
  assume "run client_step (Some (start_world c)) evs = Some w'" and "client_ok w'"
  with assms(2) have ok: "client_ok w" by simp
  then have "thread_ok (wClient w) (wAccepted w) (wCalls w) (TEndSend out)" using assms(3) by (auto simp: client_ok_def)
  then have out: "out = end_frame (wClient w)" "media_out (wClient w) (wAccepted w) (wCalls w)" by simp_all
  have "frames_ok (wClient w) (wFrames w)" using ok by (simp add: client_ok_def)
  with out(2) show ?thesis unfolding out(1) by (simp add: end_frame_def newOutbound_def frames_ok_def media_out_def)
qed

definition demo_talk_world :: world where
  "demo_talk_world = the (run client_step (Some (start_world demo_client)) demo_talk_events)"

theorem stream_end_comes_last_witness:
  "mset (sent_media (wCalls demo_talk_world)) = mset (wAccepted demo_talk_world) \<and> length (wAccepted demo_talk_world) = 2 \<and>
   TEndSend ((newOutbound EventStreamEnd)\<lparr>ouStreamID := 1, ouSequence := 2, ouTimestamp := 1920\<rparr>) \<in> set (wThreads demo_talk_world)"
proof -
  have "run client_step (Some (start_world demo_client)) demo_talk_events \<noteq> None" by code_simp
  then have w: "run client_step (Some (start_world demo_client)) demo_talk_events = Some demo_talk_world"
    by (auto simp: demo_talk_world_def)
  have t: "TEndSend ((newOutbound EventStreamEnd)\<lparr>ouStreamID := 1, ouSequence := 2, ouTimestamp := 1920\<rparr>) \<in> set (wThreads demo_talk_world)"
    by code_simp
  have l: "length (wAccepted demo_talk_world) = 2" and d: "\<not> qcDone (wClient demo_talk_world)" by code_simp+
  from stream_end_comes_last [OF demo_client_New w t] l d t show ?thesis by simp
qed

section \<open>The UDP sender\<close>

text \<open>
  C21. The sender never panics, and its events announce what they report: in every run of its
  calls, its loops and its owner, whatever datagrams arrive, each audio or data event belongs to
  the stream of the last stream start event that no stream end event of the same stream has
  followed; and that stream is the one the sender takes for current, which is not one of the
  eight last retired.
\<close>

theorem media_is_announced:
  assumes "Client_NewUDP q conn cl clk rnd uni = Inr c"
  shows "\<exists>s. run udp_step (Some c) evs = Some s \<and> heard_ok None (usEvents s) \<and>
    foldl hear None (usEvents s) = current (usRemote s) \<and>
    current (usRemote s) \<notin> Some ` set (recent s)"
proof (rule udp_running [OF assms, of evs])
  fix s
  assume "run udp_step (Some c) evs = Some s" and "udp_ok s"
  then show ?thesis by (intro exI [of _ s]) (auto simp: udp_ok_def tells_def current_def)
qed

theorem media_is_announced_witness:
  "\<exists>s. run udp_step (Some demo_udp) [ULoop (LRead [1, 2]), ULoop LTick, UDisconnect [], UClose] = Some s \<and>
    heard_ok None (usEvents s) \<and> foldl hear None (usEvents s) = current (usRemote s) \<and>
    current (usRemote s) \<notin> Some ` set (recent s)"
  by (rule media_is_announced [OF demo_udp_New])

text \<open>
  C28. The array of retired streams is a queue: in every reachable state \<^verbatim>\<open>isRetiredLocked\<close> finds
  exactly the streams of \<^const>\<open>recent\<close>, and \<^verbatim>\<open>retireLocked\<close> appends a new stream to it, dropping
  the oldest when there are eight; a stream that is known, or without a number, changes nothing.
  There are never more than eight and none twice.
\<close>

theorem retired_streams_queue:
  assumes "Client_NewUDP q conn cl clk rnd uni = Inr c" and "run udp_step (Some c) evs = Some s"
  shows "isRetiredLocked key s = Some (key \<in> set (recent s)) \<and>
    map_option recent (retireLocked key s) = Some (push_recent key (recent s)) \<and>
    length (recent s) \<le> 8 \<and> distinct (recent s)"
proof (rule udp_running [OF assms(1), of evs])
  fix s'
  assume "run udp_step (Some c) evs = Some s'" and "udp_ok s'"
  with assms(2) have ring: "ring_ok s" by (simp add: udp_ok_def)
  obtain s1 where "retireLocked key s = Some s1" "recent s1 = push_recent key (recent s)"
    using ring by (rule retireLocked_spec)
  with ring show ?thesis by (simp add: isRetiredLocked_spec) (simp add: recent_def ring_ok_def)
qed

theorem retired_streams_queue_witness:
  "isRetiredLocked \<lparr>rkOwner = 3, rkStream = 4\<rparr> demo_udp = Some False \<and>
   map_option recent (retireLocked \<lparr>rkOwner = 3, rkStream = 4\<rparr> demo_udp) = Some [\<lparr>rkOwner = 3, rkStream = 4\<rparr>]"
proof -
  have r: "recent demo_udp = []" by code_simp
  have "run udp_step (Some demo_udp) [] = Some demo_udp" by simp
  from retired_streams_queue [OF demo_udp_New this, of "\<lparr>rkOwner = 3, rkStream = 4\<rparr>"] show ?thesis
    by (simp add: r push_recent_def)
qed

text \<open>
  C29. Replies are matched to requests: the packet that a request of the sender returns is one of
  the wanted types, it was received in a datagram (queued before, or read while the request
  waited), it is valid from the server, and it carries the session of the sender and the
  transaction and the stream of the request.
\<close>

theorem request_reply_matches:
  assumes "request p wants evs s = Some (Got reply, evs', s')" and "Find p TLVTransactionID = Some (PutUint64 t)"
  shows "hType (pHeader reply) \<in> set wants \<and>
    ok reply \<in> Decode ` (set (ch_items (usInbound s)) \<union> {d. RLoop (LRead d) \<in> set evs}) \<and>
    Validate reply \<lparr>cDirection = ServerToClient, cPhase = Ready\<rparr> = None \<and>
    hSessionID (pHeader reply) = usSession s \<and> hStreamID (pHeader reply) = hStreamID (pHeader p) \<and>
    Find reply TLVTransactionID = Some (PutUint64 t)"
  using request_good [OF assms] by (simp add: good_reply_def reply_to_def reads_def)

text \<open>A keepalive whose reply is queued at the processing loop.\<close>

definition demo_answer :: Packet where
  "demo_answer = (client_packet PacketKeepalive 9 0 [Uint64TLV TLVTransactionID 5])\<lparr>pHeader :=
     zeroHeader\<lparr>hVersion := 1, hType := PacketKeepalive, hFlags := FlagResponse, hSessionID := 9\<rparr>\<rparr>"

definition demo_waiting :: udpSender where
  "demo_waiting = demo_udp\<lparr>usSession := 9, usLooping := True, usInbound := \<lparr>ch_cap = 4, ch_items = [layout demo_answer]\<rparr>\<rparr>"

lemma demo_wf: "wf_packet demo_answer" "wf_packet (keepalive_packet sid tx)" 
  by (simp_all add: demo_answer_def client_packet_def keepalive_packet_def Uint64TLV_def tlv_def wf_packet_def bases_def headerLengthOf_def wf_tlv_def baseTLV_def
      knownTLV_def validateTLVValue_def tlvSizeOf_def alignedTLVSize_def zeroHeader_def Let_def)

lemma demo_request:
  "\<exists>s'. request (keepalive_packet 9 5) [PacketKeepalive] [RLoop LTake, RReply] demo_waiting = Some (Got (with_lengths demo_answer), [], s')"
proof -
  let ?key = "\<lparr>rqTx = 5, rqStream = 0\<rparr> :: requestKey"
  let ?s = "demo_waiting\<lparr>usControlTokens := \<lparr>ch_cap = 2, ch_items = [()]\<rparr>,
    usPending := [(?key, \<lparr>rqResponses = make_chan 1, rqTypes = [PacketError, PacketKeepalive]\<rparr>)]\<rparr>"
  let ?t = "?s\<lparr>usWrites := 1, usWritten := [layout (keepalive_packet 9 5)]\<rparr>"
  let ?u = "?t\<lparr>usInbound := \<lparr>ch_cap = 4, ch_items = []\<rparr>\<rparr>"
  let ?r = "with_lengths demo_answer"
  let ?v = "?u\<lparr>usPending := [(?key, \<lparr>rqResponses = \<lparr>ch_cap = 1, ch_items = [?r]\<rparr>, rqTypes = [PacketError, PacketKeepalive]\<rparr>)]\<rparr>"
  have w: "udp_write (keepalive_packet 9 5) ?s = Some (None, ?t)"
    by (simp add: udp_write_def Encode_wf [OF demo_wf(2)] demo_waiting_def demo_udp_def demo_client_options_def Client_NewUDP_def
       New_def Options_defaults_def Options_validate_def Second_def Let_def)
  have dec: "Decode (layout demo_answer) = ok ?r" using Decode_layout [OF demo_wf(1)] by (simp add: with_lengths_def)
  have val: "Validate ?r \<lparr>cDirection = ServerToClient, cPhase = Ready\<rparr> = None" by code_simp
  have f: "Find ?r TLVTransactionID = Some (PutUint64 5)" "hStreamID (pHeader ?r) = 0" "hType (pHeader ?r) = PacketKeepalive"
    "hSessionID (pHeader ?r) = 9" by code_simp+
  have ses: "usSession demo_waiting = 9" "usLooping demo_waiting" by (simp_all add: demo_waiting_def)
  have del: "deliver_response ?r ?u = Some (True, ?v)"
    by (simp add: deliver_response_def f ses make_chan_def try_send_def)
  have inb: "try_recv (usInbound ?t) = Some (layout demo_answer, \<lparr>ch_cap = 4, ch_items = []\<rparr>)"
    by (simp add: demo_waiting_def try_recv_def)
  have l: "loop_step LTake ?t = Some ?v" using dec val del ses f inb by (simp add: process_data_def)
  have tk: "take_response ?key ?v = Some (?r, ?v\<lparr>usPending := [(?key, \<lparr>rqResponses = \<lparr>ch_cap = 1, ch_items = []\<rparr>, rqTypes = [PacketError, PacketKeepalive]\<rparr>)]\<rparr>)"
    by (simp add: take_response_def try_recv_def)
  have rr: "request_reply [PacketKeepalive] ?r s = Some (Got ?r, s)" for s by (simp add: request_reply_def f)
  have st: "usPending demo_waiting = []" "try_send (usControlTokens demo_waiting) () = (True, \<lparr>ch_cap = 2, ch_items = [()]\<rparr>)"
    by code_simp+
  have tx: "Find (keepalive_packet 9 5) TLVTransactionID = Some (PutUint64 5)" "hStreamID (pHeader (keepalive_packet 9 5)) = 0" by code_simp+
  have four: "attempts (request_wait k ws) 4 p = attempts (request_wait k ws) (Suc 3) p" for k ws p by (simp add: eval_nat_numeral)
  have a: "attempts (request_wait ?key [PacketKeepalive]) 4 (keepalive_packet 9 5) [RLoop LTake, RReply] ?s = Some (Got ?r, [], ?v\<lparr>usPending := [(?key, \<lparr>rqResponses = \<lparr>ch_cap = 1, ch_items = []\<rparr>, rqTypes = [PacketError, PacketKeepalive]\<rparr>)]\<rparr>)"
    by (simp only: four attempts.simps request_wait.simps w l tk rr bind.bind_lunit prod.case option.case outcome.distinct if_False)
  show ?thesis
    unfolding request_def st(2) using a by (simp add: tx st(1))
qed

theorem request_reply_matches_witness:
  "\<exists>s'. request (keepalive_packet 9 5) [PacketKeepalive] [RLoop LTake, RReply] demo_waiting =
      Some (Got (with_lengths demo_answer), [], s') \<and>
    ok (with_lengths demo_answer) \<in> Decode ` (set (ch_items (usInbound demo_waiting)) \<union> {d. RLoop (LRead d) \<in> set [RLoop LTake, RReply]})"
proof -
  obtain s' where r: "request (keepalive_packet 9 5) [PacketKeepalive] [RLoop LTake, RReply] demo_waiting =
      Some (Got (with_lengths demo_answer), [], s')"
    using demo_request by blast
  have "Find (keepalive_packet 9 5) TLVTransactionID = Some (PutUint64 5)" by code_simp
  from request_reply_matches [OF r this] r show ?thesis by blast
qed

section \<open>A connection that cannot be retried\<close>

text \<open>Without the two loops no reply can reach a request.\<close>

definition deaf :: "udpSender \<Rightarrow> bool" where
  "deaf s \<longleftrightarrow> \<not> usReading s \<and> \<not> usLooping s"

lemma deaf_loop_step: "deaf s \<Longrightarrow> loop_step ev s = Some s' \<Longrightarrow> deaf s' \<and> usPending s' = usPending s \<and> usSession s' = usSession s"
  by (cases ev) (auto simp: deaf_def split: if_splits)

definition no_response :: "requestKey \<Rightarrow> udpSender \<Rightarrow> bool" where
  "no_response key s \<longleftrightarrow> take_response key s = None"

lemma take_response_pending: "usPending s' = usPending s \<Longrightarrow> no_response key s \<Longrightarrow> no_response key s'"
  by (auto simp: no_response_def take_response_def split: option.splits)

lemma deaf_request_wait:
  "deaf s \<Longrightarrow> no_response key s \<Longrightarrow> request_wait key wants evs s = Some (res, evs', s') \<Longrightarrow>
    (\<forall>p. res \<noteq> Got p) \<and> deaf s' \<and> no_response key s' \<and> usSession s' = usSession s"
proof (induction key wants evs s rule: request_wait.induct)
  case (4 key wants ev evs s)
  then obtain s1 where s1: "loop_step ev s = Some s1" "request_wait key wants evs s1 = Some (res, evs', s')"
    by (auto simp: bind_eq_Some_conv)
  from deaf_loop_step [OF 4(2) s1(1)] show ?case
    using 4(1) [OF s1(1) _ _ s1(2)] take_response_pending [OF _ 4(3)] by auto
qed (auto simp: no_response_def)

lemma udp_write_deaf:
  assumes "udp_write p s = Some (err, s')"
  shows "deaf s' = deaf s \<and> usPending s' = usPending s \<and> usSession s' = usSession s"
proof -
  obtain err1 s1 where "udp_write p s = Some (err1, s1)" "usSession s1 = usSession s" "usPending s1 = usPending s"
    "usReading s1 = usReading s" "usLooping s1 = usLooping s"
    by (rule udp_write_quiet [of p s])
  with assms show ?thesis by (simp add: deaf_def)
qed

lemma deaf_attempts:
  "deaf s \<Longrightarrow> no_response key s \<Longrightarrow> attempts (request_wait key wants) n p evs s = Some (res, evs', s') \<Longrightarrow>
    (\<forall>p. res \<noteq> Got p) \<and> deaf s' \<and> usSession s' = usSession s"
proof (induction n arbitrary: p evs s)
  case (Suc n)
  then obtain err s1 where w: "udp_write p s = Some (err, s1)" by (auto simp: bind_eq_Some_conv)
  from udp_write_deaf [OF w] have s1: "deaf s1" "no_response key s1" "usSession s1 = usSession s"
    using Suc.prems take_response_pending by auto
  show ?case
  proof (cases err)
    case None
    then obtain r evs1 s2 where r: "request_wait key wants evs s1 = Some (r, evs1, s2)"
      "if r = Retry then attempts (request_wait key wants) n (with_retry p) evs1 s2 = Some (res, evs', s')
       else (res, s') = (r, s2)"
      using Suc.prems(3) w by (auto simp: bind_eq_Some_conv split: if_splits)
    from deaf_request_wait [OF s1(1,2) r(1)] r(2) s1(3) show ?thesis
      using Suc.IH by (auto split: if_splits)
  qed (use Suc.prems(3) w s1 in auto)
qed auto

lemma deaf_owner_fail: "deaf (owner_fail err s) = deaf s \<and> usSession (owner_fail err s) = usSession s"
proof -
  obtain b where "owner_fail err s = s\<lparr>usOwner := fst (fail err (usOwner s)), usClosed := b\<rparr>"
    unfolding owner_fail_def by (rule with_owner_fields)
  then show ?thesis by (simp add: deaf_def)
qed

lemma deaf_request:
  assumes "deaf s" and "request p wants evs s = Some (res, evs', s')"
  shows "(\<forall>p. res \<noteq> Got p) \<and> deaf s' \<and> usSession s' = usSession s"
proof (cases "try_send (usControlTokens s) ()")
  case (Pair b tokens)
  show ?thesis
  proof (cases b)
    case True
    with Pair assms(2) obtain t s1 where r: "attempts (request_wait \<lparr>rqTx = t, rqStream = hStreamID (pHeader p)\<rparr> wants) 4 p evs
        (s\<lparr>usControlTokens := tokens, usPending := AList.update \<lparr>rqTx = t, rqStream = hStreamID (pHeader p)\<rparr>
          \<lparr>rqResponses = make_chan 1, rqTypes = PacketError # wants\<rparr> (usPending s)\<rparr>) = Some (res, evs', s1)"
      "deaf s1 \<longrightarrow> deaf s'" "usSession s' = usSession s1"
      by (auto simp: request_def Let_def bind_eq_Some_conv deaf_def split: if_splits)
    show ?thesis
      using deaf_attempts [OF _ _ r(1)] r(2,3) assms(1)
      by (simp add: deaf_def no_response_def take_response_def AList.update_conv' make_chan_def try_recv_def)
  qed (use assms Pair in \<open>auto simp: request_def deaf_owner_fail\<close>)
qed

lemma nextTx_deaf: "nextTx s = (r, s') \<Longrightarrow> deaf s' = deaf s \<and> usSession s' = usSession s"
proof (induction s arbitrary: r s' rule: nextTx.induct)
  case (1 s)
  obtain q s1 where q: "us_random 8 s = (q, s1)" by fastforce
  then have "deaf s1 = deaf s \<and> usSession s1 = usSession s"
    by (auto simp: us_random_def deaf_def split: prod.splits sum.splits)
  with 1 q show ?case by (subst (asm) nextTx.simps) (auto simp: Let_def split: sum.splits if_splits)
qed

lemma exchange_wait_state: "exchange_wait want tx evs s = Some (res, evs', s') \<Longrightarrow> s' = s"
  by (induction want tx evs s rule: exchange_wait.induct)
    (auto simp: bind_eq_Some_conv split: if_splits option.splits sum.splits)

lemma exchange_attempts_deaf:
  "attempts (exchange_wait want tx) n p evs s = Some (res, evs', s') \<Longrightarrow> deaf s' = deaf s \<and> usSession s' = usSession s"
proof (induction n arbitrary: p evs s)
  case (Suc n)
  then obtain err s1 where w: "udp_write p s = Some (err, s1)" by (auto simp: bind_eq_Some_conv)
  show ?case
  proof (cases err)
    case None
    then obtain r evs1 s2 where r: "exchange_wait want tx evs s1 = Some (r, evs1, s2)"
      "if r = Retry then attempts (exchange_wait want tx) n (with_retry p) evs1 s2 = Some (res, evs', s') else s' = s2"
      using Suc.prems w by (auto simp: bind_eq_Some_conv split: if_splits)
    from exchange_wait_state [OF r(1)] r(2) show ?thesis
      using Suc.IH udp_write_deaf [OF w] by (auto split: if_splits)
  qed (use Suc.prems w udp_write_deaf [OF w] in auto)
qed simp

lemma handshake_keepalive_deaf:
  assumes "handshake_keepalive evs s = Some (Failed err, s1)"
  shows "deaf s1 = deaf s \<and> usSession s1 = usSession s"
proof -
  obtain r s0 where n: "nextTx s = (r, s0)" by fastforce
  note keep = nextTx_deaf [OF n]
  show ?thesis
  proof (cases r)
    case (Inr tx)
    with assms n obtain res evs' where "exchange (keepalive_packet (usSession s0) tx) PacketKeepalive tx evs s0 = Some (res, evs', s1)"
      by (auto simp: handshake_keepalive_def bind_eq_Some_conv split: if_splits)
    then show ?thesis using keep exchange_attempts_deaf unfolding exchange_def by metis
  qed (use assms n keep in \<open>auto simp: handshake_keepalive_def\<close>)
qed

lemma deaf_Send:
  assumes "deaf s" and "usSession s \<noteq> 0" and "Send (newOutbound EventStatus) xs rs s = Some (res, s')"
  shows "res \<noteq> Got () \<and> deaf s' \<and> usSession s' = usSession s"
proof -
  obtain r s0 where n: "nextTx s = (r, s0)" by fastforce
  note keep = nextTx_deaf [OF n]
  have kind: "ouKind (newOutbound EventStatus) = EventStatus" by (simp add: newOutbound_def)
  show ?thesis
  proof (cases r)
    case (Inr tx)
    with assms n kind obtain res' evs' where
      "request (keepalive_packet (usSession s0) tx) [PacketKeepalive] rs s0 = Some (res', evs', s')" "res = failure res'"
      by (auto simp: Send_def with_tx_def bind_eq_Some_conv)
    with deaf_request [OF _ this(1)] keep assms(1) show ?thesis by (cases res') auto
  qed (use assms n keep kind in \<open>auto simp: Send_def with_tx_def\<close>)
qed

text \<open>
  C30. A handshake that fails at its last step cannot be repeated: if the confirming keepalive of
  the handshake fails after the session was set, then the next attempt to connect (which sends a
  keepalive because there is a session) returns without success whatever the network delivers,
  and leaves the sender in a state for which the same holds. The read loop is started only by
  a handshake that succeeds.
\<close>

theorem failed_handshake_is_final:
  assumes "udp_ok s" and "\<not> usReading s" and "\<not> usLooping s" and "usSession s \<noteq> 0"
    and "handshake_keepalive evs s = Some (Failed err, s1)"
  shows "\<exists>res s2. Send (newOutbound EventStatus) xs rs s1 = Some (res, s2) \<and> res \<noteq> Got () \<and>
    \<not> usReading s2 \<and> \<not> usLooping s2 \<and> usSession s2 \<noteq> 0"
proof -
  have s1: "deaf s1" "usSession s1 \<noteq> 0"
    using handshake_keepalive_deaf [OF assms(5)] assms(2-4) by (simp_all add: deaf_def)
  have "udp_ok s1" using handshake_keepalive_returns [OF assms(1), of evs] assms(5) by simp
  then obtain res s2 where r: "Send (newOutbound EventStatus) xs rs s1 = Some (res, s2)"
    using returns_pair [OF Send_returns] by blast
  with deaf_Send [OF s1 r] s1 show ?thesis by (auto simp: deaf_def)
qed

definition demo_unplugged :: udpSender where
  "demo_unplugged = demo_udp\<lparr>usSession := 9, usConn := (\<lambda>n. if n = 0 then Some (ErrText ''network is unreachable'') else None)\<rparr>"

theorem failed_handshake_is_final_witness:
  "\<exists>s1 res s2. handshake_keepalive [] demo_unplugged = Some (Failed (ErrText ''network is unreachable''), s1) \<and>
    Send (newOutbound EventStatus) [] [RLoop (LRead [1]), RLoop LTake, RReply] s1 = Some (res, s2) \<and> res \<noteq> Got ()"
proof -
  have ok: "udp_ok demo_udp" by (rule NewUDP_ok [OF demo_udp_New])
  have "unheard demo_udp demo_unplugged" by (simp add: demo_unplugged_def unheard_def)
  then have "udp_ok demo_unplugged" using ok by (rule unheard_ok)
  moreover have "\<not> usReading demo_unplugged" "\<not> usLooping demo_unplugged" "usSession demo_unplugged \<noteq> 0"
    by code_simp+
  moreover have "\<exists>s1. handshake_keepalive [] demo_unplugged = Some (Failed (ErrText ''network is unreachable''), s1)"
  proof -
    obtain tx s0 where n: "nextTx demo_unplugged = (Inr tx, s0)" and c: "usConn s0 0 = Some (ErrText ''network is unreachable'')"
      "usWrites s0 = 0" "\<not> usClosed s0"
    proof -
      have r: "us_random 8 demo_unplugged = (Inr (replicate 8 7), demo_unplugged\<lparr>usRandom := replicate 56 7\<rparr>)"
        by (simp add: us_random_def ReadFull_def demo_unplugged_def demo_udp_def demo_client_options_def Client_NewUDP_def
            New_def Options_defaults_def Options_validate_def Second_def Let_def)
      have "(get_be (replicate 8 7) :: u64) \<noteq> 0" by code_simp
      then have "nextTx demo_unplugged = (Inr (get_be (replicate 8 7)), demo_unplugged\<lparr>usRandom := replicate 56 7\<rparr>)"
        by (subst nextTx.simps) (simp only: r prod.case sum.case Let_def not_False_eq_True if_True)
      moreover have "usWrites demo_unplugged = 0" "\<not> usClosed demo_unplugged" by code_simp+
      ultimately show thesis using that by (simp add: demo_unplugged_def)
    qed
    have "\<exists>s1. attempts (exchange_wait PacketKeepalive tx) (Suc 3) (keepalive_packet (usSession s0) tx) [] s0 =
        Some (Failed (ErrText ''network is unreachable''), [], s1)"
      unfolding attempts.simps using c by (simp add: udp_write_def Encode_wf [OF demo_wf(2)] Let_def)
    then obtain s1 where "exchange (keepalive_packet (usSession s0) tx) PacketKeepalive tx [] s0 =
        Some (Failed (ErrText ''network is unreachable''), [], s1)" by (auto simp: exchange_def)
    then show ?thesis by (simp add: handshake_keepalive_def n)
  qed
  ultimately show ?thesis using failed_handshake_is_final by blast
qed

end
