(* ===== verification/MonitorText.thy ===== *)
theory MonitorText
  imports MonitorProps
begin

text \<open>
  The text of \<^verbatim>\<open>/metrics\<close>: the lines which \<^verbatim>\<open>writeMetrics\<close> of \<^verbatim>\<open>pkg/monitor/http.go\<close> writes for the counters
  form one group for each metric. The samples are sorted by their key, which starts with the name
  of the metric, so all depends on no name being a prefix of another.
\<close>

section \<open>The text of the counters\<close>

text \<open>Between two strings with a prefix every string has it.\<close>

lemma between_prefix:
  fixes b :: string
  shows "n @ u \<le> b \<Longrightarrow> b \<le> n @ w \<Longrightarrow> take (length n) b = n"
proof (induction n arbitrary: b)
  case (Cons x n)
  then show ?case by (cases b) auto
qed simp

definition metric_names :: "string list" where
  "metric_names = [''opusref_packets_total'', ''opusref_bytes_total'', ''opusref_packet_errors_total'',
     ''opusref_authentication_total'', ''opusref_streams_total'', ''opusref_stream_end_total'', ''opusref_busy_total'',
     ''opusref_timeouts_total'', ''opusref_fanout_frames_total'', ''opusref_fanout_recipients_total'',
     ''opusref_queue_drops_total'', ''opusref_queue_drop_recipients_total'', ''opusref_sequence_gaps_total'']"

lemma metric_names_apart:
  assumes "metricLabels n = Some e" and "metricLabels m = Some f" and "take (length n) m = n"
  shows "n = m"
proof -
  have "list_all (\<lambda>n. list_all (\<lambda>m. take (length n) m = n \<longrightarrow> n = m) metric_names) metric_names" by code_simp
  moreover have "x \<in> set metric_names" if "metricLabels x = Some y" for x y
    using that by (auto simp: metricLabels_def metric_names_def split: if_splits)
  ultimately show ?thesis using assms by (auto simp: list_all_iff)
qed

definition sample_key :: "metricSample \<Rightarrow> string" where
  "sample_key s = sampleKey (saName s) (saLabels s)"

definition typed_sample :: "metricSample \<Rightarrow> bool" where
  "typed_sample s \<longleftrightarrow> (\<exists>ls. accepted_labels (saName s) ls = Some (saLabels s))"

lemma typed_sample_name: "typed_sample s \<Longrightarrow> \<exists>e. metricLabels (saName s) = Some e"
  by (auto simp: typed_sample_def accepted_labels_code split: option.splits)

lemma sample_key_parts:
  obtains r where "sample_key s = saName s @ r" "r = [] \<or> hd r = CHR '';''"
  by (rule that [OF _ key_parts_start]) (simp only: sample_key_def sampleKey_parts)

lemma between_same_name:
  assumes "typed_sample a" "typed_sample b" "typed_sample c" and "sample_key a \<le> sample_key b" "sample_key b \<le> sample_key c"
    and "saName a = saName c"
  shows "saName b = saName a"
proof -
  obtain u where u: "sample_key a = saName a @ u" by (rule sample_key_parts)
  obtain w where w: "sample_key c = saName c @ w" by (rule sample_key_parts)
  obtain v where v: "sample_key b = saName b @ v" "v = [] \<or> hd v = CHR '';''" by (rule sample_key_parts)
  have pre: "take (length (saName a)) (saName b @ v) = saName a"
    using assms(4-6) by (intro between_prefix [of "saName a" u _ w]) (simp_all add: u v(1) w)
  obtain e f where e: "metricLabels (saName a) = Some e" and f: "metricLabels (saName b) = Some f"
    using assms(1,2) typed_sample_name by blast
  show ?thesis
  proof (cases "length (saName a) \<le> length (saName b)")
    case True
    then have "take (length (saName a)) (saName b) = saName a" using pre by simp
    from metric_names_apart [OF e f this] show ?thesis by simp
  next
    case False
    then obtain k where "length (saName a) = length (saName b) + Suc k" by (auto simp: not_le dest: less_imp_Suc_add)
    then have n: "saName a = saName b @ take (Suc k) v" and "v \<noteq> []" using pre by auto
    with v(2) have "CHR '';'' \<in> set (saName a)" by (cases v) auto
    with metricLabels_plain [OF e] show ?thesis by (simp add: plain_text_def)
  qed
qed

text \<open>The samples of one name after the other.\<close>

fun grouped :: "metricSample list \<Rightarrow> (string \<times> metricSample list) list" where
  "grouped [] = []"
| "grouped (s # ss) =
     (case grouped ss of
        [] \<Rightarrow> [(saName s, [s])]
      | (n, g) # gs \<Rightarrow> if n = saName s then (n, s # g) # gs else (saName s, [s]) # (n, g) # gs)"

lemma grouped_Nil_iff [simp]: "grouped ss = [] \<longleftrightarrow> ss = []"
  by (cases ss) (auto split: list.split)

lemma grouped_head: "ss \<noteq> [] \<Longrightarrow> \<exists>g gs. grouped ss = (saName (hd ss), g) # gs"
  by (cases ss) (auto split: list.split)

lemma grouped_Cons_names: "set (map fst (grouped (s # ss))) = insert (saName s) (set (map fst (grouped ss)))"
proof (cases "grouped ss")
  case (Cons p gs)
  then show ?thesis by (cases p; cases "fst p = saName s") auto
qed simp

lemma grouped_names: "set (map fst (grouped ss)) = saName ` set ss"
proof (induction ss)
  case (Cons s ss)
  show ?case unfolding grouped_Cons_names Cons.IH by simp
qed simp

lemma grouped_concat: "concat (map snd (grouped ss)) = ss"
  by (induction ss) (auto split: list.split)

lemma grouped_same: "list_all (\<lambda>(n, g). g \<noteq> [] \<and> list_all (\<lambda>s. saName s = n) g) (grouped ss)"
  by (induction ss) (auto split: list.split)

lemma grouped_distinct:
  "sorted (map sample_key ss) \<Longrightarrow> list_all typed_sample ss \<Longrightarrow> distinct (map fst (grouped ss))"
proof (induction ss)
  case (Cons s ss)
  then have IH: "distinct (map fst (grouped ss))" by simp
  show ?case
  proof (cases "ss = []")
    case False
    with grouped_head obtain g gs where g: "grouped ss = (saName (hd ss), g) # gs" by blast
    show ?thesis
    proof (cases "saName (hd ss) = saName s")
      case True
      with IH g show ?thesis by simp
    next
      case False
      have "saName c \<noteq> saName s" if c: "c \<in> set ss" for c
      proof
        assume same: "saName c = saName s"
        have "sample_key (hd ss) \<le> sample_key c"
          using Cons.prems(1) c by (cases ss) auto
        moreover have "sample_key s \<le> sample_key (hd ss)" "typed_sample s" "typed_sample (hd ss)" "typed_sample c"
          using Cons.prems \<open>ss \<noteq> []\<close> c by (auto simp: list_all_iff)
        ultimately have "saName (hd ss) = saName s" using same by (intro between_same_name [of s _ c]) simp_all
        with False show False by simp
      qed
      then have "saName s \<notin> set (map fst (grouped ss))" unfolding grouped_names by (metis imageE)
      with IH g False show ?thesis by simp
    qed
  qed simp
qed simp

definition type_line :: "string \<Rightarrow> string" where
  "type_line n = ''# TYPE '' @ n @ '' counter''"

definition sample_line :: "metricSample \<Rightarrow> string" where
  "sample_line s = saName s @ formatLabels (saLabels s) @ '' '' @ decimal (unat (saValue s))"

definition group_lines :: "(string \<times> metricSample list) list \<Rightarrow> string list" where
  "group_lines gs = concat (map (\<lambda>(n, ss). type_line n # map sample_line ss) gs)"

lemma sample_lines_groups:
  "sample_lines l ss = (if ss \<noteq> [] \<and> saName (hd ss) = l then tl (group_lines (grouped ss)) else group_lines (grouped ss))"
proof (induction ss arbitrary: l)
  case (Cons s ss)
  show ?case
  proof (cases "ss = []")
    case False
    with grouped_head obtain g gs where g: "grouped ss = (saName (hd ss), g) # gs" by blast
    with False Cons.IH [of "saName s"] show ?thesis
      by (auto simp: group_lines_def type_line_def sample_line_def)
  qed (simp add: group_lines_def type_line_def sample_line_def)
qed (simp add: group_lines_def)

lemma bucket_lines_total: "i + length bs \<le> length cs \<Longrightarrow> bucket_lines i bs cs \<noteq> None"
proof (induction bs arbitrary: i)
  case (Cons b bs)
  then have "bucket_lines (i + 1) bs cs \<noteq> None" "at cs i \<noteq> None" by (simp_all add: at_def)
  then obtain ls c where "bucket_lines (i + 1) bs cs = Some ls" "at cs i = Some c" by auto
  then show ?case by (simp only: bucket_lines.simps Option.bind.simps option.simps simp_thms)
qed simp

text \<open>
  C24. The text of the metrics is in the exposition format: \<^verbatim>\<open>writeMetrics\<close> does not run out of its
  slices, and after any interleaving of calls the lines of the counters are one group for each
  metric, which begins with the type of the metric and has exactly one line for each counter
  of it, with its labels and its count.
\<close>

theorem counters_exposed:
  "let r = mnRegistry (monitoring_run capacity deadline started t calls) in
    writeMetrics fmt_g t' r \<noteq> None \<and>
    (\<exists>groups. counter_lines r = group_lines groups \<and> distinct (map fst groups) \<and>
       mset (concat (map snd groups)) = mset (map snd (rgMetrics r)) \<and>
       list_all (\<lambda>(n, g). g \<noteq> [] \<and> list_all (\<lambda>s. saName s = n) g) groups)"
proof -
  let ?r = "mnRegistry (monitoring_run capacity deadline started t calls)"
  let ?ss = "sorted_samples ?r"
  have "length (rgHistogramCounts ?r) = length bucket_texts"
    using run_ok(1) [of capacity deadline started t calls]
    by (simp add: monitoring_ok_def Let_def buckets_def bucket_texts_def)
  then have hist: "writeMetrics fmt_g t' ?r \<noteq> None"
    using bucket_lines_total [of 0 bucket_texts "rgHistogramCounts ?r"] by (auto simp: writeMetrics_def)
  have "typed ?r" using run_ok(2) [of capacity deadline started t calls] by (simp add: counting_ok_def)
  then have typed: "list_all typed_sample ?ss"
    by (auto simp: sorted_samples_def list_all_iff typed_def typed_sample_def)
  have sorted: "sorted (map sample_key ?ss)"
    by (simp add: sorted_samples_def sample_key_def [abs_def])
  have "saName (hd ?ss) \<noteq> []" if "?ss \<noteq> []"
  proof -
    have "typed_sample (hd ?ss)" using typed that by (cases ?ss) auto
    then obtain e where "metricLabels (saName (hd ?ss)) = Some e" using typed_sample_name by blast
    then show ?thesis by (auto simp: metricLabels_def split: if_splits)
  qed
  then have "counter_lines ?r = group_lines (grouped ?ss)"
    by (auto simp: counter_lines_def sample_lines_groups)
  moreover have "mset (concat (map snd (grouped ?ss))) = mset (map snd (rgMetrics ?r))"
    unfolding grouped_concat by (simp add: sorted_samples_def)
  ultimately show ?thesis
    using hist grouped_distinct [OF sorted typed] grouped_same by (auto simp: Let_def)
qed

end
