(* ===== verification/CommandProps.thy ===== *)
theory CommandProps
  imports Commands MonitorProps ReflectorSystem
begin

text \<open>
  The two programs as compositions of the packages: an accepted configuration starts the reflector
  with exactly its numbers, the monitoring goroutine counts every drop once, and what \<^verbatim>\<open>listen\<close> writes
  is what \<^verbatim>\<open>transmit\<close> sends.
\<close>

section \<open>From the configuration to the reflector\<close>

text \<open>No number of an accepted configuration is replaced by a default of the reflector.\<close>

lemma accepted_numbers:
  assumes "check_numbers cfg = None"
  shows "cgMaxClients (cgLimits cfg) > 0" "cgInboundQueuePackets (cgLimits cfg) > 0"
    "cgOutboundMediaQueueFrames (cgLimits cfg) > 0" "cgOutboundControlQueuePackets (cgLimits cfg) > 0"
    "cgMaxPendingChallenges (cgLimits cfg) > 0" "cgMaxCompletedTransactions (cgLimits cfg) > 0"
    "cgMaxCompletedTransactionsPerSession (cgLimits cfg) > 0" "cgMaxPendingNotifications (cgLimits cfg) > 0"
    "cgMaxPendingNotificationsPerClient (cgLimits cfg) > 0" "cgRecentEvents (cgLimits cfg) > 0"
    "cgSessionTimeout (cgTimers cfg) > 0" "cgGrantTimeout (cgTimers cfg) > 0"
    "cgStreamInactivityTimeout (cgTimers cfg) > 0" "cgTransmitTimeLimit (cgTimers cfg) > 0" "cgShutdownGrace (cgTimers cfg) > 0"
  using check_numbers_None(1,2) [OF assms] by (simp_all add: capacities_def timers_def)

lemma options_keep:
  assumes "check_numbers cfg = None" and "32 \<le> cgMaxDatagramBytes (cgLimits cfg)"
  shows "ReflectorOptions_defaults (reflector_options cfg key) = reflector_options cfg key"
    and "Limits_defaults (oLimits (reflector_options cfg key)) = oLimits (reflector_options cfg key)"
  using accepted_numbers [OF assms(1)] assms(2)
  by (simp_all add: Limits_defaults_def ReflectorOptions_defaults_def reflector_options_def Let_def)

lemma options_accepted:
  assumes "check_numbers cfg = None"
  shows "options_validate (reflector_options cfg key) = None"
  using accepted_numbers [OF assms] check_numbers_None(3,4) [OF assms]
  by (simp add: options_validate_def reflector_options_def Let_def)

lemma options_publish: "options (publish r) = options r"
  using EngineSnapshot_eq [of r] by (auto simp: publish_def Clock_eq Let_def)

lemma accepted_reflector:
  assumes "check_identity os cfg = None" and "check_numbers cfg = None"
  shows "\<exists>r. NewReflector (reflector_options cfg key) clk rnd (osUnicode os) = Inr r \<and> options r = reflector_options cfg key"
proof -
  let ?q = "reflector_options cfg key"
  obtain i where id: "ReflectorID (osUnicode os) (oID ?q) = Inr i"
    using check_identity_None(1) [OF assms(1)] by (auto simp: reflector_options_def Let_def)
  have name: "oDisplayName ?q \<noteq> []" "\<not> length (oDisplayName ?q) > 64"
    using check_identity_None(2,3) [OF assms(1)] by (simp_all add: reflector_options_def Let_def)
  have size: "\<not> (oMaxDatagramBytes ?q < int BaseHeaderSize \<or> oMaxDatagramBytes ?q > int MaxDatagramSize)"
    using check_identity_None(5,6) [OF assms(1)] by (simp add: reflector_options_def Let_def)
  obtain u where u: "NewUDP (oInboundQueuePackets ?q) (oOutboundControlQueuePackets ?q) (oOutboundMediaQueueFrames ?q) = Some u"
    using accepted_numbers [OF assms(2)] by (simp add: NewUDP_def reflector_options_def Let_def)
  have keep: "ReflectorOptions_defaults ?q = ?q" "?q\<lparr>oLimits := Limits_defaults (oLimits ?q)\<rparr> = ?q"
    using options_keep [OF assms(2) check_identity_None(5) [OF assms(1)]] by simp_all
  show ?thesis
    using id name size u options_accepted [OF assms(2), of key] keep
    by (simp add: NewReflector_def options_publish Let_def)
qed

section \<open>Ticks of the monitoring goroutine\<close>

definition inbound_labels :: labels where
  "inbound_labels = [(''queue'', ''server_inbound''), (''item_type'', ''datagram'')]"

definition gap_labels :: labels where
  "gap_labels = [(''direction'', ''rx'')]"

lemma accepted_drop_labels:
  "accepted_labels ''opusref_queue_drops_total'' inbound_labels = Some inbound_labels"
  "accepted_labels ''opusref_sequence_gaps_total'' gap_labels = Some gap_labels"
  by (simp_all add: accepted_labels_code metricLabels_def metricValueOverrides_def labelValues_def inbound_labels_def gap_labels_def)

text \<open>
  The counter of dropped datagrams and that of sequence gaps, as the registry has them. An item of a
  run is a tick at an instant, or a call of another goroutine with other labels.
\<close>

definition drops_counted :: "Registry \<Rightarrow> u64" where
  "drops_counted r = counter ''opusref_queue_drops_total'' inbound_labels r"

definition gaps_counted :: "Registry \<Rightarrow> u64" where
  "gaps_counted r = counter ''opusref_sequence_gaps_total'' gap_labels r"

datatype daemon_event = DTick time time RuntimeSnapshot | DAdd add_call

definition foreign :: "add_call \<Rightarrow> bool" where
  "foreign ac = (case ac of (n, ls, amount) \<Rightarrow>
     \<not> (n = ''opusref_queue_drops_total'' \<and> accepted_labels n ls = Some inbound_labels) \<and>
     \<not> (n = ''opusref_sequence_gaps_total'' \<and> accepted_labels n ls = Some gap_labels))"

definition daemon_step :: "string \<Rightarrow> (u64 \<times> u64) \<times> Registry \<Rightarrow> daemon_event \<Rightarrow> (u64 \<times> u64) \<times> Registry" where
  "daemon_step reflector m ev = (case ev of
       DTick t u s \<Rightarrow> monitoring_tick reflector t u s (fst m) (snd m)
     | DAdd ac \<Rightarrow> (fst m, add_step (snd m) ac))"

lemma counter_same: "rgMetrics r' = rgMetrics r \<Longrightarrow> counter n c r' = counter n c r"
  by (simp add: counter_def)

lemma counter_frame [simp]:
  "counter n c (AddEvent t ev r) = counter n c r" "counter n c (Registry_Publish t s r) = counter n c r"
  by (simp_all add: counter_def AddEvent_def stamp_event_def append_event_def Registry_Publish_def Let_def)

lemma counter_Add:
  "accepted_labels name ls = Some c \<Longrightarrow> counter name c (snd (Registry_Add n ks amount r)) =
    counter name c r + (if n = name \<and> accepted_labels n ks = Some c then amount else 0)"
  using counter_add [of name ls c r n ks amount] by (simp add: add_step_def)

lemma max_strict: "max a b = (if a < b then b else a)" for a b :: u64
  by (auto simp: max_def not_le)

lemma daemon_step_counts:
  assumes "fst (fst m) = drops_counted (snd m)" "snd (fst m) = gaps_counted (snd m)"
    and "\<And>ac. ev = DAdd ac \<Longrightarrow> foreign ac"
  shows "let m' = daemon_step reflector m ev in
    drops_counted (snd m') = fst (fst m') \<and> gaps_counted (snd m') = snd (fst m') \<and>
    fst (fst m') = (case ev of DTick t u s \<Rightarrow> max (fst (fst m)) (rsInboundDrops s) | _ \<Rightarrow> fst (fst m)) \<and>
    snd (fst m') = (case ev of DTick t u s \<Rightarrow> max (snd (fst m)) (rsSequenceGaps s) | _ \<Rightarrow> snd (fst m))"
proof (cases ev)
  case (DTick t u s)
  obtain a b r where m: "m = ((a, b), r)" by (metis surj_pair)
  note count = counter_Add [OF accepted_drop_labels(1)] counter_Add [OF accepted_drop_labels(2)]
  have ab: "a = drops_counted r" "b = gaps_counted r" using assms(1,2) by (simp_all add: m)
  show ?thesis
    by (cases "rsInboundDrops s > counter ''opusref_queue_drops_total'' inbound_labels r";
        cases "rsSequenceGaps s > counter ''opusref_sequence_gaps_total'' gap_labels r")
      (simp_all add: DTick m ab daemon_step_def monitoring_tick_def drops_counted_def gaps_counted_def Let_def count
        accepted_drop_labels inbound_labels_def [symmetric] gap_labels_def [symmetric] max_strict)
next
  case (DAdd ac)
  obtain n ls amount where ac: "ac = (n, ls, amount)" by (cases ac)
  with assms(3) DAdd have "foreign (n, ls, amount)" by simp
  then show ?thesis
    using assms(1,2) counter_add [OF accepted_drop_labels(1), of "snd m" n ls amount]
      counter_add [OF accepted_drop_labels(2), of "snd m" n ls amount]
    by (auto simp: DAdd ac daemon_step_def drops_counted_def gaps_counted_def foreign_def Let_def)
qed

fun only_foreign :: "daemon_event list \<Rightarrow> bool" where
  "only_foreign [] = True"
| "only_foreign (DTick t u s # evs) = only_foreign evs"
| "only_foreign (DAdd ac # evs) = (foreign ac \<and> only_foreign evs)"

definition largest :: "(RuntimeSnapshot \<Rightarrow> u64) \<Rightarrow> daemon_event list \<Rightarrow> u64 \<Rightarrow> u64" where
  "largest f evs = fold (\<lambda>ev n. case ev of DTick t u s \<Rightarrow> max n (f s) | _ \<Rightarrow> n) evs"

lemma daemon_run_counts:
  assumes "fst (fst m) = drops_counted (snd m)" "snd (fst m) = gaps_counted (snd m)" and "only_foreign evs"
  shows "drops_counted (snd (run (daemon_step reflector) m evs)) = largest rsInboundDrops evs (fst (fst m)) \<and>
    gaps_counted (snd (run (daemon_step reflector) m evs)) = largest rsSequenceGaps evs (snd (fst m))"
  using assms
proof (induction evs arbitrary: m)
  case (Cons ev evs)
  have f: "only_foreign evs" "\<And>ac. ev = DAdd ac \<Longrightarrow> foreign ac" using Cons.prems(3) by (cases ev; simp)+
  note step = daemon_step_counts [OF Cons.prems(1,2) f(2), of ev reflector, unfolded Let_def]
  from Cons.IH [of "daemon_step reflector m ev"] step f(1)
  show ?case by (cases ev) (simp_all add: largest_def)
qed (simp add: largest_def)

section \<open>Listening and transmitting\<close>

definition media_records :: "Event list \<Rightarrow> Record list" where
  "media_records evs = concat (map (\<lambda>ev. case event_record ev of None \<Rightarrow> [] | Some rec \<Rightarrow> [rec]) evs)"

lemma media_records_simps [simp]:
  "media_records [] = []"
  "media_records (ev # evs) = (case event_record ev of None \<Rightarrow> media_records evs | Some rec \<Rightarrow> rec # media_records evs)"
  by (simp_all add: media_records_def split: option.split)

definition record_bytes :: "Record \<Rightarrow> bytes" where
  "record_bytes rec = record_header (rKind rec) (rDataType rec) (rTimestamp rec) (word_of_nat (length (rPayload rec))) @ rPayload rec"

definition record_call :: "Record \<Rightarrow> client_call" where
  "record_call rec = (if rKind rec = KindAudio then DoSendAudio (rTimestamp rec) (rPayload rec)
     else DoSendData (rTimestamp rec) (rDataType rec) (rPayload rec))"

lemma listen_events:
  "list_all wf_record (media_records evs) \<Longrightarrow>
    listen (map ListenEvent evs @ ws) out = listen ws (out @ concat (map record_bytes (media_records evs)))"
proof (induction evs arbitrary: out)
  case (Cons ev evs)
  then show ?case
    by (cases "event_record ev") (simp_all add: Write_eq record_bytes_def)
qed simp

lemma transmit_records:
  "list_all wf_record recs \<Longrightarrow> (\<And>n. n < length recs \<Longrightarrow> answer (length calls + n) = None \<and> \<not> stop (length calls + n)) \<Longrightarrow>
    transmit stop answer (concat (map record_bytes recs) @ rest) calls = transmit stop answer rest (calls @ map record_call recs)"
proof (induction recs arbitrary: calls)
  case (Cons rec recs)
  let ?src = "concat (map record_bytes recs) @ rest"
  have "Read (record_bytes rec @ ?src) = Some (Inr rec, ?src)"
    using Cons.prems(1) by (simp add: record_bytes_def Read_Write)
  moreover have "answer (length calls) = None" "\<not> stop (length calls)" using Cons.prems(2) [of 0] by simp_all
  ultimately have "transmit stop answer (record_bytes rec @ ?src) calls = transmit stop answer ?src (calls @ [record_call rec])"
    by (simp add: transmit.simps [of stop answer "record_bytes rec @ ?src"] record_call_def Let_def)
  also have "\<dots> = transmit stop answer rest ((calls @ [record_call rec]) @ map record_call recs)"
    using Cons.prems(1) Cons.prems(2) [of "Suc n" for n] by (intro Cons.IH) simp_all
  finally show ?case by simp
qed simp

lemma transmit_end:
  "\<not> stop (length calls) \<Longrightarrow> transmit stop answer [] calls = Some (calls @ [DoEndStream], map_option ClientError (answer (length calls)))"
  by (simp add: transmit.simps Read_short)

section \<open>Key files\<close>

lemma key_file_too_long:
  assumes "osFile os path = Inr content" and "length content > 65"
  shows "ReadSharedKeyFile os path = Inl (ConfigError ''shared key file is too large'')"
  using assms by (simp add: ReadSharedKeyFile_def Let_def)

section \<open>Properties\<close>

text \<open>
  A configuration that \<^verbatim>\<open>Load\<close> accepts, with a key that \<^verbatim>\<open>SharedKey\<close> accepts, starts the daemon
  once the socket is bound: the reflector takes over every configured number as it is, its
  invariant holds, and the monitoring surface answers that it is not ready yet.
\<close>

theorem accepted_configuration_starts:
  assumes "Load os decode path = Inr cfg" and "SharedKey os cfg = Inr key"
  shows "\<exists>r registry. daemon_start os decode path True clk rnd t = Inr (r, registry) \<and>
    options r = reflector_options cfg key \<and> refl_inv r \<and> (key = [] \<or> 16 \<le> length key \<and> length key \<le> 64) \<and>
    rgCapacity registry = nat (cgRecentEvents (cgLimits cfg)) \<and>
    Handler fmt_g health' t RouteReady registry = Some (503, BodyError ''not ready'')"
proof -
  have checks: "check_identity os cfg = None" "check_numbers cfg = None" using Load_checks [OF assms(1)] by simp_all
  obtain r where r: "NewReflector (reflector_options cfg key) clk rnd (osUnicode os) = Inr r" "options r = reflector_options cfg key"
    using accepted_reflector [OF checks] by blast
  let ?reg = "Registry_Publish t (zeroSnapshot\<lparr>moReflectorID := cgID (cgReflector cfg)\<rparr>)
    (Registry_New (cgRecentEvents (cgLimits cfg)) (cgHealthDeadline (cgTimers cfg)) t t)"
  have "daemon_start os decode path True clk rnd t = Inr (r, ?reg)"
    using assms r(1) by (simp add: daemon_start_def Let_def)
  moreover have "rgCapacity ?reg = nat (cgRecentEvents (cgLimits cfg))"
    using accepted_numbers(10) [OF checks(2)] by (simp add: Registry_New_def Registry_Publish_def Let_def)
  moreover have "Handler fmt_g health' t RouteReady ?reg = Some (503, BodyError ''not ready'')"
    by (simp add: Handler_def Registry_Publish_def zeroSnapshot_def)
  ultimately show ?thesis
    using r(2) NewReflector_inv [OF r(1)] SharedKey_length [OF assms(2)] by blast
qed

definition sample_config :: Config where
  "sample_config = Defaults\<lparr>cgReflector := \<lparr>cgID = ''REF1'', cgDisplayName = ''Reflector''\<rparr>\<rparr>"

definition sample_os :: operating_system where
  "sample_os = \<lparr>osFile = (\<lambda>_. Inr []), osStat = (\<lambda>_. Inl (SystemError ''no such file'')), osGetenv = (\<lambda>_. ''0123456789abcdef''),
     osUDPAddr = (\<lambda>_. True), osTCPAddr = (\<lambda>_. True), osUnicode = (\<lambda>s. s)\<rparr>"

lemma sample_loads:
  "Load sample_os (\<lambda>_ _. Inr sample_config) path = Inr sample_config"
  "SharedKey sample_os sample_config = Inr (bytes_of ''0123456789abcdef'')"
proof -
  have "ReflectorID (\<lambda>s. s) ''REF1'' = Inr (bytes_of ''REF1            '')" by code_simp
  moreover have "utf8_valid (bytes_of ''Reflector'')" by code_simp
  ultimately show "Load sample_os (\<lambda>_ _. Inr sample_config) path = Inr sample_config"
    by (simp add: Load_def sample_os_def sample_config_def Defaults_def check_identity_def check_numbers_def
      check_logging_def capacities_def timers_def Let_def Second_def Millisecond_def)
  show "SharedKey sample_os sample_config = Inr (bytes_of ''0123456789abcdef'')"
    by (simp add: SharedKey_def sample_os_def sample_config_def Defaults_def validateKey_def Let_def)
qed

theorem accepted_configuration_starts_witness:
  "\<exists>r registry. daemon_start sample_os (\<lambda>_ _. Inr sample_config) [] True (\<lambda>_. 1) [] 5 = Inr (r, registry) \<and>
    oSharedKey (options r) = bytes_of ''0123456789abcdef''"
  using accepted_configuration_starts [OF sample_loads, of "[]" "\<lambda>_. 1" "[]" 5 "\<lambda>_. []" None]
  by (auto simp: reflector_options_def Let_def)

text \<open>
  The key file: a file that only its owner can read, with a key that does not end in a line end
  and then at most one LF or CRLF, gives the key exactly if the key has 16 to 64 bytes and the
  file has at most 65. A key of 64 bytes followed by CRLF is therefore refused.
\<close>

theorem key_file_exact:
  assumes "osStat os path = Inr \<lparr>fiRegular = True, fiPerm = 0x180\<rparr>" and "osFile os path = Inr (key @ e)"
    and "e \<in> {[], [10], [13, 10]}" and "last key \<notin> {10, 13}"
  shows "(key_file os path = Inr k) = (k = key \<and> 16 \<le> length key \<and> length key \<le> 64 \<and> length (key @ e) \<le> 65)"
proof (cases "length (key @ e) \<le> 65")
  case False
  then have "ReadSharedKeyFile os path = Inl (ConfigError ''shared key file is too large'')"
    by (intro key_file_too_long [OF assms(2)]) simp
  with False assms(1) show ?thesis by (simp add: key_file_def)
next
  case True
  have "ReadSharedKeyFile os path = Inr key" by (rule key_file_line_end [OF assms(2,3) True]) (use assms(4) in simp)
  then have "key_file os path = validateKey key" using assms(1) by (simp add: key_file_def)
  with True show ?thesis by (auto simp: validateKey_def)
qed

theorem key_file_exact_witness:
  "let os = sample_os\<lparr>osStat := \<lambda>_. Inr \<lparr>fiRegular = True, fiPerm = 0x180\<rparr>\<rparr> in
    key_file (os\<lparr>osFile := \<lambda>_. Inr (replicate 64 65 @ [10])\<rparr>) [] = Inr (replicate 64 65) \<and>
    key_file (os\<lparr>osFile := \<lambda>_. Inr (replicate 64 65 @ [13, 10])\<rparr>) [] \<noteq> Inr (replicate 64 65)"
proof -
  let ?os = "sample_os\<lparr>osStat := \<lambda>_. Inr \<lparr>fiRegular = True, fiPerm = 0x180\<rparr>\<rparr>"
  have "last (replicate 64 (65 :: byte)) = 65" by simp
  then show ?thesis
    using key_file_exact [of "?os\<lparr>osFile := \<lambda>_. Inr (replicate 64 65 @ [10])\<rparr>" "[]" "replicate 64 65" "[10]" "replicate 64 65"]
      key_file_exact [of "?os\<lparr>osFile := \<lambda>_. Inr (replicate 64 65 @ [13, 10])\<rparr>" "[]" "replicate 64 65" "[13, 10]" "replicate 64 65"]
    by (simp add: Let_def)
qed

text \<open>
  C34. The monitoring goroutine counts every dropped datagram and every sequence gap once. After any
  sequence of its ticks, interleaved with counts of other goroutines under other labels, the two
  counters are the largest totals that the snapshots of the reflector showed.
\<close>

theorem ticks_count_once:
  assumes "only_foreign evs"
  shows "let r = snd (run (daemon_step reflector) ((0, 0), Registry_New capacity deadline started t) evs) in
    counter ''opusref_queue_drops_total'' inbound_labels r = largest rsInboundDrops evs 0 \<and>
    counter ''opusref_sequence_gaps_total'' gap_labels r = largest rsSequenceGaps evs 0"
proof -
  have "drops_counted (Registry_New capacity deadline started t) = 0" "gaps_counted (Registry_New capacity deadline started t) = 0"
    by (simp_all add: drops_counted_def gaps_counted_def counter_def Registry_New_def Registry_Publish_def Let_def)
  then show ?thesis
    using daemon_run_counts [of "((0, 0), Registry_New capacity deadline started t)" evs reflector] assms
    by (simp add: Let_def drops_counted_def gaps_counted_def)
qed

theorem ticks_count_once_witness:
  "let s = zeroRuntimeSnapshot;
       r = snd (run (daemon_step ''REF'') ((0, 0), Registry_New 8 0 0 0)
         [DTick 1 1 (s\<lparr>rsInboundDrops := 3\<rparr>), DAdd (''opusref_busy_total'', [], 1), DTick 2 3 (s\<lparr>rsInboundDrops := 7, rsSequenceGaps := 2\<rparr>)]) in
    counter ''opusref_queue_drops_total'' inbound_labels r = 7 \<and> counter ''opusref_sequence_gaps_total'' gap_labels r = 2"
  using ticks_count_once [of "[DTick 1 1 (zeroRuntimeSnapshot\<lparr>rsInboundDrops := 3\<rparr>), DAdd (''opusref_busy_total'', [], 1),
      DTick 2 3 (zeroRuntimeSnapshot\<lparr>rsInboundDrops := 7, rsSequenceGaps := 2\<rparr>)]" "''REF''" 8 0 0 0]
  by (simp add: foreign_def largest_def zeroRuntimeSnapshot_def Let_def)

text \<open>
  C27. What \<^verbatim>\<open>listen\<close> writes is what \<^verbatim>\<open>transmit\<close> sends: for events whose media are records, the output
  of \<^verbatim>\<open>listen\<close> as the input of \<^verbatim>\<open>transmit\<close> makes the client send exactly the received media with
  their timestamps and types, in order, and then end the stream, if no call fails before.
\<close>

theorem listen_transmit_roundtrip:
  assumes "list_all wf_record (media_records evs)"
    and "\<And>n. n < length (media_records evs) \<Longrightarrow> answer n = None" and "\<And>n. \<not> stop n"
  shows "\<exists>out. listen (map ListenEvent evs @ [ListenStop]) [] = Some (ListenReturned None, out) \<and>
    transmit stop answer out [] =
      Some (map record_call (media_records evs) @ [DoEndStream],
            map_option ClientError (answer (length (media_records evs))))"
  using listen_events [OF assms(1), of "[ListenStop]" "[]"]
    transmit_records [OF assms(1), of answer "[]" stop "[]"] assms(2,3)
  by (simp add: transmit_end)

theorem listen_transmit_roundtrip_witness:
  "\<exists>out. listen (map ListenEvent [(newEvent EventAudio)\<lparr>ceTimestamp := 960, cePayload := [1, 2]\<rparr>, newEvent EventBusy,
      (newEvent EventData)\<lparr>ceTimestamp := 1920, ceDataType := 7, cePayload := [3]\<rparr>] @ [ListenStop]) [] = Some (ListenReturned None, out) \<and>
    transmit (\<lambda>_. False) (\<lambda>_. None) out [] = Some ([DoSendAudio 960 [1, 2], DoSendData 1920 7 [3], DoEndStream], None)"
  using listen_transmit_roundtrip [of "[(newEvent EventAudio)\<lparr>ceTimestamp := 960, cePayload := [1, 2]\<rparr>, newEvent EventBusy,
      (newEvent EventData)\<lparr>ceTimestamp := 1920, ceDataType := 7, cePayload := [3]\<rparr>]" "\<lambda>_. None" "\<lambda>_. False"]
  by (simp add: newEvent_def event_record_def wf_record_def record_call_def)

end
