(* ===== verification/Flags.thy ===== *)
theory Flags
  imports Prelude
begin

text \<open>
  The part of the package \<^verbatim>\<open>flag\<close> that the two commands use: \<^verbatim>\<open>FlagSet.Parse\<close> for flags that take a value.
\<close>

datatype flag_error = FlagSyntax string | FlagUndefined string | FlagHelp | FlagMissing string | FlagInvalid string string

text \<open>The name of a flag and what follows its first equals sign, which is not its first character.\<close>

definition split_flag :: "string \<Rightarrow> string \<times> string option" where
  "split_flag name = (takeWhile (\<lambda>c. c \<noteq> CHR ''='') name,
     case dropWhile (\<lambda>c. c \<noteq> CHR ''='') name of [] \<Rightarrow> None | _ # v \<Rightarrow> Some v)"

text \<open>
  \<^verbatim>\<open>FlagSet.Parse\<close>: \<open>formal\<close> has the setters of the defined flags. Parsing stops at the first argument
  that is not a flag.
\<close>

fun Parse :: "(string \<Rightarrow> (string \<Rightarrow> 'f \<Rightarrow> 'f option) option) \<Rightarrow> string list \<Rightarrow> 'f \<Rightarrow> flag_error + 'f" where
  "Parse formal [] f = Inr f"
| "Parse formal (s # args) f =
     (if length s < 2 \<or> hd s \<noteq> CHR ''-'' \<or> s = ''--'' then Inr f
      else let name = (if hd (tl s) = CHR ''-'' then drop 2 s else drop 1 s) in
        if hd name = CHR ''-'' \<or> hd name = CHR ''='' then Inl (FlagSyntax s)
        else let (name, given) = split_flag name in
          case formal name of
            None \<Rightarrow> Inl (if name = ''help'' \<or> name = ''h'' then FlagHelp else FlagUndefined name)
          | Some assign \<Rightarrow>
              (case given of
                 Some v \<Rightarrow> (case assign v f of None \<Rightarrow> Inl (FlagInvalid name v) | Some f \<Rightarrow> Parse formal args f)
               | None \<Rightarrow>
                   (case args of
                      [] \<Rightarrow> Inl (FlagMissing name)
                    | v # args \<Rightarrow> (case assign v f of None \<Rightarrow> Inl (FlagInvalid name v) | Some f \<Rightarrow> Parse formal args f))))"

end
