(* ===== verification/ControlProgram.thy ===== *)
theory ControlProgram
  imports CommandProps UdpClient Flags
begin

text \<open>
  The whole of \<^verbatim>\<open>cmd/opusrefctl/main.go\<close>: the flags, the calls that \<^verbatim>\<open>run\<close> makes of the client and their order, and the exit code. What the client,
  the signals and the input answer is a record of answers; the time texts are parsed by a parameter.
\<close>

section \<open>Flags\<close>

definition default_common :: common where
  "default_common = \<lparr>coServer = [], coNode = [], coKeyEnv = ''OPUSREF_SHARED_KEY'', coKeyFile = [],
     coConnectTimeout = 10 * Second, coOperationTimeout = 5 * Second\<rparr>"

definition ctl_flags :: "(string \<Rightarrow> duration option) \<Rightarrow> bool \<Rightarrow> string \<Rightarrow> (string \<Rightarrow> common \<times> string \<Rightarrow> (common \<times> string) option) option" where
  "ctl_flags ParseDuration transmitting = map_of ([
     (''server'', \<lambda>v (c, s). Some (c\<lparr>coServer := v\<rparr>, s)),
     (''node'', \<lambda>v (c, s). Some (c\<lparr>coNode := v\<rparr>, s)),
     (''shared-key-env'', \<lambda>v (c, s). Some (c\<lparr>coKeyEnv := v\<rparr>, s)),
     (''shared-key-file'', \<lambda>v (c, s). Some (c\<lparr>coKeyFile := v\<rparr>, s)),
     (''connect-timeout'', \<lambda>v (c, s). map_option (\<lambda>d. (c\<lparr>coConnectTimeout := d\<rparr>, s)) (ParseDuration v)),
     (''operation-timeout'', \<lambda>v (c, s). map_option (\<lambda>d. (c\<lparr>coOperationTimeout := d\<rparr>, s)) (ParseDuration v))] @
     (if transmitting then [(''source'', \<lambda>v (c, s). Some (c, v))] else []))"

section \<open>Run\<close>

text \<open>
  What happens while the program runs: the result of \<^verbatim>\<open>NewUDP\<close> for the options, that of \<^verbatim>\<open>Connect\<close>, whether the
  first event came before a signal, the rounds of \<^verbatim>\<open>listen\<close>, the result of \<^verbatim>\<open>RequestStream\<close>, whether a signal comes
  at each round of \<^verbatim>\<open>transmit\<close>, the results of its calls, and the input.
\<close>

record ctl_world =
  cwNew :: "Options \<Rightarrow> client_error option"
  cwConnect :: "client_error option"
  cwFirst :: bool
  cwListen :: "listen_wake list"
  cwRequest :: "client_error option"
  cwStop :: "nat \<Rightarrow> bool"
  cwAnswer :: "nat \<Rightarrow> client_error option"
  cwInput :: bytes

datatype ctl_call = CtlNew Options | CtlConnect duration | CtlRequestStream duration string | CtlMedia client_call | CtlClose

datatype ctl_failure = CtlFlags flag_error | CtlError ctl_error

datatype ctl_result = CtlRunning | CtlReturned "ctl_failure option"

definition ctl_options :: "common \<Rightarrow> string \<Rightarrow> Options" where
  "ctl_options c key = \<lparr>clServerAddress = coServer c, clNodeCallsign = coNode c, clSharedKey = key,
     clInboundQueuePackets = 0, clApplicationQueueEvents = 0, clMediaSendQueueFrames = 0, clControlSendQueuePackets = 0,
     clConnectTimeout = coConnectTimeout c, clOperationTimeout = coOperationTimeout c\<rparr>"

definition returned :: "ctl_error option \<Rightarrow> ctl_result" where
  "returned err = CtlReturned (map_option CtlError err)"

definition listened :: "listen_result \<Rightarrow> ctl_result" where
  "listened res = (case res of Listening \<Rightarrow> CtlRunning | ListenReturned err \<Rightarrow> returned err)"

text \<open>The calls of the client in order, the output, and the result, after the client was made; the last call is the deferred one.\<close>

definition ctl_session :: "ctl_world \<Rightarrow> common \<Rightarrow> bool \<Rightarrow> string \<Rightarrow> (ctl_call list \<times> bytes \<times> ctl_result) option" where
  "ctl_session w c transmitting source =
     (case cwConnect w of
        Some err \<Rightarrow> Some ([CtlConnect (coConnectTimeout c), CtlClose], [], returned (Some (ClientError err)))
      | None \<Rightarrow>
          if \<not> cwFirst w then Some ([CtlConnect (coConnectTimeout c), CtlClose], [], returned None)
          else if \<not> transmitting then do {
            (res, out) \<leftarrow> listen (cwListen w) [];
            Some (CtlConnect (coConnectTimeout c) # (if res = Listening then [] else [CtlClose]), out, listened res)
          }
          else let request = [CtlConnect (coConnectTimeout c), CtlRequestStream (coOperationTimeout c) source] in
            case cwRequest w of
              Some err \<Rightarrow> Some (request @ [CtlClose], [], returned (Some (ClientError err)))
            | None \<Rightarrow> do {
                (calls, err) \<leftarrow> transmit (cwStop w) (cwAnswer w) (cwInput w) [];
                Some (request @ map CtlMedia calls @ [CtlClose], [], returned err)
              })"

definition ctl_run :: "(string \<Rightarrow> duration option) \<Rightarrow> operating_system \<Rightarrow> ctl_world \<Rightarrow> string list \<Rightarrow> (ctl_call list \<times> bytes \<times> ctl_result) option" where
  "ctl_run ParseDuration os w args =
     (case args of
        [] \<Rightarrow> Some ([], [], returned (Some (Usage ''use listen or transmit'')))
      | cmd # args \<Rightarrow>
          (case Parse (ctl_flags ParseDuration (cmd = ''transmit'')) args (default_common, []) of
             Inl err \<Rightarrow> Some ([], [], CtlReturned (Some (CtlFlags err)))
           | Inr (c, source) \<Rightarrow>
               (case check_command cmd c source of
                  Inl err \<Rightarrow> Some ([], [], returned (Some err))
                | Inr transmitting \<Rightarrow>
                    (case readKey os c of
                       Inl err \<Rightarrow> Some ([], [], returned (Some err))
                     | Inr key \<Rightarrow>
                         let new = CtlNew (ctl_options c key) in
                         (case cwNew w (ctl_options c key) of
                            Some err \<Rightarrow> Some ([new], [], returned (Some (ClientError err)))
                          | None \<Rightarrow> do {
                              (calls, out, res) \<leftarrow> ctl_session w c transmitting source;
                              Some (new # calls, out, res)
                            })))))"

text \<open>\<^verbatim>\<open>main\<close>: the exit code of a run that returned.\<close>

definition ctl_main :: "ctl_result \<Rightarrow> nat option" where
  "ctl_main res = (case res of CtlRunning \<Rightarrow> None | CtlReturned None \<Rightarrow> Some 0 | CtlReturned (Some _) \<Rightarrow> Some 1)"

section \<open>Properties\<close>

lemma transmit_complete:
  assumes "transmit stop answer src calls = Some (calls', None)" and "\<And>n. \<not> stop n"
  obtains recs rest where "list_all wf_record recs" and "src = concat (map record_bytes recs) @ rest"
    and "rest = [] \<or> (\<exists>k t ts n. rest = record_header k t ts n)" and "calls' = calls @ map record_call recs @ [DoEndStream]"
  using assms
proof (induction stop answer src calls arbitrary: thesis rule: transmit.induct)
  case (1 stop answer src calls)
  have go: "stop (length calls) = False" using 1(4) by simp
  note step = transmit.simps [of stop answer src calls]
  obtain x rest where x: "Read src = Some (x, rest)" using 1(3) by (cases "Read src") (auto simp: step go)
  show ?case
  proof (cases x)
    case (Inl err)
    have "is_EOF err" and calls': "calls' = calls @ [DoEndStream]"
      using 1(3) x Inl by (auto simp: step go split: if_splits)
    then have "src = [] \<or> (\<exists>k t ts n. src = record_header k t ts n)"
      using x Inl eof_source [of src] by blast
    then show ?thesis using 1(2) [of "[]" src] calls' by simp
  next
    case (Inr rec)
    have answer: "answer (length calls) = None" using 1(3) x Inr by (auto simp: step go Let_def split: option.splits)
    then have t: "transmit stop answer rest (calls @ [record_call rec]) = Some (calls', None)"
      using 1(3) x Inr by (simp add: step go Let_def record_call_def)
    have src: "src = record_bytes rec @ rest" "wf_record rec" using Read_accepts [of src rec rest] x Inr by (simp_all add: record_bytes_def)
    show ?thesis
    proof (rule 1(1) [OF 1(4) x [unfolded Inr] refl refl refl answer])
      show "transmit stop answer rest (calls @ [if rKind rec = KindAudio then DoSendAudio (rTimestamp rec) (rPayload rec)
          else DoSendData (rTimestamp rec) (rDataType rec) (rPayload rec)]) = Some (calls', None)"
        using t by (simp add: record_call_def)
    next
      fix recs tail
      assume "list_all wf_record recs" "rest = concat (map record_bytes recs) @ tail"
        "tail = [] \<or> (\<exists>k t ts n. tail = record_header k t ts n)"
        "calls' = (calls @ [if rKind rec = KindAudio then DoSendAudio (rTimestamp rec) (rPayload rec)
          else DoSendData (rTimestamp rec) (rDataType rec) (rPayload rec)]) @ map record_call recs @ [DoEndStream]"
      with src show thesis by (intro 1(2) [of "rec # recs" tail]) (simp_all add: record_call_def)
    qed (rule 1(4))
  qed
qed

lemma Read_total: "Read src \<noteq> None"
  using record_read_iff_written by blast

lemma listen_total: "listen ws out \<noteq> None"
  by (induction ws out rule: listen.induct) (auto simp: Write_eq split: option.splits)

lemma transmit_total: "transmit stop answer src calls \<noteq> None"
proof (induction stop answer src calls rule: transmit.induct)
  case (1 stop answer src calls)
  obtain x rest where x: "Read src = Some (x, rest)" using Read_total by fastforce
  show ?case
  proof (cases x)
    case (Inl err)
    then show ?thesis using x by (simp add: transmit.simps [of stop answer src calls])
  next
    case (Inr rec)
    show ?thesis
    proof (cases "stop (length calls) \<or> answer (length calls) \<noteq> None")
      case True
      then show ?thesis using x Inr by (auto simp: transmit.simps [of stop answer src calls] Let_def)
    next
      case False
      then show ?thesis
        using x Inr 1 by (simp add: transmit.simps [of stop answer src calls] Let_def)
    qed
  qed
qed

text \<open>
  Neither command panics, whatever its arguments, its input and the answers of the client, and a
  client that was made is closed, last of all calls, whenever the command returns.
\<close>

lemma ctl_session_closes:
  obtains calls out res where "ctl_session w c transmitting source = Some (calls, out, res)"
    and "res = CtlRunning \<or> last calls = CtlClose"
proof -
  obtain res out where l: "listen (cwListen w) [] = Some (res, out)" using listen_total by fastforce
  obtain calls err where t: "transmit (cwStop w) (cwAnswer w) (cwInput w) [] = Some (calls, err)" using transmit_total by fastforce
  show thesis
    by (rule that [of "fst (the (ctl_session w c transmitting source))" "fst (snd (the (ctl_session w c transmitting source)))"
        "snd (snd (the (ctl_session w c transmitting source)))"])
      (auto simp: ctl_session_def l t Let_def listened_def split: option.splits)
qed

theorem ctl_run_closes:
  "\<exists>calls out res. ctl_run ParseDuration os w args = Some (calls, out, res) \<and>
    (res = CtlRunning \<or> last calls = CtlClose \<or> (\<forall>q. CtlNew q \<in> set calls \<longrightarrow> cwNew w q \<noteq> None))"
proof (cases args)
  case Nil
  then show ?thesis by (simp add: ctl_run_def)
next
  case (Cons cmd as)
  show ?thesis
  proof (cases "\<exists>c source transmitting key. Parse (ctl_flags ParseDuration (cmd = ''transmit'')) as (default_common, []) = Inr (c, source) \<and>
      check_command cmd c source = Inr transmitting \<and> readKey os c = Inr key \<and> cwNew w (ctl_options c key) = None")
    case True
    then obtain c source transmitting key where run: "Parse (ctl_flags ParseDuration (cmd = ''transmit'')) as (default_common, []) = Inr (c, source)"
      "check_command cmd c source = Inr transmitting" "readKey os c = Inr key" "cwNew w (ctl_options c key) = None"
      by blast
    obtain calls out res where s: "ctl_session w c transmitting source = Some (calls, out, res)"
      "res = CtlRunning \<or> last calls = CtlClose"
      by (rule ctl_session_closes)
    then have "calls \<noteq> []"
      by (auto simp: ctl_session_def bind_eq_Some_conv Let_def split: option.splits if_splits)
    with s run show ?thesis by (auto simp: Cons ctl_run_def Let_def)
  qed (auto simp: Cons ctl_run_def Let_def split: sum.split option.split)
qed

lemma ctl_run_transmit:
  assumes "ctl_run ParseDuration os w (''transmit'' # args) = Some (calls, out, CtlReturned None)" and "cwFirst w"
  obtains c key source media where "Parse (ctl_flags ParseDuration True) args (default_common, []) = Inr (c, source)"
    and "source \<noteq> []" and "readKey os c = Inr key" and "transmit (cwStop w) (cwAnswer w) (cwInput w) [] = Some (media, None)"
    and "calls = CtlNew (ctl_options c key) # CtlConnect (coConnectTimeout c) #
      CtlRequestStream (coOperationTimeout c) source # map CtlMedia media @ [CtlClose]"
  using assms
  by (auto simp: ctl_run_def ctl_session_def returned_def check_command_def bind_eq_Some_conv Let_def
    split: sum.splits option.splits if_splits prod.splits)

text \<open>
  C18. A transmission that \<^verbatim>\<open>opusrefctl\<close> reports as done is complete. If \<^verbatim>\<open>transmit\<close> returns no error and no signal
  stopped it, then the calls of its client are, in this order: connect, request the stream for the given source
  callsign, one media call for each record of the input, the end of the stream, close; and the input was
  exactly these records, but for at most one record header whose payload is missing.
\<close>

theorem ctl_transmit_complete:
  assumes "ctl_run ParseDuration os w (''transmit'' # args) = Some (calls, out, CtlReturned None)"
    and "cwFirst w" and "\<And>n. \<not> cwStop w n"
  shows "\<exists>c key source recs rest. Parse (ctl_flags ParseDuration True) args (default_common, []) = Inr (c, source) \<and>
    source \<noteq> [] \<and> readKey os c = Inr key \<and>
    calls = [CtlNew (ctl_options c key), CtlConnect (coConnectTimeout c), CtlRequestStream (coOperationTimeout c) source] @
      map (CtlMedia \<circ> record_call) recs @ [CtlMedia DoEndStream, CtlClose] \<and>
    list_all wf_record recs \<and> cwInput w = concat (map record_bytes recs) @ rest \<and>
    (rest = [] \<or> (\<exists>k t ts n. rest = record_header k t ts n))"
proof -
  obtain c key source media where run: "Parse (ctl_flags ParseDuration True) args (default_common, []) = Inr (c, source)"
    "source \<noteq> []" "readKey os c = Inr key" "transmit (cwStop w) (cwAnswer w) (cwInput w) [] = Some (media, None)"
    "calls = CtlNew (ctl_options c key) # CtlConnect (coConnectTimeout c) #
      CtlRequestStream (coOperationTimeout c) source # map CtlMedia media @ [CtlClose]"
    using ctl_run_transmit [OF assms(1,2)] by metis
  obtain recs rest where "list_all wf_record recs" "cwInput w = concat (map record_bytes recs) @ rest"
    "rest = [] \<or> (\<exists>k t ts n. rest = record_header k t ts n)" "media = [] @ map record_call recs @ [DoEndStream]"
    using transmit_complete [OF run(4) assms(3)] by metis
  with run show ?thesis by (intro exI [of _ c] exI [of _ key] exI [of _ source] exI [of _ recs] exI [of _ rest]) simp
qed

definition sample_record :: Record where
  "sample_record = \<lparr>rKind = KindAudio, rDataType = 0, rTimestamp = 960, rPayload = [1, 2, 3]\<rparr>"

definition sample_world :: ctl_world where
  "sample_world = \<lparr>cwNew = (\<lambda>_. None), cwConnect = None, cwFirst = True, cwListen = [], cwRequest = None,
     cwStop = (\<lambda>_. False), cwAnswer = (\<lambda>_. None), cwInput = record_bytes sample_record\<rparr>"

definition sample_args :: "string list" where
  "sample_args = [''--server'', ''10.0.0.1:5000'', ''-node=N0CALL'', ''--source'', ''N0CALL'']"

lemma sample_flags:
  "Parse (ctl_flags (\<lambda>_. None) True) sample_args (default_common, []) =
    Inr (default_common\<lparr>coServer := ''10.0.0.1:5000'', coNode := ''N0CALL''\<rparr>, ''N0CALL'')"
  by code_simp

lemma sample_transmit: "transmit (\<lambda>_. False) (\<lambda>_. None) (record_bytes sample_record) [] = Some ([DoSendAudio 960 [1, 2, 3], DoEndStream], None)"
  by code_simp

lemma sample_run:
  "\<exists>calls. ctl_run (\<lambda>_. None) sample_os sample_world (''transmit'' # sample_args) = Some (calls, [], CtlReturned None) \<and> length calls = 6"
proof -
  let ?c = "default_common\<lparr>coServer := ''10.0.0.1:5000'', coNode := ''N0CALL''\<rparr>"
  obtain key where key: "readKey sample_os ?c = Inr key" by (simp add: readKey_def sample_os_def default_common_def)
  have command: "check_command ''transmit'' ?c ''N0CALL'' = Inr True" by (simp add: check_command_def)
  show ?thesis
    by (simp add: ctl_run_def ctl_session_def sample_flags key command sample_transmit sample_world_def returned_def Let_def)
qed

theorem ctl_transmit_complete_witness:
  "\<exists>calls recs rest. ctl_run (\<lambda>_. None) sample_os sample_world (''transmit'' # sample_args) = Some (calls, [], CtlReturned None) \<and>
    calls ! 2 = CtlRequestStream (5 * Second) ''N0CALL'' \<and> length recs = 1 \<and>
    cwInput sample_world = concat (map record_bytes recs) @ rest"
proof -
  obtain calls where run: "ctl_run (\<lambda>_. None) sample_os sample_world (''transmit'' # sample_args) = Some (calls, [], CtlReturned None)"
    and n: "length calls = 6"
    using sample_run by blast
  obtain c key source recs rest where parsed: "Parse (ctl_flags (\<lambda>_. None) True) sample_args (default_common, []) = Inr (c, source)"
    and calls: "calls = [CtlNew (ctl_options c key), CtlConnect (coConnectTimeout c), CtlRequestStream (coOperationTimeout c) source] @
      map (CtlMedia \<circ> record_call) recs @ [CtlMedia DoEndStream, CtlClose]"
    and input: "cwInput sample_world = concat (map record_bytes recs) @ rest"
    using ctl_transmit_complete [OF run] by (auto simp: sample_world_def)
  from parsed have "coOperationTimeout c = 5 * Second" and "source = ''N0CALL''"
    unfolding sample_flags by (auto simp: default_common_def)
  with run n calls input show ?thesis by (intro exI [of _ calls] exI [of _ recs] exI [of _ rest]) simp
qed

end
