(* ===== verification/Daemon.thy ===== *)
theory Daemon
  imports ReflectorRun CommandProps Flags
begin

text \<open>
  The whole of \<^verbatim>\<open>cmd/opusrefd/main.go\<close>: the reflector with the registry as its sinks, the monitoring
  goroutine beside it, and the end of the process.

  The calls of the sinks that a handler makes are delivered to the registry when the handler is done; the
  interleaving of single calls of the registry is that of \<open>MonitorProps\<close>. What the sinks hold in the model
  of the reflector are thus the calls of the current step only.
\<close>

section \<open>The sinks\<close>

text \<open>\<^verbatim>\<open>SetEventSink\<close>: an event record of the reflector as an event of the registry.\<close>

definition sink_detail :: "detail \<Rightarrow> detail_value" where
  "sink_detail d = (case d of
       DSession n \<Rightarrow> DetailNumber n
     | DStream n \<Rightarrow> DetailNumber (ucast n)
     | DText s \<Rightarrow> DetailText s
     | DCount n \<Rightarrow> DetailNumber n
     | DReason x \<Rightarrow> DetailText (reason_text x))"

definition sink_event :: "time \<Rightarrow> EventRecord \<Rightarrow> Registry \<Rightarrow> Registry" where
  "sink_event instant ev = AddEvent instant \<lparr>meID = 0, meTime = 0, meType = evType ev, meSeverity = evSeverity ev,
     meDetails = map (\<lambda>(k, d). (k, sink_detail d)) (evDetails ev)\<rparr>"

text \<open>\<^verbatim>\<open>SetMetricSink\<close>: the registry counts, and observes the durations of streams.\<close>

definition sink_metric :: "metric_call \<Rightarrow> Registry \<Rightarrow> Registry" where
  "sink_metric = (\<lambda>(name, ls, amount) r.
     if name = ''ObserveStreamDuration'' then ObserveStreamDuration (sint amount) r
     else snd (Registry_Add name ls amount r))"

section \<open>The process\<close>

text \<open>
  The reflector, the registry and the two counters of the monitoring goroutine. Two ghosts: \<open>prMetrics\<close> has all calls
  of the metric sink, \<open>prTotals\<close> the totals of dropped datagrams and of sequence gaps that each monitoring tick saw.
  A tick of the monitoring goroutine is one step.
\<close>

record process =
  prReflector :: Reflector
  prRegistry :: Registry
  prPrior :: "u64 \<times> u64"
  prMetrics :: "metric_call list"
  prTotals :: "(u64 \<times> u64) list"

text \<open>The clock of the registry at the \<open>i\<close>-th event of a step is \<open>ts i\<close>.\<close>

definition deliver :: "(nat \<Rightarrow> time) \<Rightarrow> Reflector \<Rightarrow> process \<Rightarrow> process" where
  "deliver ts r P = P\<lparr>prReflector := r\<lparr>metrics := [], events := []\<rparr>,
     prRegistry := fold (\<lambda>(i, ev). sink_event (ts i) ev) (enumerate 0 (events r)) (fold sink_metric (metrics r) (prRegistry P)),
     prMetrics := prMetrics P @ metrics r\<rparr>"

datatype process_event =
    PReflector server_event "nat \<Rightarrow> time"
  | PDrain "drain_event list" "drain_event list" "nat \<Rightarrow> time"
  | PMonitor time time

fun process_step :: "string \<Rightarrow> process option \<Rightarrow> process_event \<Rightarrow> process option" where
  "process_step reflector None ev = None"
| "process_step reflector (Some P) (PReflector ev ts) = do { r \<leftarrow> Run_step ev (prReflector P); Some (deliver ts r P) }"
| "process_step reflector (Some P) (PDrain evs1 evs2 ts) = do { r \<leftarrow> drain evs1 evs2 (prReflector P); Some (deliver ts r P) }"
| "process_step reflector (Some P) (PMonitor instant later) =
     (let s = Reflector_Snapshot (prReflector P);
          (prior, reg) = monitoring_tick reflector instant later s (prPrior P) (prRegistry P) in
      Some (P\<lparr>prPrior := prior, prRegistry := reg, prTotals := prTotals P @ [(rsInboundDrops s, rsSequenceGaps s)]\<rparr>))"

definition process_start :: "Reflector \<Rightarrow> Registry \<Rightarrow> process" where
  "process_start r reg = \<lparr>prReflector = r, prRegistry = reg, prPrior = (0, 0), prMetrics = [], prTotals = []\<rparr>"

text \<open>The line of the log at the start.\<close>

definition logRuntimeStart :: "Config \<Rightarrow> string \<times> (string \<times> string) list" where
  "logRuntimeStart cfg = (''reflector started'', [(''reflector_id'', cgID (cgReflector cfg)),
     (''udp_listen'', cgUDPListen (cgNetwork cfg)), (''monitoring_listen'', cgHTTPListen (cgMonitoring cfg))])"

text \<open>
  The end of \<^verbatim>\<open>run\<close>: the registry is told that the reflector is not ready. The monitoring goroutine is only asked to end,
  \<^verbatim>\<open>run\<close> does not wait for it, so ticks may come after it.
\<close>

definition daemon_stop :: "Config \<Rightarrow> time \<Rightarrow> process \<Rightarrow> process" where
  "daemon_stop cfg instant P =
     P\<lparr>prRegistry := Registry_Publish instant (zeroSnapshot\<lparr>moReflectorID := cgID (cgReflector cfg)\<rparr>) (prRegistry P)\<rparr>"

text \<open>
  \<^verbatim>\<open>run\<close>: the error of the start, or the process when it ends and the error it returns. \<open>late\<close> are the monitoring
  ticks between the withdrawal of the readiness and the exit of the process.
\<close>

definition daemon_run :: "operating_system \<Rightarrow> yaml_decoder \<Rightarrow> string \<Rightarrow> bool \<Rightarrow> (nat \<Rightarrow> time) \<Rightarrow> bytes \<Rightarrow> time \<Rightarrow>
    process_event list \<Rightarrow> time \<Rightarrow> (time \<times> time) list \<Rightarrow> wake \<Rightarrow> exit_error option \<Rightarrow> (start_error + process \<times> exit_error option) option" where
  "daemon_run os decode path bound clk rnd instant evs later late w run_err =
     (case Load os decode path of
        Inl err \<Rightarrow> Some (Inl (StartConfig err))
      | Inr cfg \<Rightarrow>
          (case daemon_start os decode path bound clk rnd instant of
             Inl err \<Rightarrow> Some (Inl err)
           | Inr (r, reg) \<Rightarrow> do {
               P \<leftarrow> run (process_step (cgID (cgReflector cfg))) (Some (process_start r reg)) evs;
               P \<leftarrow> run (process_step (cgID (cgReflector cfg))) (Some (daemon_stop cfg later P)) (map (\<lambda>(t, u). PMonitor t u) late);
               Some (Inr (P, exit_status w run_err))
             }))"

text \<open>The one flag, and \<^verbatim>\<open>main\<close>: the exit code. The package \<^verbatim>\<open>flag\<close> ends the process itself on a flag that it refuses.\<close>

definition daemon_path :: "string list \<Rightarrow> flag_error + string" where
  "daemon_path args = Parse (map_of [(''config'', \<lambda>v _. Some v)]) args ''config.yaml''"

definition daemon_main :: "operating_system \<Rightarrow> yaml_decoder \<Rightarrow> string list \<Rightarrow> bool \<Rightarrow> (nat \<Rightarrow> time) \<Rightarrow> bytes \<Rightarrow> time \<Rightarrow>
    process_event list \<Rightarrow> time \<Rightarrow> (time \<times> time) list \<Rightarrow> wake \<Rightarrow> exit_error option \<Rightarrow> nat option" where
  "daemon_main os decode args bound clk rnd instant evs later late w run_err =
     (case daemon_path args of
        Inl err \<Rightarrow> Some (if err = FlagHelp then 0 else 2)
      | Inr path \<Rightarrow> do {
          res \<leftarrow> daemon_run os decode path bound clk rnd instant evs later late w run_err;
          Some (case res of Inr (_, None) \<Rightarrow> 0 | _ \<Rightarrow> 1)
        })"

section \<open>Counters\<close>

text \<open>The calls that the monitoring goroutine makes up to given totals, taken together.\<close>

definition monitor_calls :: "u64 \<times> u64 \<Rightarrow> metric_call list" where
  "monitor_calls = (\<lambda>(inbound, lost).
     [(''opusref_queue_drops_total'', [(''queue'', ''server_inbound''), (''item_type'', ''datagram'')], inbound),
      (''opusref_sequence_gaps_total'', [(''direction'', ''rx'')], lost)])"

definition largest_totals :: "(u64 \<times> u64) list \<Rightarrow> u64 \<times> u64" where
  "largest_totals ts = (fold max (map fst ts) 0, fold max (map snd ts) 0)"

lemma largest_totals_append:
  "largest_totals (ts @ [(i, g)]) = (max i (fst (largest_totals ts)), max g (snd (largest_totals ts)))"
  by (simp add: largest_totals_def)

definition counts_calls :: "process \<Rightarrow> bool" where
  "counts_calls P \<longleftrightarrow> prPrior P = largest_totals (prTotals P) \<and>
     (\<forall>name ls c. accepted_labels name ls = Some c \<longrightarrow>
        counter name c (prRegistry P) = accepted_total name c (prMetrics P) + accepted_total name c (monitor_calls (prPrior P)))"

definition process_ok :: "process \<Rightarrow> bool" where
  "process_ok P \<longleftrightarrow> refl_inv (prReflector P) \<and> reports_ok (prReflector P) \<and> list_all metric_ok (prMetrics P) \<and> counts_calls P"

lemma accepted_total_append: "accepted_total name c (xs @ ys) = accepted_total name c xs + accepted_total name c ys"
  by (simp add: accepted_total_def)

lemma counter_sink_metric:
  assumes "accepted_labels name ls = Some c"
  shows "counter name c (sink_metric m r) = counter name c r + accepted_total name c [m]"
proof -
  obtain n ks amount where m: "m = (n, ks, amount)" by (cases m)
  have "accepted_labels ''ObserveStreamDuration'' ks = None" by (simp add: accepted_labels_code metricLabels_def)
  with counter_Add [OF assms, of n ks amount r] show ?thesis
    by (cases "n = ''ObserveStreamDuration''")
      (simp_all add: m sink_metric_def accepted_total_def counter_def ObserveStreamDuration_def)
qed

lemma counter_sinks:
  assumes "accepted_labels name ls = Some c"
  shows "counter name c (fold sink_metric ms r) = counter name c r + accepted_total name c ms"
proof (induction ms arbitrary: r)
  case (Cons m ms)
  then show ?case
    using counter_sink_metric [OF assms, of m r] accepted_total_append [of name c "[m]" ms] by (simp add: ac_simps)
qed (simp add: accepted_total_def)

lemma counter_sink_events: "counter name c (fold (\<lambda>(i, ev). sink_event (ts i) ev) evs r) = counter name c r"
proof (induction evs arbitrary: r)
  case (Cons e evs)
  then show ?case by (cases e) (simp add: sink_event_def)
qed simp

lemma deliver_counts: "counts_calls P \<Longrightarrow> counts_calls (deliver ts r P)"
  by (simp add: counts_calls_def deliver_def counter_sink_events counter_sinks accepted_total_append)

lemma same_core_emptied: "same_core r (r\<lparr>metrics := [], events := []\<rparr>)"
  by (simp add: same_core_def)

lemma deliver_ok:
  assumes "process_ok P" and "refl_inv r" and "reports_ok r"
  shows "process_ok (deliver ts r P)"
  using assms deliver_counts [of P ts r] same_core_inv [OF same_core_emptied, of r]
  by (simp add: process_ok_def) (simp add: deliver_def reports_ok_def)

lemma tick_prior: "fst (monitoring_tick reflector t u s prior r) =
    (max (rsInboundDrops s) (fst prior), max (rsSequenceGaps s) (snd prior))"
  by (cases prior) (auto simp: monitoring_tick_def Let_def max_def not_le)

lemma tick_counts:
  assumes "accepted_labels name ls = Some c"
  shows "counter name c (snd (monitoring_tick reflector t u s prior r)) + accepted_total name c (monitor_calls prior) =
    counter name c r + accepted_total name c (monitor_calls (fst (monitoring_tick reflector t u s prior r)))"
proof -
  define A where "A \<longleftrightarrow> name = ''opusref_queue_drops_total'' \<and>
    accepted_labels ''opusref_queue_drops_total'' [(''queue'', ''server_inbound''), (''item_type'', ''datagram'')] = Some c"
  define B where "B \<longleftrightarrow> name = ''opusref_sequence_gaps_total'' \<and>
    accepted_labels ''opusref_sequence_gaps_total'' [(''direction'', ''rx'')] = Some c"
  obtain a b where p: "prior = (a, b)" by (cases prior)
  let ?x = "rsInboundDrops s" and ?y = "rsSequenceGaps s"
  have calls: "accepted_total name c (monitor_calls (i, g)) = (if A then i else 0) + (if B then g else 0)" for i g
    by (auto simp: accepted_total_def monitor_calls_def A_def B_def simp del: char.inject)
  have "counter name c (snd (monitoring_tick reflector t u s prior r)) =
      counter name c r + (if ?x > a \<and> A then ?x - a else 0) + (if ?y > b \<and> B then ?y - b else 0)"
    by (auto simp: p monitoring_tick_def Let_def counter_Add [OF assms] A_def B_def simp del: char.inject)
  then show ?thesis unfolding tick_prior by (auto simp: p calls max_strict dest: less_asym)
qed

definition process_inv :: "process option \<Rightarrow> bool" where
  "process_inv s \<longleftrightarrow> (case s of None \<Rightarrow> False | Some P \<Rightarrow> process_ok P)"

definition process_init :: "process option \<Rightarrow> bool" where
  "process_init s \<longleftrightarrow> (\<exists>q clk rnd uni r capacity deadline started t t' snap. NewReflector q clk rnd uni = Inr r \<and>
     s = Some (process_start r (Registry_Publish t' snap (Registry_New capacity deadline started t))))"

lemma process_inv_step:
  assumes "process_inv s"
  shows "process_inv (process_step reflector s ev)"
proof -
  from assms obtain P where s: "s = Some P" and P: "process_ok P" by (auto simp: process_inv_def split: option.splits)
  then have r: "refl_inv (prReflector P)" "reports_ok (prReflector P)" by (simp_all add: process_ok_def)
  show ?thesis
  proof (cases ev)
    case (PReflector e ts)
    obtain r' where r': "Run_step e (prReflector P) = Some r'" "refl_inv r'" using Run_step_inv [OF r(1)] by blast
    moreover have "reports_ok r'" using Run_step_reports [OF r(2), of e] r'(1) by (simp add: report_simps)
    ultimately show ?thesis using deliver_ok [OF P] by (simp add: s PReflector process_inv_def)
  next
    case (PDrain evs1 evs2 ts)
    obtain r' where r': "drain evs1 evs2 (prReflector P) = Some r'" "refl_inv r'"
      using drain_empties [OF r(1), of evs1 evs2] by blast
    moreover have "reports_ok r'" using drain_reports [OF r(2), of evs1 evs2] r'(1) by (simp add: report_simps)
    ultimately show ?thesis using deliver_ok [OF P] by (simp add: s PDrain process_inv_def)
  next
    case (PMonitor t u)
    let ?s = "Reflector_Snapshot (prReflector P)"
    obtain prior reg where m: "monitoring_tick reflector t u ?s (prPrior P) (prRegistry P) = (prior, reg)"
      by (rule prod.exhaust)
    let ?Q = "P\<lparr>prPrior := prior, prRegistry := reg, prTotals := prTotals P @ [(rsInboundDrops ?s, rsSequenceGaps ?s)]\<rparr>"
    have "prior = largest_totals (prTotals ?Q)"
      using tick_prior [of reflector t u ?s "prPrior P" "prRegistry P"] m P
      by (simp add: largest_totals_append process_ok_def counts_calls_def)
    moreover have "counter name c reg = accepted_total name c (prMetrics P) + accepted_total name c (monitor_calls prior)"
      if "accepted_labels name ls = Some c" for name ls c
      using tick_counts [OF that, of reflector t u ?s "prPrior P" "prRegistry P"] m P that
      by (simp add: process_ok_def counts_calls_def)
    ultimately have "counts_calls ?Q" by (simp add: counts_calls_def)
    with P m show ?thesis by (simp add: s PMonitor process_inv_def process_ok_def Let_def)
  qed
qed

lemma process_init_inv:
  assumes "process_init s"
  shows "process_inv s"
proof -
  from assms obtain q clk rnd uni r capacity deadline started t t' snap where r: "NewReflector q clk rnd uni = Inr r"
    and s: "s = Some (process_start r (Registry_Publish t' snap (Registry_New capacity deadline started t)))"
    unfolding process_init_def by blast
  have "counter name c (Registry_New capacity deadline started t) = 0" for name c
    by (simp add: counter_def Registry_New_def Registry_Publish_def Let_def)
  then show ?thesis
    using NewReflector_inv [OF r] NewReflector_reports [OF r]
    by (simp add: s process_inv_def process_ok_def process_start_def counts_calls_def accepted_total_def
      largest_totals_def monitor_calls_def)
qed

lemma stop_ok: "process_ok P \<Longrightarrow> process_ok (daemon_stop cfg u P)"
  by (simp add: daemon_stop_def process_ok_def counts_calls_def)

interpretation daemon: machine process_init "process_step reflector" process_inv for reflector
  by unfold_locales (erule process_init_inv, erule process_inv_step)

section \<open>Endpoints\<close>

text \<open>The address as the endpoint shows it.\<close>

definition masked :: "string \<Rightarrow> string" where
  "masked a = (case SplitHostPort a of Some (host, _) \<Rightarrow> JoinHostPort host ''0'' | None \<Rightarrow> a)"

definition plain_address :: "string \<Rightarrow> string \<Rightarrow> bool" where
  "plain_address host port \<longleftrightarrow> \<not> has_char host (CHR ''['') \<and> \<not> has_char host (CHR '']'') \<and>
     \<not> has_char port (CHR ''['') \<and> \<not> has_char port (CHR '']'') \<and> \<not> has_char port (CHR '':'')"

lemma dropWhile_before: "x \<notin> set xs \<Longrightarrow> dropWhile (\<lambda>c. c \<noteq> x) (xs @ x # ys) = x # ys"
  by (induction xs) auto

lemma before_last_colon: "c \<notin> set port \<Longrightarrow> before_last c (host @ c # port) = host"
  by (simp add: before_last_def dropWhile_before)

lemma takeWhile_before: "x \<notin> set xs \<Longrightarrow> takeWhile (\<lambda>c. c \<noteq> x) (xs @ x # ys) = xs"
  by (induction xs) auto

lemma Split_Join:
  assumes "plain_address host port"
  shows "SplitHostPort (JoinHostPort host port) = Some (host, port)"
proof (cases "has_char host (CHR '':'')")
  case True
  let ?s = "(CHR ''['' # host @ [CHR '']'']) @ CHR '':'' # port"
  have j: "JoinHostPort host port = ?s" using True by (simp add: JoinHostPort_def)
  have last: "before_last (CHR '':'') ?s = CHR ''['' # host @ [CHR '']'']"
    using assms by (intro before_last_colon) (simp add: plain_address_def has_char_def)
  have "takeWhile (\<lambda>x. x \<noteq> CHR '']'') ((CHR ''['' # host) @ CHR '']'' # CHR '':'' # port) = CHR ''['' # host"
    using assms by (intro takeWhile_before) (simp add: plain_address_def has_char_def)
  then have inner: "takeWhile (\<lambda>x. x \<noteq> CHR '']'') ?s = CHR ''['' # host" by simp
  show ?thesis
    unfolding j SplitHostPort_def last inner Let_def
    using assms by (simp add: plain_address_def has_char_def)
next
  case False
  have j: "JoinHostPort host port = host @ CHR '':'' # port" using False by (simp add: JoinHostPort_def)
  have last: "before_last (CHR '':'') (host @ CHR '':'' # port) = host"
    using assms by (intro before_last_colon) (simp add: plain_address_def has_char_def)
  have "hd (host @ CHR '':'' # port) \<noteq> CHR ''[''" using assms by (cases host) (auto simp: plain_address_def has_char_def)
  then show ?thesis
    unfolding j SplitHostPort_def last Let_def
    using assms False by (simp add: plain_address_def has_char_def)
qed

lemma masked_Join: "plain_address host port \<Longrightarrow> masked (JoinHostPort host port) = JoinHostPort host ''0''"
  by (simp add: masked_def Split_Join)

lemma publish_snapshot:
  "\<exists>s. snapshot (publish r) = Some s \<and> rsReady s = (\<not> draining (engine (publish r))) \<and>
    rsClients s = map client_view (peers (publish r)) \<and>
    fsActive (rsFloor s) = (floor_of (engine (publish r)) \<noteq> None) \<and>
    pred_option (\<lambda>f. fsSessionID (rsFloor s) = fOwner f \<and> fsStreamID (rsFloor s) = fStream f \<and>
      fsSourceCallsign (rsFloor s) = fSource f \<and> fsStartedAt (rsFloor s) = fFirstMedia f \<and>
      fsLastFrameAt (rsFloor s) = fLastMedia f) (floor_of (engine (publish r)))"
  using EngineSnapshot_eq [of r]
  by (auto simp: publish_def Clock_eq Let_def Snapshot_def case_prod_beta zeroFloorSnapshot_def split: option.splits)

lemma tick_published: "tick r = Some r' \<Longrightarrow> \<exists>r0. r' = publish r0"
  by (auto simp: tick_def Let_def bind_eq_Some_conv split: prod.splits)

lemma monitoring_tick_snapshot:
  "rgSnapshot (snd (monitoring_tick reflector t u s prior r)) =
    (zeroSnapshot\<lparr>moReady := rsReady s, moReflectorID := reflector, moClients := length (rsClients s),
      moClientList := monitor_clients (rsClients s), moStream := monitor_stream (rsFloor s)\<rparr>)\<lparr>moAPIVersion := 1, moUpdated := u\<rparr>"
  by (auto simp: monitoring_tick_def Let_def Registry_Publish_def case_prod_beta monitor_clients_def)

section \<open>Properties\<close>

text \<open>
  A tick that comes after the end of \<^verbatim>\<open>run\<close> undoes the withdrawal of the readiness when the last snapshot of the reflector
  was ready, which it is after an error of the socket: only the drain publishes another one.
\<close>

lemma late_tick_ready:
  assumes "rsReady (Reflector_Snapshot (prReflector P))"
  shows "\<exists>P'. process_step reflector (Some (daemon_stop cfg t0 P)) (PMonitor t u) = Some P' \<and>
    Handler fmt_g health' t' RouteReady (prRegistry P') = Some (200, NoBody)"
  using monitoring_tick_snapshot [of reflector t u "Reflector_Snapshot (prReflector P)" "prPrior P" "prRegistry (daemon_stop cfg t0 P)"] assms
  by (simp add: daemon_stop_def Handler_def case_prod_beta Let_def)

text \<open>
  C8. The daemon loses no report. From an accepted configuration, whatever reaches the reflector
  and however its steps, its shutdown and the monitoring goroutine interleave, the monitoring ticks after the end included,
  the process does not panic, and every counter of the registry is exactly the sum of the calls that the reflector made for
  its labels and, for the counters of dropped datagrams and of sequence gaps under the labels of the
  monitoring goroutine, of the largest total that a tick saw. Each call of the reflector is of the documented
  vocabulary, or one of the two kinds that \<open>metric_ok\<close> names.
\<close>

theorem daemon_counts_reports:
  assumes "Load os decode path = Inr cfg" and "SharedKey os cfg = Inr key" and "accepted_labels name ls = Some c"
  shows "\<exists>P. daemon_run os decode path True clk rnd t evs u late w run_err = Some (Inr (P, exit_status w run_err)) \<and>
    counter name c (prRegistry P) =
      accepted_total name c (prMetrics P) + accepted_total name c (monitor_calls (largest_totals (prTotals P))) \<and>
    list_all metric_ok (prMetrics P)"
proof -
  have checks: "check_identity os cfg = None" "check_numbers cfg = None" using Load_checks [OF assms(1)] by simp_all
  obtain r where r: "NewReflector (reflector_options cfg key) clk rnd (osUnicode os) = Inr r"
    using accepted_reflector [OF checks] by blast
  let ?reg = "Registry_Publish t (zeroSnapshot\<lparr>moReflectorID := cgID (cgReflector cfg)\<rparr>)
    (Registry_New (cgRecentEvents (cgLimits cfg)) (cgHealthDeadline (cgTimers cfg)) t t)"
  let ?step = "process_step (cgID (cgReflector cfg))"
  have start: "daemon_start os decode path True clk rnd t = Inr (r, ?reg)"
    using assms(1,2) r by (simp add: daemon_start_def Let_def)
  have "process_init (Some (process_start r ?reg))" unfolding process_init_def using r by blast
  then have "process_inv (run ?step (Some (process_start r ?reg)) evs)" by (rule daemon.inv_reachable)
  then obtain P where P: "run ?step (Some (process_start r ?reg)) evs = Some P" "process_ok P"
    by (auto simp: process_inv_def split: option.splits)
  have "process_inv (Some (daemon_stop cfg u P))" using stop_ok [OF P(2)] by (simp add: process_inv_def)
  then have "process_inv (run ?step (Some (daemon_stop cfg u P)) (map (\<lambda>(t, u). PMonitor t u) late))"
    by (rule daemon.inv_run)
  then obtain Q where "run ?step (Some (daemon_stop cfg u P)) (map (\<lambda>(t, u). PMonitor t u) late) = Some Q" "process_ok Q"
    by (auto simp: process_inv_def split: option.splits)
  with P(1) assms(1,3) start show ?thesis by (auto simp: daemon_run_def process_ok_def counts_calls_def)
qed

theorem daemon_counts_reports_witness:
  "\<exists>P c. daemon_run sample_os (\<lambda>_ _. Inr sample_config) [] True (\<lambda>_. 1) [] 5
      [PReflector STick (\<lambda>_. 6), PMonitor 7 7, PDrain [] [] (\<lambda>_. 8)] 9 [(10, 10)] WakeSignal None = Some (Inr (P, None)) \<and>
    accepted_labels ''opusref_busy_total'' [] = Some c \<and>
    counter ''opusref_busy_total'' c (prRegistry P) = accepted_total ''opusref_busy_total'' c (prMetrics P)"
proof -
  obtain c where c: "accepted_labels ''opusref_busy_total'' [] = Some c"
    by (simp add: accepted_labels_code metricLabels_def)
  then obtain P where P: "daemon_run sample_os (\<lambda>_ _. Inr sample_config) [] True (\<lambda>_. 1) [] 5
      [PReflector STick (\<lambda>_. 6), PMonitor 7 7, PDrain [] [] (\<lambda>_. 8)] 9 [(10, 10)] WakeSignal None =
      Some (Inr (P, exit_status WakeSignal None))"
    and n: "counter ''opusref_busy_total'' c (prRegistry P) = accepted_total ''opusref_busy_total'' c (prMetrics P) +
      accepted_total ''opusref_busy_total'' c (monitor_calls (largest_totals (prTotals P)))"
    using daemon_counts_reports [OF sample_loads, of "''opusref_busy_total''" "[]" c] by metis
  have "accepted_total ''opusref_busy_total'' c (monitor_calls k) = 0" for k
    by (simp add: accepted_total_def monitor_calls_def case_prod_beta)
  moreover have "exit_status WakeSignal None = None" by (simp add: exit_status_def waitForTermination_def)
  ultimately show ?thesis using c P n by (intro exI [of _ P] exI [of _ c]) simp
qed

text \<open>
  C17. The endpoints show the reflector. After a tick of the reflector and the next tick of the monitoring
  goroutine, the endpoints answer with the state of the reflector at that tick: readiness unless it drains,
  exactly its admitted clients, with masked addresses, and the holder of the floor. Masking keeps the host and
  replaces the port by zero.
\<close>

theorem endpoints_agree:
  assumes "process_step reflector (Some P) (PReflector STick ts) = Some P'"
    and "process_step reflector (Some P') (PMonitor t u) = Some P''" and "plain_address host port"
  shows "let r = prReflector P'; h = (\<lambda>x. Handler fmt_g health' t' x (prRegistry P'')) in
    h RouteReady = Some (if draining (engine r) then (503, BodyError ''not ready'') else (200, NoBody)) \<and>
    h RouteClients = Some (200, BodyClients (map (\<lambda>(sid, q). \<lparr>mcNodeCallsign = peNode q, mcRemoteAddress = masked (peAddress q),
      mcSessionID = peId q, mcConnectedAt = peConnected q, mcLastActivity = peLast q\<rparr>) (peers r))) \<and>
    (\<exists>s. h RouteStream = Some (200, BodyStream s) \<and> msActive s = (floor_of (engine r) \<noteq> None) \<and>
      pred_option (\<lambda>f. msSessionID s = fOwner f \<and> msStreamID s = fStream f \<and> msSourceCallsign s = fSource f \<and>
        msStartedAt s = fFirstMedia f \<and> msLastFrameAt s = fLastMedia f) (floor_of (engine r))) \<and>
    masked (JoinHostPort host port) = JoinHostPort host ''0''"
proof -
  from assms(1) obtain r' where "tick (prReflector P) = Some r'" and P': "P' = deliver ts r' P"
    by (auto simp: bind_eq_Some_conv)
  with tick_published obtain r0 where r': "r' = publish r0" by blast
  have same: "snapshot (prReflector P') = snapshot r'" "engine (prReflector P') = engine r'" "peers (prReflector P') = peers r'"
    by (simp_all add: P' deliver_def)
  obtain s where s: "snapshot r' = Some s" "rsReady s = (\<not> draining (engine r'))" "rsClients s = map client_view (peers r')"
    "fsActive (rsFloor s) = (floor_of (engine r') \<noteq> None)"
    "pred_option (\<lambda>f. fsSessionID (rsFloor s) = fOwner f \<and> fsStreamID (rsFloor s) = fStream f \<and>
      fsSourceCallsign (rsFloor s) = fSource f \<and> fsStartedAt (rsFloor s) = fFirstMedia f \<and>
      fsLastFrameAt (rsFloor s) = fLastMedia f) (floor_of (engine r'))"
    using publish_snapshot [of r0] unfolding r' by blast
  have snap: "rgSnapshot (prRegistry P'') =
    (zeroSnapshot\<lparr>moReady := rsReady s, moReflectorID := reflector, moClients := length (rsClients s),
      moClientList := monitor_clients (rsClients s), moStream := monitor_stream (rsFloor s)\<rparr>)\<lparr>moAPIVersion := 1, moUpdated := u\<rparr>"
    using assms(2) s(1) same(1) by (auto simp: Reflector_Snapshot_def monitoring_tick_snapshot Let_def case_prod_beta)
  have clients: "monitor_clients (map client_view ps) = map (\<lambda>(sid, q). \<lparr>mcNodeCallsign = peNode q, mcRemoteAddress = masked (peAddress q),
      mcSessionID = peId q, mcConnectedAt = peConnected q, mcLastActivity = peLast q\<rparr>) ps" for ps
    by (auto simp: monitor_clients_def client_view_def masked_def)
  have stream: "Handler fmt_g health' t' RouteStream (prRegistry P'') = Some (200, BodyStream (monitor_stream (rsFloor s)))"
    by (simp add: Handler_def snap)
  show ?thesis
    unfolding Let_def same
    using s masked_Join [OF assms(3)] stream clients
    by (auto simp: Handler_def snap monitor_stream_def)
qed

theorem endpoints_agree_witness:
  "\<exists>r P' P''. process_step ''REF1'' (Some (process_start r (Registry_New 4 Second 5 5))) (PReflector STick (\<lambda>_. 6)) = Some P' \<and>
    process_step ''REF1'' (Some P') (PMonitor 7 7) = Some P'' \<and>
    Handler (\<lambda>_. []) None 8 RouteReady (prRegistry P'') =
      Some (if draining (engine (prReflector P')) then (503, BodyError ''not ready'') else (200, NoBody)) \<and>
    masked (JoinHostPort ''10.0.0.1'' ''5000'') = JoinHostPort ''10.0.0.1'' ''0''"
proof -
  obtain r where r: "refl_inv r"
    using accepted_reflector [of sample_os sample_config "[]"] Load_checks [OF sample_loads(1)] NewReflector_inv by blast
  let ?P = "process_start r (Registry_New 4 Second 5 5)"
  obtain r' where "Run_step STick r = Some r'" using Run_step_inv [OF r] by blast
  then have P': "process_step ''REF1'' (Some ?P) (PReflector STick (\<lambda>_. 6)) = Some (deliver (\<lambda>_. 6) r' ?P)"
    by (simp add: process_start_def)
  moreover obtain P'' where P'': "process_step ''REF1'' (Some (deliver (\<lambda>_. 6) r' ?P)) (PMonitor 7 7) = Some P''"
    by (simp add: case_prod_beta Let_def)
  moreover have plain: "plain_address ''10.0.0.1'' ''5000''" by (simp add: plain_address_def has_char_def)
  note endpoints_agree [OF P' P'' plain, unfolded Let_def, of "\<lambda>_. []" None 8]
  ultimately show ?thesis by blast
qed

end
