(* ===== verification/Spec2Isabelle.thy ===== *)
theory Spec2Isabelle
  imports WireProps EngineProps TransportRead DiagRecord ReflectorLive ReflectorSends ClientProps MonitorText ControlProgram Daemon Agreement
begin

text \<open>
  A verification library for OpusRef, a reflector for half-duplex voice over UDP: clients open a
  session with a reflector, one of them at a time holds the floor, and the reflector copies its
  media packets to the others. The program is written in Go.

  \<^bold>\<open>Parts and theories.\<close>
  \<^item> \<^verbatim>\<open>pkg/wire\<close>: theory \<open>Wire\<close> has the constants, headers and packets of \<^verbatim>\<open>wire.go\<close>, \<open>Codec\<close> the
    encoder and decoder of \<^verbatim>\<open>codec.go\<close>, \<open>Helpers\<close> the extensions and identifiers of \<^verbatim>\<open>helpers.go\<close>,
    \<open>Validate\<close> the rule table of \<^verbatim>\<open>validate.go\<close>. \<open>WireProps\<close>: the codec is canonical, it writes
    the reference layout, and the validation is the packet matrix of the protocol document
    but for the two deviations that the theorem names.
  \<^item> \<^verbatim>\<open>pkg/server/engine.go\<close>: \<open>Engine\<close> has a definition for each method; the mutex makes each
    method one step. \<open>EngineLaws\<close> proves the invariant and the abstraction to the floor automaton,
    \<open>EngineProps\<close> the theorems about any sequence of calls.
  \<^item> \<^verbatim>\<open>internal/transport/udp.go\<close>: \<open>Transport\<close>, the queues and the write loop, and
    \<open>TransportRead\<close>, the loop of \<^verbatim>\<open>Read\<close> over the answers of the socket.
  \<^item> \<^verbatim>\<open>pkg/server/reflector.go\<close>: \<open>Reflector\<close> (state, handshake, requests, media, timers, drain; \<open>Crypto\<close>
    has SHA-256 and HMAC), \<open>ReflectorLaws\<close> and \<open>ReflectorTotal\<close> (every handler keeps the invariant and
    returns), \<open>ReflectorSystem\<close> (runs), \<open>ReflectorProps\<close> and \<open>ReflectorLive\<close> (theorems),
    \<open>ReflectorReports\<close> (what it reports to the registry and to the log), \<open>ReflectorRun\<close> (the loop of
    \<^verbatim>\<open>Run\<close> over the cases of its select, and \<^verbatim>\<open>Close\<close>) and \<open>ReflectorSends\<close> (everything it sends
    is valid for the client that reads it).
  \<^item> \<^verbatim>\<open>pkg/client/client.go\<close>: \<open>QueueClient\<close>, the calls of the application and the goroutine that sends,
    cut at critical sections and channel operations, interleaved on any number of threads;
    \<open>QueueClientLaws\<close> has the invariant. \<^verbatim>\<open>pkg/client/udp.go\<close>: \<open>UdpClient\<close>, the sender, its read and
    process loops and its requests; \<open>UdpClientLaws\<close> has the invariant. \<open>ClientProps\<close>: theorems of both.
  \<^item> \<^verbatim>\<open>internal/record/record.go\<close>: \<open>DiagRecord\<close>. \<^verbatim>\<open>internal/config/config.go\<close>: \<open>Config\<close>.
  \<^item> \<^verbatim>\<open>pkg/monitor\<close>: \<open>Monitor\<close>, the registry and the handlers; \<open>MonitorProps\<close> has the invariant of the
    registry under interleaved calls and its theorems, \<open>MonitorText\<close> the text of the metrics.
  \<^item> \<^verbatim>\<open>cmd/opusrefd\<close> and \<^verbatim>\<open>cmd/opusrefctl\<close>: \<open>Commands\<close> has their functions, with
    theorems in \<open>CommandProps\<close>, and \<open>Flags\<close> the parsing of their arguments. \<open>ControlProgram\<close> is the whole
    of \<^verbatim>\<open>opusrefctl\<close> from its arguments to its exit code, with the calls it makes of the client. \<open>Daemon\<close> is the
    whole of \<^verbatim>\<open>opusrefd\<close>: the reflector, the registry as its sinks and the monitoring goroutine in one
    step function, from the configuration to the end; its theorems span the reflector, the
    registry and the endpoints.
  \<^item> \<open>Agreement\<close> relates the two ends of the protocol; its theorems are in this theory. \<open>ServerPackets\<close> has
    the validity of the packets the reflector builds, in each phase in which a client reads them.

  \<open>Prelude\<close> has checked list access, slices and association maps, \<open>GoStd\<close> what the program uses of
  the Go library, and \<open>Systems\<close> the interfaces: \<open>machine\<close> (an invariant kept by a step function),
  \<open>simulation\<close> (with an abstraction), \<open>framing\<close> (self-delimiting encodings) and \<open>canonical_codec\<close>.
  The engine, the transport, the running reflector, both halves of the client, the
  registry and the process of the daemon are interpretations of \<open>machine\<close>, the running reflector three
  times (\<open>server\<close>: its invariant, \<open>reporting\<close>: its reports, \<open>sending\<close>: its datagrams), the wire codec of \<open>canonical_codec\<close>, the records of \<open>framing\<close>.

  \<^bold>\<open>How the code is modelled.\<close> A struct is a record with its fields, a Go map an association list
  with distinct keys (its iteration order is the order of the list, and the running reflector
  may permute it at any time), a slice a list with checked access: \<^term>\<open>None\<close> is a panic in every
  definition whose source may panic. Integers have the width of the source; lengths and
  capacities of type int are \<^typ>\<open>int\<close> or \<^typ>\<open>nat\<close>. An instant is a number of nanoseconds with 0 for the
  zero time, and \<open>Sub\<close> saturates as in Go. Errors are values. The clock and the random source of
  the engine and of the reflector are streams from which each reading takes the next. What
  the environment decides (contexts, timers, the network, the file system, the YAML decoder, the Unicode
  case table) is an argument; nothing is assumed of it.

  \<^bold>\<open>Bounds and fuel.\<close> \<open>notifyEnd\<close> and \<open>controlOverload\<close> call each other in the source. The model unfolds
  the recursion twice, which is enough: the inner call runs without a floor and does not call
  again, and \<open>ReflectorLaws\<close> proves that the model never reaches the bottom. A request of the client is
  sent four times, with the delays of the source. A random source is the list of the bytes that it
  delivers before it fails; a call that returns has read finitely many of them, so nothing is lost for such calls. The
  loops that draw identifiers (\<open>transactionID\<close>, \<open>admit\<close>, \<open>nextTx\<close>) take bytes of it in each round and report the error when
  it is exhausted. In the source they would go on for ever on a reader that delivers nothing but zeros or used numbers
  and never fails; \<open>transaction_id_draws\<close> says how many draws are enough otherwise. The drain ends with the list
  of its events, which stands for the end of its context; between its own steps \<open>background_step\<close> has the
  goroutines of the transport at work. The
  loops that wait take their events from a list, so a theorem about them holds for every
  list, and they say when the list ends first. \<open>transmit\<close> ends because each record is not empty.

  \<^bold>\<open>Findings.\<close> \<open>record_eof\<close>: a recording that stops after a header is taken for complete.
  \<open>failed_handshake_is_final\<close>: a client whose confirmation fails can never connect again.
  \<open>events_out_of_order\<close>: the endpoint of events may serve an older event before a newer one.
  \<open>validate_is_matrix\<close>: an ERROR is accepted with a session that the document excludes.
  \<open>reports_documented\<close>: the traffic of unregistered packet types is reported under a label value that the registry refuses.
  \<open>late_tick_ready\<close>: the daemon may show itself ready again while it shuts down.

  \<^bold>\<open>Not modelled.\<close> Two concurrent requests of one UDP client, which the control slots allow; the
  deadlines of the sockets other than the one that \<^verbatim>\<open>Read\<close> sets; how floating point numbers are printed in the text of
  the metrics and how texts of durations are parsed (parameters); JSON, the HTTP server, signals
  and log output. In \<open>Daemon\<close> the calls of the sinks that a handler makes reach the registry at the end of the handler, and a tick of the
  monitoring goroutine is one step; \<open>MonitorProps\<close> interleaves single calls of the registry. There the first count of a
  sample, which the source first stores as zero and then adds to, is one step: a reader may see the zero between them, no
  sum changes. The log \<open>usEvents\<close> of the sender has every event that it publishes, also those that a
  full queue of the application drops.
\<close>

section \<open>The client and the reflector\<close>

text \<open>
  C5. The two ends of the handshake agree. A client with the key of the reflector sends HELLO with its
  callsign; if the reflector answers with a challenge, then the AUTHENTICATE packet that the client
  makes of it, through the encoding and decoding of all three packets, admits it: presented to any later state of the
  reflector that still has the challenge and the configuration, does not drain, and has room for a
  session and an unused number \<open>sid\<close> next in its random source, within ten seconds, it is answered with
  WELCOME for \<open>sid\<close>, and the reflector then has a session and a peer with this number, the address of the client and its
  callsign, and the challenge no more.
\<close>

theorem handshake_agrees:
  assumes "Callsign uni name = Inr node" and "transmitted (hello_packet ident node nonce) = Some p1"
    and "hello a p1 r = (challenge_packet, r1)" and "challenge_packet \<noteq> zeroPacket"
    and "transmitted challenge_packet = Some q"
    and "transmitted (authenticate_packet key ident node nonce q) = Some p2"
    and "map_of (challenges r1) (a @ string_of (PutUint64 ident)) = Some c"
    and "map_of (challenges r2) (a @ string_of (PutUint64 ident)) = Some c"
    and "options r2 = options r1" and "unicode r2 = unicode r1"
    and "bytes_of key = oSharedKey (options r2)"
    and "Sub (clock (engine r2) (readings (engine r2))) (cAt c) \<le> 10 * Second"
    and "int (length (sessions (engine r2))) < MaxClients (limits (engine r2))" and "\<not> draining (engine r2)"
    and "random r2 = b @ rest" and "length b = 8" and "get_be b = sid" and "sid \<noteq> 0" and "map_of (sessions (engine r2)) sid = None"
  shows "\<exists>reply r3. authenticate a p2 r2 = (reply, r3) \<and>
    hType (pHeader reply) = PacketWelcome \<and> hSessionID (pHeader reply) = sid \<and>
    Find reply TLVTransactionID = Some (PutUint64 ident) \<and>
    admitted sid a (a @ string_of (PutUint64 ident)) (TrimSpace (string_of node)) r3"
proof -
  have p: "p1 = with_lengths (hello_packet ident node nonce)" "q = with_lengths challenge_packet"
    "p2 = with_lengths (authenticate_packet key ident node nonce q)"
    using assms(2,5,6) by (simp_all add: transmitted_Some)
  from hello_answer [OF assms(3,4)] assms(7) have c: "cNode c = TrimSpace (string_of node)" "cClient c = nonce"
    "value_of challenge_packet TLVServerNonce = cServer c"
    "value_of challenge_packet TLVReflectorID = identifier_or_nil (ReflectorID (unicode r1) (oID (options r1)))"
    by (auto simp: p(1))
  have "credentials a p2 r2 c"
    unfolding p(3) by (rule client_credentials [OF assms(11,1,8)]) (use c assms(9,10,12) in \<open>simp_all add: p(2)\<close>)
  from authenticate_checked [OF this assms(13)] c(1) obtain n where n: "authenticate a p2 r2 =
      admit a (a @ string_of (PutUint64 ident)) (TrimSpace (string_of node)) (PutUint64 ident)
        (r2\<lparr>engine := (engine r2)\<lparr>readings := n\<rparr>\<rparr>)" by (auto simp: p(3))
  let ?r = "r2\<lparr>engine := (engine r2)\<lparr>readings := n\<rparr>\<rparr>"
  have "fst (AddSession sid a (TrimSpace (string_of node)) False (engine ?r))"
    using assms(13,14,18,19) by (simp add: AddSession_def now_def)
  moreover obtain r3 where "authenticate a p2 r2 = (welcome_packet sid (PutUint64 ident) ?r, r3)"
    "same_core (with_session sid a (a @ string_of (PutUint64 ident)) (TrimSpace (string_of node)) ?r) r3"
    using admit_block [of ?r b rest sid a "a @ string_of (PutUint64 ident)" "TrimSpace (string_of node)" "PutUint64 ident"] assms(13-19)
    by (auto simp: n)
  ultimately show ?thesis using admitted_session by (simp add: welcome_packet_def Find_def tlv_def baseTLV_def)
qed

lemma demo_callsign: "Callsign uni ''N0CALL'' = Inr (bytes_of ''N0CALL    '')"
  by code_simp

definition keyed :: Reflector where
  "keyed = demo\<lparr>random := replicate 32 9 @ [0, 0, 0, 0, 0, 0, 0, 7], options := (options demo)\<lparr>oSharedKey := bytes_of ''0123456789abcdef''\<rparr>\<rparr>"

definition keyed_hello :: "Packet \<times> Reflector" where
  "keyed_hello = hello ''a'' (with_lengths (hello_packet 1 (bytes_of ''N0CALL    '') (replicate 32 5))) keyed"

lemma demo_facts:
  "challenges demo = []" "oMaxPendingChallenges (options demo) = 100" "oID (options demo) = ''REF1''"
  "oDisplayName (options demo) = ''Demo''" "readings (engine demo) = 1" "sessions (engine demo) = []"
  "MaxClients (limits (engine demo)) = 100" "\<not> draining (engine demo)" "clock (engine demo) i = int i"
  by code_simp+

lemma demo_reflector_id: "ReflectorID uni ''REF1'' = Inr (bytes_of ''REF1            '')"
  by code_simp

lemma keyed_hello_eq:
  "keyed_hello = (\<lparr>pHeader = zeroHeader\<lparr>hVersion := 1, hType := PacketChallenge, hFlags := FlagResponse\<rparr>,
      pExtensions = [tlv TLVTransactionID (PutUint64 1), tlv TLVServerNonce (replicate 32 9),
        tlv TLVReflectorID (bytes_of ''REF1            ''), tlv TLVDisplayName (bytes_of ''Demo'')], pPayload = []\<rparr>,
    keyed\<lparr>random := [0, 0, 0, 0, 0, 0, 0, 7], engine := (engine demo)\<lparr>readings := 2\<rparr>,
      challenges := [(''a'' @ string_of (PutUint64 1), \<lparr>cNode = TrimSpace (string_of (bytes_of ''N0CALL    '')), cClient = replicate 32 5,
        cServer = replicate 32 9, cAt = 1\<rparr>)]\<rparr>)"
  by (simp add: keyed_hello_def keyed_def hello_def Let_def ReadRandom_def ReadFull_def Clock_eq demo_facts demo_reflector_id
      identifier_or_nil_def numeral_2_eq_2)

theorem handshake_agrees_witness:
  "\<exists>reply r3. authenticate ''a'' (with_lengths (authenticate_packet ''0123456789abcdef'' 1 (bytes_of ''N0CALL    '') (replicate 32 5)
      (with_lengths (fst keyed_hello)))) (snd keyed_hello) = (reply, r3) \<and>
    hType (pHeader reply) = PacketWelcome \<and> hSessionID (pHeader reply) = 7 \<and>
    Find reply TLVTransactionID = Some (PutUint64 1) \<and>
    admitted 7 ''a'' (''a'' @ string_of (PutUint64 1)) (TrimSpace (string_of (bytes_of ''N0CALL    ''))) r3"
proof -
  let ?node = "bytes_of ''N0CALL    ''" and ?nonce = "replicate 32 5 :: bytes" and ?q = "with_lengths (fst keyed_hello)"
  have call: "Callsign (\<lambda>s. s) ''N0CALL'' = Inr ?node" using demo_callsign .
  have "validPaddedIdentifier ?node 10" "validPaddedIdentifier (bytes_of ''REF1            '') 16" "utf8_valid (bytes_of ''Demo'')"
    by code_simp+
  note wf = this demo_simps hello_packet_def authenticate_packet_def client_packet_def client_tag_def Let_def
  have p1: "transmitted (hello_packet 1 ?node ?nonce) = Some (with_lengths (hello_packet 1 ?node ?nonce))"
    by (simp add: transmitted_Some wf)
  have q: "transmitted (fst keyed_hello) = Some ?q" by (simp add: transmitted_Some keyed_hello_eq wf)
  have "value_of (fst keyed_hello) TLVServerNonce = replicate 32 9"
    by (simp add: keyed_hello_eq value_of_def Find_def tlv_def baseTLV_def)
  then have p2: "transmitted (authenticate_packet ''0123456789abcdef'' 1 ?node ?nonce ?q) =
      Some (with_lengths (authenticate_packet ''0123456789abcdef'' 1 ?node ?nonce ?q))"
    by (simp add: transmitted_Some wf)
  have hello: "hello ''a'' (with_lengths (hello_packet 1 ?node ?nonce)) keyed = (fst keyed_hello, snd keyed_hello)"
    by (simp add: keyed_hello_def)
  let ?c = "\<lparr>cNode = TrimSpace (string_of ?node), cClient = replicate 32 5, cServer = replicate 32 9, cAt = 1\<rparr> :: challenge"
  have stored: "map_of (challenges (snd keyed_hello)) (''a'' @ string_of (PutUint64 1)) = Some ?c" by (simp add: keyed_hello_eq)
  have late: "Sub 2 1 \<le> 10 * Second" by code_simp
  have raw: "length ([0, 0, 0, 0, 0, 0, 0, 7] :: bytes) = 8" "get_be ([0, 0, 0, 0, 0, 0, 0, 7] :: bytes) = (7 :: u64)" by code_simp+
  show ?thesis
    by (rule handshake_agrees [OF call p1 hello _ q p2 stored stored _ _ _ _ _ _ _ raw])
      (simp_all add: keyed_hello_eq keyed_def demo_facts zeroPacket_def zeroHeader_def late)
qed

text \<open>
  C6. What the client sends as a stream is what the reflector takes for one. When a call of the
  client is about to send the end of the stream, then a reflector that granted the floor for the stream,
  and has seen no media of it, accepts every frame of the stream in order, counts no gap, and
  then accepts the end, with the number of frames as its sequence number.
\<close>

theorem stream_is_accepted:
  assumes "New q sender = Inr c" and "run client_step (Some (start_world c)) evs = Some w"
    and "TEndSend out \<in> set (wThreads w)"
    and "in_stream sid address (qcStreamID (wClient w)) 0 0 e"
  shows "\<exists>e' x e''. media_run sid address (ouStreamID out) (map (offered sid) (wFrames w)) e = (length (wFrames w), e') \<and>
    gaps e' = gaps e \<and>
    End sid (ouStreamID out) (ouSequence out) (ouTimestamp out) EndNormal e' = (Inr (Some x), e'') \<and>
    floor_of e'' = None \<and> seSequence x = word_of_nat (length (wFrames w))"
proof (rule client_running [OF assms(1), of evs])
  fix w'
  assume "run client_step (Some (start_world c)) evs = Some w'" and "client_ok w'"
  with assms(2) have ok: "client_ok w" by simp
  then have "thread_ok (wClient w) (wAccepted w) (wCalls w) (TEndSend out)" using assms(3) by (auto simp: client_ok_def)
  then have out: "out = end_frame (wClient w)" by simp
  have fr: "frames_ok (wClient w) (wFrames w)" using ok by (simp add: client_ok_def)
  let ?ms = "map (offered sid) (wFrames w)" and ?st = "qcStreamID (wClient w)"
  have nums: "map fst ?ms = map word_of_nat [0..<0 + length ?ms]"
    using fr by (simp add: frames_ok_def comp_def)
  have e: "in_stream sid address ?st 0 0 e" using assms(4) by simp
  from media_run_stream [OF e nums] obtain e' where e': "media_run sid address ?st ?ms e = (length ?ms, e')" "gaps e' = gaps e"
    "in_stream sid address ?st (length ?ms) (if ?ms = [] then 0 else fst (snd (last ?ms))) e'" by auto
  have ts: "(if length ?ms = 0 then 0 else if ?ms = [] then 0 else fst (snd (last ?ms))) = ouTimestamp out"
    using fr by (auto simp: out end_frame_def newOutbound_def frames_ok_def last_map)
  from End_stream [OF e'(3), unfolded ts] e'(1,2) fr show ?thesis
    by (auto simp: out end_frame_def newOutbound_def frames_ok_def)
qed

definition talking_engine :: Engine where
  "talking_engine = snd (RequestFloor 9 1 ''N0CALL'' (snd (AddSession 9 ''a'' ''N0CALL'' True
     (NewEngine (oLimits demo_options) (\<lambda>n. int n + 1)))))"

theorem stream_is_accepted_witness:
  "\<exists>e' x e''. media_run 9 ''a'' 1 (map (offered 9) (wFrames demo_talk_world)) talking_engine = (2, e') \<and>
    End 9 1 2 1920 EndNormal e' = (Inr (Some x), e'') \<and> seSequence x = 2"
proof -
  let ?out = "(newOutbound EventStreamEnd)\<lparr>ouStreamID := 1, ouSequence := 2, ouTimestamp := 1920\<rparr>"
  have "run client_step (Some (start_world demo_client)) demo_talk_events \<noteq> None" by code_simp
  then have w: "run client_step (Some (start_world demo_client)) demo_talk_events = Some demo_talk_world"
    by (auto simp: demo_talk_world_def)
  have t: "?out \<in> {out. TEndSend out \<in> set (wThreads demo_talk_world)}" by code_simp
  have n: "length (wFrames demo_talk_world) = 2" and st: "qcStreamID (wClient demo_talk_world) = 1" by code_simp+
  have "in_stream 9 ''a'' 1 0 0 talking_engine"
    by (simp add: in_stream_def talking_engine_def NewEngine_def AddSession_def RequestFloor_def now_def Limits_defaults_def
      demo_options_def IsZero_def Let_def)
  then have e: "in_stream 9 ''a'' (qcStreamID (wClient demo_talk_world)) 0 0 talking_engine" unfolding st .
  from stream_is_accepted [OF demo_client_New w _ e, of ?out] t n show ?thesis by (auto simp: newOutbound_def)
qed

text \<open>
  C33. Every packet of the client is one that the reflector's validation accepts in the phase in which the client
  sends it: its requests, also marked as a retry, every media packet with a payload, and its acknowledgement of every
  notification that its own validation lets through. The acknowledgement is a response under the
  session of the client that names the type, the stream and the transaction of the notification.
\<close>

theorem client_packets_accepted:
  assumes "sid \<noteq> 0" and "ouStreamID out \<noteq> 0" and "ouPayload out \<noteq> []"
    and "Validate p \<lparr>cDirection = ServerToClient, cPhase = Ready\<rparr> = None"
    and "hType (pHeader p) \<in> {PacketStreamStart, PacketStreamRevoke, PacketDisconnect}"
    and "Find p TLVTransactionID = Some raw"
  shows "list_all (\<lambda>(ph, p). server_accepts ph p \<and> server_accepts ph (with_retry p))
      (client_requests key node nonce challenge_reply ident sid out source) \<and>
    server_accepts Ready (media_packet out sid) \<and>
    server_accepts Ready (ack_packet p sid raw) \<and>
    Find (ack_packet p sid raw) TLVTransactionID = Find p TLVTransactionID \<and>
    hType (pHeader (ack_packet p sid raw)) = hType (pHeader p) \<and> hFlags (pHeader (ack_packet p sid raw)) = FlagResponse \<and>
    hSessionID (pHeader (ack_packet p sid raw)) = sid \<and> hStreamID (pHeader (ack_packet p sid raw)) = hStreamID (pHeader p)"
  using requests_accepted [OF assms(1,2)] media_accepted [OF assms(1-3)] ack_accepted [OF assms(1,4,5)] assms(6)
  by (simp add: ack_fields)

theorem client_packets_accepted_witness:
  "server_accepts Ready (media_packet ((newOutbound EventAudio)\<lparr>ouStreamID := 7, ouPayload := [1]\<rparr>) 9) \<and>
    server_accepts Ready (ack_packet (disconnect_packet 9 4) 9 (PutUint64 4))"
proof -
  have "Validate (disconnect_packet 9 4) \<lparr>cDirection = ServerToClient, cPhase = Ready\<rparr> = None" by code_simp
  moreover have "hType (pHeader (disconnect_packet 9 4)) = PacketDisconnect" "Find (disconnect_packet 9 4) TLVTransactionID = Some (PutUint64 4)"
    by code_simp+
  ultimately show ?thesis
    using client_packets_accepted [of 9 "(newOutbound EventAudio)\<lparr>ouStreamID := 7, ouPayload := [1]\<rparr>" "disconnect_packet 9 4" "PutUint64 4"]
    by (simp add: newOutbound_def)
qed

end
